(* ===== verification/BmpPrelude.thy ===== *)
theory BmpPrelude
  imports Main "HOL-Library.Word"
begin

text \<open>
  The layer every component of the collector shares. It fixes
  \<^item> the machine integers of the code (\<open>u_char\<close>, \<open>uint16_t\<close>, \<open>uint32_t\<close>, \<open>uint64_t\<close>)
    as words of that width;
  \<^item> the memory model: a C pointer into a received message is the list of the bytes from the
    pointer to the end of the allocation it points into. Advancing the pointer is \<open>drop\<close>, and
    a read past the allocation is the value \<open>Inl OutOfBounds\<close>, so an over-read is visible as
    a result and cannot be assumed away;
  \<^item> the outcome of a C++ function: \<open>Inr\<close> of what it returns (with the objects it writes),
    \<open>Inl (Throw s)\<close> for \<open>throw s\<close>, and one \<open>Inl\<close> value for each kind of undefined
    behaviour that the code can reach;
  \<^item> the printing primitives the parsers use (decimal and hexadecimal stream output,
    \<open>inet_ntop\<close> for \<open>AF_INET\<close>) and their inverses.
  The host is little endian, as on the platforms the collector is built for.
\<close>

unbundle bit_operations_syntax

type_synonym u8 = "8 word"
type_synonym u16 = "16 word"
type_synonym u32 = "32 word"
type_synonym u64 = "64 word"
type_synonym bytes = "8 word list"

datatype fault =
    OutOfBounds          \<comment> \<open>a read past the end of the allocation\<close>
  | BufferOverflow       \<comment> \<open>a write past the end of a fixed size array\<close>
  | NullDeref            \<comment> \<open>a read through a null pointer\<close>
  | Uninit               \<comment> \<open>a read of an indeterminate value\<close>
  | Throw string         \<comment> \<open>a C++ \<open>throw\<close> of a string literal\<close>
  | Uncaught             \<comment> \<open>a C++ exception of the standard library, which no handler catches\<close>
  | Overflow             \<comment> \<open>signed arithmetic or a shift outside the range of its type\<close>
  | Hang                 \<comment> \<open>a loop that has not ended after the attempts it was given\<close>

type_synonym 'a result = "fault + 'a"

named_theorems run_simps \<open>equations that run a parser step on known bytes\<close>
named_theorems bound_intros \<open>facts that bound what a parser step reads\<close>
named_theorems wp \<open>weakest preconditions of parser steps\<close>

section \<open>Sequencing\<close>

definition andThen :: "'a result \<Rightarrow> ('a \<Rightarrow> 'b result) \<Rightarrow> 'b result" where
  "andThen m f = (case m of Inl e \<Rightarrow> Inl e | Inr x \<Rightarrow> f x)"

definition okay :: "'a result \<Rightarrow> bool" where
  "okay m = (case m of Inl _ \<Rightarrow> False | Inr _ \<Rightarrow> True)"

text \<open>
  Partial and total correctness of a step: every value it returns satisfies \<open>P\<close>, and it returns a value
  that satisfies \<open>P\<close>.
\<close>

definition ret :: "'a result \<Rightarrow> ('a \<Rightarrow> bool) \<Rightarrow> bool" where
  "ret m P = (case m of Inl _ \<Rightarrow> True | Inr x \<Rightarrow> P x)"

definition tot :: "'a result \<Rightarrow> ('a \<Rightarrow> bool) \<Rightarrow> bool" where
  "tot m P = (case m of Inl _ \<Rightarrow> False | Inr x \<Rightarrow> P x)"

section \<open>Reading memory\<close>

definition rd :: "nat \<Rightarrow> bytes \<Rightarrow> bytes result" where
  "rd n d = (if n \<le> length d then Inr (take n d) else Inl OutOfBounds)"

definition rd_u8 :: "bytes \<Rightarrow> u8 result" where
  "rd_u8 d = (case d of [] \<Rightarrow> Inl OutOfBounds | b # _ \<Rightarrow> Inr b)"

fun le_val :: "bytes \<Rightarrow> nat" where
  "le_val [] = 0"
| "le_val (b # bs) = unat b + 256 * le_val bs"

definition be_val :: "bytes \<Rightarrow> nat" where
  "be_val bs = le_val (rev bs)"

fun be_bytes :: "nat \<Rightarrow> nat \<Rightarrow> bytes" where
  "be_bytes 0 v = []"
| "be_bytes (Suc n) v = be_bytes n (v div 256) @ [of_nat (v mod 256)]"

section \<open>Printing\<close>

definition digit_char :: "nat \<Rightarrow> char" where
  "digit_char d = (if d < 10 then char_of (48 + d) else char_of (87 + d))"

fun dec_of_nat :: "nat \<Rightarrow> string" where
  "dec_of_nat n = (if n < 10 then [digit_char n] else dec_of_nat (n div 10) @ [digit_char (n mod 10)])"

declare dec_of_nat.simps [simp del]

fun hex_of_nat :: "nat \<Rightarrow> string" where
  "hex_of_nat n = (if n < 16 then [digit_char n] else hex_of_nat (n div 16) @ [digit_char (n mod 16)])"

declare hex_of_nat.simps [simp del]

definition hex2 :: "u8 \<Rightarrow> string" where
  "hex2 b = [digit_char (unat b div 16), digit_char (unat b mod 16)]"

definition dec_of_int :: "int \<Rightarrow> string" where
  "dec_of_int i = (if i < 0 then ''-'' @ dec_of_nat (nat (- i)) else dec_of_nat (nat i))"

definition nat_of_dec :: "string \<Rightarrow> nat" where
  "nat_of_dec s = foldl (\<lambda>a c. a * 10 + (of_char c - 48)) 0 s"

definition inet_ntop4 :: "bytes \<Rightarrow> string" where
  "inet_ntop4 bs =
     dec_of_nat (unat (bs ! 0)) @ ''.'' @ dec_of_nat (unat (bs ! 1)) @ ''.'' @
     dec_of_nat (unat (bs ! 2)) @ ''.'' @ dec_of_nat (unat (bs ! 3))"

section \<open>Lemmas\<close>

lemma andThen_Inr [simp]: "andThen (Inr x) f = f x"
  by (simp add: andThen_def)

lemma andThen_Inl [simp]: "andThen (Inl e) f = Inl e"
  by (simp add: andThen_def)

lemma andThen_eq_Inr: "andThen m f = Inr y \<longleftrightarrow> (\<exists>x. m = Inr x \<and> f x = Inr y)"
  by (auto simp: andThen_def split: sum.splits)

lemma andThen_eq_Inl: "andThen m f = Inl e \<longleftrightarrow> m = Inl e \<or> (\<exists>x. m = Inr x \<and> f x = Inl e)"
  by (auto simp: andThen_def split: sum.splits)

lemma andThen_assoc: "andThen (andThen m f) g = andThen m (\<lambda>x. andThen (f x) g)"
  by (simp add: andThen_def split: sum.splits)

lemma andThen_if: "andThen (if b then m else n) f = (if b then andThen m f else andThen n f)"
  by simp

lemma okay_Inr [simp]: "okay (Inr x)" and okay_Inl [simp]: "\<not> okay (Inl e)"
  by (simp_all add: okay_def)

lemma okay_iff: "okay m \<longleftrightarrow> (\<exists>x. m = Inr x)"
  by (cases m) auto

lemma okay_andThenI [bound_intros]:
  "okay m \<Longrightarrow> (\<And>x. m = Inr x \<Longrightarrow> okay (f x)) \<Longrightarrow> okay (andThen m f)"
  by (cases m) auto

lemma rd_append [simp, run_simps]: "length xs = n \<Longrightarrow> rd n (xs @ ys) = Inr xs"
  by (auto simp: rd_def)

lemma rd_short [simp]: "length d < n \<Longrightarrow> rd n d = Inl OutOfBounds"
  by (simp add: rd_def)

lemma rd_enough: "n \<le> length d \<Longrightarrow> rd n d = Inr (take n d)"
  by (simp add: rd_def)

lemma rd_u8_Cons [simp, run_simps]: "rd_u8 (b # bs) = Inr b"
  by (simp add: rd_u8_def)

lemma rd_u8_Nil [simp]: "rd_u8 [] = Inl OutOfBounds"
  by (simp add: rd_u8_def)

lemma ret_wp [wp]:
  "ret (Inr x) P = P x" "ret (Inl e) P = True" "ret (andThen m f) P = ret m (\<lambda>x. ret (f x) P)"
  "ret (rd n d) Q = (n \<le> length d \<longrightarrow> Q (take n d))" "ret (rd_u8 d) R = (d \<noteq> [] \<longrightarrow> R (hd d))"
  by (simp_all add: ret_def andThen_def rd_def rd_u8_def split: sum.split list.split)

lemma tot_wp [wp]:
  "tot (Inr x) P = P x" "tot (Inl e) P = False" "tot (andThen m f) P = tot m (\<lambda>x. tot (f x) P)"
  "tot (rd n d) Q = (n \<le> length d \<and> Q (take n d))" "tot (rd_u8 d) R = (d \<noteq> [] \<and> R (hd d))"
  by (simp_all add: tot_def andThen_def rd_def rd_u8_def split: sum.split list.split)

lemma ret_if [wp]: "ret (if b then m else n) P = (if b then ret m P else ret n P)"
  and tot_if [wp]: "tot (if b then m else n) P = (if b then tot m P else tot n P)"
  by simp_all

lemma retD: "ret m P \<Longrightarrow> m = Inr x \<Longrightarrow> P x"
  by (simp add: ret_def)

lemma tot_iff: "tot m P \<longleftrightarrow> (\<exists>x. m = Inr x \<and> P x)"
  by (simp add: tot_def split: sum.split)

lemma okay_tot: "okay m = tot m (\<lambda>_. True)"
  by (simp add: okay_def tot_def)

lemma tot_okay: "tot m P \<Longrightarrow> okay m"
  by (auto simp: okay_iff tot_iff)

lemma tot_mono: "tot m P \<Longrightarrow> (\<And>x. P x \<Longrightarrow> Q x) \<Longrightarrow> tot m Q"
  by (auto simp: tot_iff)

lemma ret_mono: "ret m P \<Longrightarrow> (\<And>x. P x \<Longrightarrow> Q x) \<Longrightarrow> ret m Q"
  by (simp add: ret_def split: sum.splits)

lemma ret_True [wp]: "ret m (\<lambda>_. True)"
  by (simp add: ret_def split: sum.splits)

lemma digit_char_simps [simp]:
  "digit_char 0 = CHR ''0''"
  "digit_char (Suc 0) = CHR ''1''"
  "digit_char 2 = CHR ''2''"
  "digit_char 3 = CHR ''3''"
  "digit_char 4 = CHR ''4''"
  "digit_char 5 = CHR ''5''"
  "digit_char 6 = CHR ''6''"
  "digit_char 7 = CHR ''7''"
  "digit_char 8 = CHR ''8''"
  "digit_char 9 = CHR ''9''"
  "digit_char 10 = CHR ''a''"
  "digit_char 11 = CHR ''b''"
  "digit_char 12 = CHR ''c''"
  "digit_char 13 = CHR ''d''"
  "digit_char 14 = CHR ''e''"
  "digit_char 15 = CHR ''f''"
  by (simp_all add: digit_char_def char_of_def bit_Suc_0_iff)

lemma le_val_append: "le_val (xs @ ys) = le_val xs + 256 ^ length xs * le_val ys"
  by (induction xs) (auto simp: algebra_simps)

lemma be_val_Nil [simp]: "be_val [] = 0"
  by (simp add: be_val_def)

lemma be_val_snoc: "be_val (xs @ [b]) = 256 * be_val xs + unat b"
  by (simp add: be_val_def)

lemma unat_u8_less [simp]: "unat (b :: u8) < 256"
  using unsigned_less [of b, where 'a = nat] by simp

lemma unat_u8_le: "unat (b :: u8) \<le> 255"
  using unat_u8_less [of b] by linarith

lemma le_val_bound: "le_val bs < 256 ^ length bs"
proof (induction bs)
  case (Cons b bs)
  have "unat b + 256 * le_val bs < 256 * (le_val bs + 1)" by simp
  also have "\<dots> \<le> 256 * 256 ^ length bs" using Cons by (intro mult_le_mono2) simp
  finally show ?case by simp
qed simp

lemma be_val_bound: "be_val bs < 256 ^ length bs"
  using le_val_bound [of "rev bs"] by (simp add: be_val_def)

lemma be_bytes_numeral [simp]:
  "be_bytes (numeral k) v = be_bytes (pred_numeral k) (v div 256) @ [of_nat (v mod 256)]"
  by (metis be_bytes.simps(2) numeral_eq_Suc)

lemma length_be_bytes [simp]: "length (be_bytes n v) = n"
  by (induction n arbitrary: v) auto

lemma unat_of_nat_mod256 [simp]: "unat (of_nat (v mod 256) :: u8) = v mod 256"
  by (simp add: unat_of_nat)

lemma be_val_be_bytes: "be_val (be_bytes n v) = v mod 256 ^ n"
proof (induction n arbitrary: v)
  case (Suc n)
  have "256 * (v div 256 mod 256 ^ n) + v mod 256 = v mod (256 * 256 ^ n)"
    by (simp add: mod_mult2_eq)
  with Suc show ?case by (simp add: be_val_snoc)
qed simp

lemma be_bytes_be_val: "be_bytes (length bs) (be_val bs) = bs"
proof (induction bs rule: rev_induct)
  case (snoc b bs)
  then show ?case by (simp add: be_val_snoc)
qed simp

lemma be_val_inject: "length xs = length ys \<Longrightarrow> be_val xs = be_val ys \<longleftrightarrow> xs = ys"
  by (metis be_bytes_be_val)

subsection \<open>Decimal and hexadecimal output\<close>

lemma of_char_digit [simp]: "d < 10 \<Longrightarrow> (of_char (digit_char d) :: nat) = 48 + d"
  by (simp add: digit_char_def)

lemma nat_of_dec_snoc: "nat_of_dec (s @ [c]) = nat_of_dec s * 10 + (of_char c - 48)"
  by (simp add: nat_of_dec_def)

lemma nat_of_dec_dec_of_nat [simp]: "nat_of_dec (dec_of_nat n) = n"
proof (induction n rule: dec_of_nat.induct)
  case (1 n)
  show ?case
  proof (cases "n < 10")
    case True
    then show ?thesis by (simp add: dec_of_nat.simps [of n] nat_of_dec_def)
  next
    case False
    with 1 have "nat_of_dec (dec_of_nat (n div 10)) = n div 10" by simp
    with False show ?thesis by (simp add: dec_of_nat.simps [of n] nat_of_dec_snoc)
  qed
qed

lemma dec_of_nat_inject [simp]: "dec_of_nat m = dec_of_nat n \<longleftrightarrow> m = n"
  by (metis nat_of_dec_dec_of_nat)

lemma dec_of_nat_nonempty [simp]: "dec_of_nat n \<noteq> []"
  by (subst dec_of_nat.simps) simp

lemma digit_char_range: "d < 10 \<Longrightarrow> (of_char (digit_char d) :: nat) \<in> {48..57}"
  by simp

lemma dec_of_nat_digits: "c \<in> set (dec_of_nat n) \<Longrightarrow> (of_char c :: nat) \<in> {48..57}"
proof (induction n rule: dec_of_nat.induct)
  case (1 n)
  show ?case
  proof (cases "n < 10")
    case True
    with 1 show ?thesis by (simp add: dec_of_nat.simps [of n])
  next
    case False
    with 1 show ?thesis by (auto simp: dec_of_nat.simps [of n])
  qed
qed

lemma length_dec_of_nat: "n < 10 ^ Suc k \<Longrightarrow> length (dec_of_nat n) \<le> Suc k"
proof (induction k arbitrary: n)
  case 0
  then show ?case by (simp add: dec_of_nat.simps)
next
  case (Suc k)
  then have "n div 10 < 10 ^ Suc k" by (simp add: div_less_iff_less_mult mult.commute)
  from Suc.IH [OF this] show ?case by (subst dec_of_nat.simps) simp
qed

section \<open>Streams of records\<close>

text \<open>
  The contract of the decoding loops: a loop \<open>loop len r data acc\<close> has read \<open>r\<close> of \<open>len\<close> bytes, stops when
  all are read, and on the encoding of a record consumes exactly that encoding and adds the record to
  its result. A loop with this contract decodes every sequence of records. \<open>enc\<close> is the encoding of a
  record, \<open>valid\<close> the records the contract covers, \<open>add_rec\<close> the effect of a record on the result, \<open>inv\<close>
  what the result satisfies throughout.
\<close>

locale state_stream =
  fixes inv :: "'acc \<Rightarrow> bool"
    and valid :: "'e \<Rightarrow> bool"
    and enc :: "'e \<Rightarrow> bytes"
    and add_rec :: "'acc \<Rightarrow> 'e \<Rightarrow> 'acc"
    and loop :: "nat \<Rightarrow> nat \<Rightarrow> bytes \<Rightarrow> 'acc \<Rightarrow> 'acc result"
  assumes stop: "loop len len d acc = Inr acc"
    and step: "inv acc \<Longrightarrow> valid e \<Longrightarrow> r + length (enc e) \<le> len \<Longrightarrow>
          loop len r (enc e @ rest) acc = loop len (r + length (enc e)) rest (add_rec acc e)"
    and inv_add: "inv acc \<Longrightarrow> valid e \<Longrightarrow> inv (add_rec acc e)"
begin

lemma run:
  "inv acc \<Longrightarrow> list_all valid es \<Longrightarrow> len = r + length (concat (map enc es)) \<Longrightarrow>
   loop len r (concat (map enc es) @ rest) acc = Inr (foldl add_rec acc es)"
proof (induction es arbitrary: r acc)
  case Nil
  then show ?case by (simp add: stop)
next
  case (Cons e es)
  then show ?case by (simp add: step inv_add add.assoc)
qed

lemma run_0:
  "inv acc \<Longrightarrow> list_all valid es \<Longrightarrow>
   loop (length (concat (map enc es))) 0 (concat (map enc es) @ rest) acc = Inr (foldl add_rec acc es)"
  by (rule run) simp_all

lemma run_inv: "inv acc \<Longrightarrow> list_all valid es \<Longrightarrow> inv (foldl add_rec acc es)"
  by (induction es arbitrary: acc) (simp_all add: inv_add)

end

text \<open>Most loops need no invariant of their result.\<close>

locale record_stream =
  fixes valid :: "'e \<Rightarrow> bool"
    and enc :: "'e \<Rightarrow> bytes"
    and add_rec :: "'acc \<Rightarrow> 'e \<Rightarrow> 'acc"
    and loop :: "nat \<Rightarrow> nat \<Rightarrow> bytes \<Rightarrow> 'acc \<Rightarrow> 'acc result"
  assumes loop_stop: "loop len len d acc = Inr acc"
    and loop_step: "valid e \<Longrightarrow> r + length (enc e) \<le> len \<Longrightarrow>
          loop len r (enc e @ rest) acc = loop len (r + length (enc e)) rest (add_rec acc e)"

sublocale record_stream \<subseteq> plain: state_stream "\<lambda>_. True" valid enc add_rec loop
  by unfold_locales (simp_all add: loop_stop loop_step)

context record_stream
begin

lemmas loop_run = plain.run [OF TrueI]
lemmas loop_run_0 = plain.run_0 [OF TrueI]

end

lemma foldl_snoc_map: "foldl (\<lambda>a e. a @ [f e]) acc es = acc @ map f es"
  by (induction es arbitrary: acc) simp_all

end
