(* ===== verification/ClientBuffer.thy ===== *)
theory ClientBuffer
  imports BmpPrelude
begin

text \<open>
  The receive path of one router connection (\<open>client_thread.cpp\<close>, \<open>ClientThread\<close>).
  A loop copies the bytes of the router's socket into a circular buffer and from there into the
  pipe that the BMP parser reads. The model keeps the loop variables of the source, and the two
  file descriptors as the bytes still to come from the router (\<open>inbox\<close>) and the bytes already
  handed to the parser (\<open>outbox\<close>). The results of \<open>poll\<close>, \<open>read\<close> and \<open>write\<close> are
  chosen by the environment, within their POSIX contract: a call transfers at most the number of
  bytes it was asked for.
\<close>

section \<open>State and environment\<close>

record client_state =
  sock_buf :: bytes             \<comment> \<open>\<open>new unsigned char[bmp_buffer_size]\<close>\<close>
  bytes_read :: int
  write_buf_pos :: nat
  read_buf_pos :: nat
  wrap_state :: bool
  sock_buf_write_ptr :: nat     \<comment> \<open>offset of the pointer in \<open>sock_buf\<close>\<close>
  sock_buf_read_ptr :: nat
  bmp_run :: bool
  socks_closed :: bool
  inbox :: bytes
  outbox :: bytes

datatype sock_event =
    SockQuiet           \<comment> \<open>\<open>poll\<close> timed out\<close>
  | SockHup             \<comment> \<open>\<open>POLLHUP\<close> or \<open>POLLERR\<close>\<close>
  | SockReady nat       \<comment> \<open>\<open>read\<close> can deliver up to that many bytes\<close>
  | SockFail            \<comment> \<open>\<open>read\<close> returned -1\<close>

datatype pipe_event =
    PipeQuiet
  | PipeHup
  | PipeReady nat       \<comment> \<open>\<open>write\<close> can take up to that many bytes\<close>
  | PipeFail

definition CLIENT_WRITE_BUFFER_BLOCK_SIZE :: nat where
  "CLIENT_WRITE_BUFFER_BLOCK_SIZE = 8192"

definition client_init :: "nat \<Rightarrow> bytes \<Rightarrow> bytes \<Rightarrow> client_state" where
  "client_init buf_size garbage stream =
     \<lparr>sock_buf = take buf_size (garbage @ replicate buf_size 0), bytes_read = 0, write_buf_pos = 0,
      read_buf_pos = 0, wrap_state = False, sock_buf_write_ptr = 0, sock_buf_read_ptr = 0,
      bmp_run = True, socks_closed = False, inbox = stream, outbox = []\<rparr>"

section \<open>System calls\<close>

definition store :: "nat \<Rightarrow> bytes \<Rightarrow> bytes \<Rightarrow> bytes result" where
  "store p bs buf =
     (if p + length bs \<le> length buf then Inr (take p buf @ bs @ drop (p + length bs) buf)
      else Inl BufferOverflow)"

definition sys_read :: "nat \<Rightarrow> nat \<Rightarrow> client_state \<Rightarrow> client_state result" where
  "sys_read k n s =
     (let bs = take (min k n) (inbox s)
      in andThen (store (sock_buf_write_ptr s) bs (sock_buf s)) (\<lambda>buf.
         Inr (s\<lparr>sock_buf := buf, inbox := drop (length bs) (inbox s), bytes_read := int (length bs)\<rparr>)))"

definition sys_write :: "nat \<Rightarrow> nat \<Rightarrow> client_state \<Rightarrow> client_state result" where
  "sys_write k n s =
     andThen (rd (min k n) (drop (sock_buf_read_ptr s) (sock_buf s))) (\<lambda>bs.
       Inr (s\<lparr>outbox := outbox s @ bs, bytes_read := int (length bs)\<rparr>))"

definition close_socks :: "client_state \<Rightarrow> client_state" where
  "close_socks s = s\<lparr>socks_closed := True, bmp_run := False\<rparr>"

section \<open>The loop body\<close>

definition sock_read :: "nat \<Rightarrow> sock_event \<Rightarrow> client_state \<Rightarrow> client_state result" where
  "sock_read buf_size e s =
     (case e of
        SockQuiet \<Rightarrow> Inr s
      | SockHup \<Rightarrow> Inr (s\<lparr>bytes_read := 0\<rparr>)
      | SockFail \<Rightarrow> Inr (s\<lparr>bytes_read := -1\<rparr>)
      | SockReady k \<Rightarrow>
          if \<not> wrap_state s then sys_read k (buf_size - write_buf_pos s) s
          else if read_buf_pos s > write_buf_pos s
               then sys_read k (read_buf_pos s - write_buf_pos s - 1) s
               else Inr s)"

definition fill :: "nat \<Rightarrow> sock_event \<Rightarrow> client_state \<Rightarrow> client_state result" where
  "fill buf_size e s =
     (if (wrap_state s \<and> write_buf_pos s + 1 < read_buf_pos s) \<or>
         (\<not> wrap_state s \<and> write_buf_pos s < buf_size)
      then if e = SockQuiet then Inr s
           else andThen (sock_read buf_size e s) (\<lambda>s.
             if bytes_read s \<le> 0 then Inr (close_socks s)
             else Inr (s\<lparr>sock_buf_write_ptr := sock_buf_write_ptr s + nat (bytes_read s),
                         write_buf_pos := write_buf_pos s + nat (bytes_read s)\<rparr>))
      else if write_buf_pos s \<ge> buf_size
           then Inr (s\<lparr>write_buf_pos := 0, sock_buf_write_ptr := 0, wrap_state := True\<rparr>)
           else Inr s)"

definition block_size :: "nat \<Rightarrow> nat" where
  "block_size n = (if n > CLIENT_WRITE_BUFFER_BLOCK_SIZE then CLIENT_WRITE_BUFFER_BLOCK_SIZE else n)"

definition pipe_write :: "nat \<Rightarrow> pipe_event \<Rightarrow> client_state \<Rightarrow> client_state result" where
  "pipe_write buf_size e s =
     (case e of
        PipeReady k \<Rightarrow>
          if \<not> wrap_state s then sys_write k (block_size (write_buf_pos s - read_buf_pos s)) s
          else sys_write k (block_size (buf_size - read_buf_pos s)) s
      | _ \<Rightarrow> Inr (s\<lparr>bytes_read := -1\<rparr>))"

definition drain :: "nat \<Rightarrow> pipe_event \<Rightarrow> client_state \<Rightarrow> client_state result" where
  "drain buf_size e s =
     (if (\<not> wrap_state s \<and> read_buf_pos s < write_buf_pos s) \<or>
         (wrap_state s \<and> read_buf_pos s < buf_size)
      then if e = PipeQuiet then Inr s
           else if e = PipeHup then Inr (close_socks s)
           else andThen (pipe_write buf_size e s) (\<lambda>s.
             if bytes_read s > 0
             then Inr (s\<lparr>sock_buf_read_ptr := sock_buf_read_ptr s + nat (bytes_read s),
                         read_buf_pos := read_buf_pos s + nat (bytes_read s)\<rparr>)
             else Inr s)
      else if read_buf_pos s \<ge> buf_size
           then Inr (s\<lparr>read_buf_pos := 0, sock_buf_read_ptr := 0, wrap_state := False\<rparr>)
           else Inr s)"

definition loop_body :: "nat \<Rightarrow> sock_event \<Rightarrow> pipe_event \<Rightarrow> client_state \<Rightarrow> client_state result" where
  "loop_body buf_size se pe s =
     andThen (fill buf_size se s) (\<lambda>s. if \<not> bmp_run s then Inr s else drain buf_size pe s)"

fun client_loop :: "nat \<Rightarrow> (sock_event \<times> pipe_event) list \<Rightarrow> client_state \<Rightarrow> client_state result" where
  "client_loop buf_size [] s = Inr s"
| "client_loop buf_size ((se, pe) # es) s =
     (if \<not> bmp_run s then Inr s else andThen (loop_body buf_size se pe s) (client_loop buf_size es))"

text \<open>
  The states a connection can be in: the start, a further iteration of the loop, and the reader
  thread clearing \<open>bmp_run\<close>, which it shares with the loop, at any moment.
\<close>

inductive client_reach :: "nat \<Rightarrow> bytes \<Rightarrow> client_state \<Rightarrow> bool" for buf_size stream where
  start: "client_reach buf_size stream (client_init buf_size garbage stream)"
| iterate: "client_reach buf_size stream s \<Longrightarrow> bmp_run s \<Longrightarrow> loop_body buf_size se pe s = Inr t \<Longrightarrow>
     client_reach buf_size stream t"
| reader_stop: "client_reach buf_size stream s \<Longrightarrow> client_reach buf_size stream (s\<lparr>bmp_run := False\<rparr>)"

text \<open>A run on a buffer of four bytes in which the write position wraps.\<close>

definition example_events :: "(sock_event \<times> pipe_event) list" where
  "example_events = [(SockReady 3, PipeReady 2), (SockReady 3, PipeReady 1), (SockQuiet, PipeQuiet),
     (SockReady 2, PipeQuiet)]"

definition example_client :: client_state where
  "example_client = (case client_loop 4 example_events (client_init 4 [] [1, 2, 3, 4, 5, 6, 7]) of
     Inr s \<Rightarrow> s | Inl _ \<Rightarrow> client_init 4 [] [])"

section \<open>Abstraction and invariant\<close>

text \<open>The bytes received and not yet handed on, in the order they arrived.\<close>

definition pending :: "client_state \<Rightarrow> bytes" where
  "pending s =
     (if wrap_state s then drop (read_buf_pos s) (sock_buf s) @ take (write_buf_pos s) (sock_buf s)
      else drop (read_buf_pos s) (take (write_buf_pos s) (sock_buf s)))"

definition client_inv :: "nat \<Rightarrow> bytes \<Rightarrow> client_state \<Rightarrow> bool" where
  "client_inv buf_size stream s \<longleftrightarrow>
     length (sock_buf s) = buf_size \<and> write_buf_pos s \<le> buf_size \<and> read_buf_pos s \<le> buf_size \<and>
     sock_buf_write_ptr s = write_buf_pos s \<and> sock_buf_read_ptr s = read_buf_pos s \<and>
     (if wrap_state s then write_buf_pos s = 0 \<or> write_buf_pos s < read_buf_pos s
      else read_buf_pos s \<le> write_buf_pos s) \<and>
     stream = outbox s @ pending s @ inbox s"

lemma client_inv_init: "client_inv buf_size stream (client_init buf_size garbage stream)"
  by (simp add: client_inv_def client_init_def pending_def)

lemma store_ok: "p + length bs \<le> length buf \<Longrightarrow>
    store p bs buf = Inr (take p buf @ bs @ drop (p + length bs) buf)"
  by (simp add: store_def)

lemma sys_read_inv:
  assumes inv: "client_inv buf_size stream s"
    and n: "write_buf_pos s + n \<le> buf_size" "wrap_state s \<Longrightarrow> write_buf_pos s + n < read_buf_pos s"
  shows "\<exists>t. sys_read k n s = Inr t \<and>
    client_inv buf_size stream (t\<lparr>sock_buf_write_ptr := sock_buf_write_ptr t + nat (bytes_read t),
                         write_buf_pos := write_buf_pos t + nat (bytes_read t)\<rparr>) \<and>
    (bytes_read t \<le> 0 \<longrightarrow> client_inv buf_size stream t) \<and>
    read_buf_pos t = read_buf_pos s \<and> wrap_state t = wrap_state s"
proof -
  define bs where "bs = take (min k n) (inbox s)"
  then have len: "length bs \<le> n" by simp
  have split: "inbox s = bs @ drop (length bs) (inbox s)"
    unfolding bs_def by (metis append_eq_conv_conj append_take_drop_id)
  have at: "sock_buf_write_ptr s = write_buf_pos s" "length (sock_buf s) = buf_size"
    using inv by (simp_all add: client_inv_def)
  define t where "t = s\<lparr>sock_buf := take (write_buf_pos s) (sock_buf s) @ bs @ drop (write_buf_pos s + length bs) (sock_buf s),
      inbox := drop (length bs) (inbox s), bytes_read := int (length bs)\<rparr>"
  have "sys_read k n s = Inr t"
    using len n(1) at by (simp add: sys_read_def Let_def store_ok bs_def [symmetric] t_def)
  moreover have "pending t @ inbox t = pending s @ inbox s" if "bs = []"
    using that by (simp add: t_def pending_def)
  moreover have "pending (t\<lparr>sock_buf_write_ptr := write_buf_pos s + length bs,
      write_buf_pos := write_buf_pos s + length bs\<rparr>) = pending s @ bs"
    using len n at inv by (cases "wrap_state s") (auto simp: t_def pending_def client_inv_def)
  ultimately show ?thesis
    using inv len n at split
    by (intro exI [of _ t]) (auto simp: client_inv_def t_def)
qed

lemma fill_inv:
  assumes inv: "client_inv buf_size stream s"
  shows "\<exists>t. fill buf_size e s = Inr t \<and> client_inv buf_size stream t \<and>
           (wrap_state t \<or> read_buf_pos t < buf_size)"
proof (cases "(wrap_state s \<and> write_buf_pos s + 1 < read_buf_pos s) \<or>
         (\<not> wrap_state s \<and> write_buf_pos s < buf_size)")
  case False
  with inv show ?thesis
    by (auto simp: fill_def client_inv_def pending_def split: if_splits)
next
  case room: True
  show ?thesis
  proof (cases e)
    case (SockReady k)
    define n where "n = (if wrap_state s then read_buf_pos s - write_buf_pos s - 1
                         else buf_size - write_buf_pos s)"
    have eq: "sock_read buf_size e s = sys_read k n s"
      using room SockReady by (auto simp: sock_read_def n_def)
    have "write_buf_pos s + n \<le> buf_size" "wrap_state s \<Longrightarrow> write_buf_pos s + n < read_buf_pos s"
      using room inv by (auto simp: n_def client_inv_def)
    from sys_read_inv [OF inv this, of k] obtain t where t: "sys_read k n s = Inr t"
      and adv: "client_inv buf_size stream (t\<lparr>sock_buf_write_ptr := sock_buf_write_ptr t + nat (bytes_read t),
                         write_buf_pos := write_buf_pos t + nat (bytes_read t)\<rparr>)"
      and eof: "bytes_read t \<le> 0 \<longrightarrow> client_inv buf_size stream t"
      and same: "read_buf_pos t = read_buf_pos s" "wrap_state t = wrap_state s"
      by auto
    from room inv same have front: "wrap_state t \<or> read_buf_pos t < buf_size"
      by (auto simp: client_inv_def)
    from eof have "bytes_read t \<le> 0 \<Longrightarrow> client_inv buf_size stream (close_socks t)"
      by (simp add: client_inv_def close_socks_def pending_def)
    with room SockReady t adv eq front show ?thesis by (auto simp: fill_def close_socks_def)
  qed (use room inv in \<open>auto simp: fill_def sock_read_def client_inv_def pending_def close_socks_def\<close>)
qed

lemma sys_write_inv:
  assumes inv: "client_inv buf_size stream s"
    and n: "if wrap_state s then read_buf_pos s + n \<le> buf_size else read_buf_pos s + n \<le> write_buf_pos s"
  shows "\<exists>t. sys_write k n s = Inr t \<and> bytes_read t = int (min k n) \<and>
    client_inv buf_size stream (t\<lparr>sock_buf_read_ptr := sock_buf_read_ptr t + nat (bytes_read t),
                         read_buf_pos := read_buf_pos t + nat (bytes_read t)\<rparr>)"
proof -
  let ?r = "read_buf_pos s" and ?w = "write_buf_pos s" and ?m = "min k n"
  have m: "?m \<le> n" by simp
  from inv n have "?m \<le> length (drop (sock_buf_read_ptr s) (sock_buf s))"
    by (auto simp: client_inv_def split: if_splits)
  with inv have ok: "rd ?m (drop (sock_buf_read_ptr s) (sock_buf s)) = Inr (take ?m (drop ?r (sock_buf s)))"
    by (simp add: rd_enough client_inv_def)
  have split: "take ?m (drop ?r xs) @ drop (?r + ?m) xs = drop ?r xs" for xs :: bytes
    by (metis add.commute append_take_drop_id drop_drop)
  show ?thesis
  proof (cases "wrap_state s")
    case True
    with inv m n ok split [of "sock_buf s"] show ?thesis
      by (auto simp: sys_write_def client_inv_def pending_def)
  next
    case False
    with m n have "take ?m (drop ?r (take ?w (sock_buf s))) = take ?m (drop ?r (sock_buf s))"
      by (simp add: drop_take min_def)
    with False inv m n ok split [of "take ?w (sock_buf s)"] show ?thesis
      by (auto simp: sys_write_def client_inv_def pending_def)
  qed
qed

lemma drain_inv:
  assumes inv: "client_inv buf_size stream s" and front: "wrap_state s \<or> read_buf_pos s < buf_size"
  shows "\<exists>t. drain buf_size e s = Inr t \<and> client_inv buf_size stream t"
proof (cases "(\<not> wrap_state s \<and> read_buf_pos s < write_buf_pos s) \<or>
         (wrap_state s \<and> read_buf_pos s < buf_size)")
  case False
  with inv front show ?thesis
    by (auto simp: drain_def client_inv_def pending_def split: if_splits)
next
  case more: True
  show ?thesis
  proof (cases e)
    case (PipeReady k)
    define n where "n = block_size (if wrap_state s then buf_size - read_buf_pos s
                                    else write_buf_pos s - read_buf_pos s)"
    have eq: "pipe_write buf_size e s = sys_write k n s"
      using PipeReady by (simp add: pipe_write_def n_def)
    have "if wrap_state s then read_buf_pos s + n \<le> buf_size else read_buf_pos s + n \<le> write_buf_pos s"
      using more by (auto simp: n_def block_size_def)
    from sys_write_inv [OF inv this, of k] eq more PipeReady show ?thesis
      by (auto simp: drain_def)
  qed (use more inv in \<open>auto simp: drain_def pipe_write_def client_inv_def pending_def close_socks_def\<close>)
qed

lemma loop_body_inv:
  assumes "client_inv buf_size stream s"
  shows "\<exists>t. loop_body buf_size se pe s = Inr t \<and> client_inv buf_size stream t"
proof -
  obtain u where "fill buf_size se s = Inr u" "client_inv buf_size stream u"
      "wrap_state u \<or> read_buf_pos u < buf_size"
    using fill_inv [OF assms] by blast
  with drain_inv [of buf_size stream u pe] show ?thesis
    by (cases "bmp_run u") (simp_all add: loop_body_def)
qed

lemma client_inv_stop: "client_inv buf_size stream (s\<lparr>bmp_run := b\<rparr>) = client_inv buf_size stream s"
  by (simp add: client_inv_def pending_def)

lemma client_reach_inv: "client_reach buf_size stream s \<Longrightarrow> client_inv buf_size stream s"
proof (induction rule: client_reach.induct)
  case (iterate s se pe t)
  with loop_body_inv [of buf_size stream s se pe] show ?case by auto
qed (simp_all add: client_inv_init client_inv_stop)

lemma client_loop_reach:
  "client_reach buf_size stream s \<Longrightarrow> \<exists>t. client_loop buf_size es s = Inr t \<and> client_reach buf_size stream t"
proof (induction es arbitrary: s)
  case (Cons e es)
  obtain se pe where e: "e = (se, pe)" by (cases e)
  show ?case
  proof (cases "bmp_run s")
    case True
    from loop_body_inv [OF client_reach_inv [OF Cons.prems], of se pe] obtain t
      where "loop_body buf_size se pe s = Inr t" by auto
    with True e Cons.IH [OF client_reach.iterate [OF Cons.prems True this]] show ?thesis by simp
  qed (use e Cons.prems in auto)
qed auto

text \<open>Progress: with the socket quiet and the pipe writable, an iteration makes the backlog smaller.\<close>

definition backlog :: "client_state \<Rightarrow> nat" where
  "backlog s = 2 * length (pending s) + (if wrap_state s then 1 else 0)"

lemma sys_write_step:
  assumes "client_inv buf_size stream s" "n \<le> length (sock_buf s) - read_buf_pos s"
  shows "sys_write k n s = Inr (s\<lparr>outbox := outbox s @ take (min k n) (drop (read_buf_pos s) (sock_buf s)),
           bytes_read := int (min k n)\<rparr>)"
  using assms by (auto simp: sys_write_def client_inv_def rd_enough min_def)

lemma block_size_bounds: "block_size n \<le> n" "0 < n \<Longrightarrow> 0 < block_size n"
  by (auto simp: block_size_def CLIENT_WRITE_BUFFER_BLOCK_SIZE_def)

lemma pending_wrap:
  "client_inv buf_size stream s \<Longrightarrow> buf_size \<le> write_buf_pos s \<Longrightarrow>
   pending (s\<lparr>write_buf_pos := 0, sock_buf_write_ptr := 0, wrap_state := True\<rparr>) = pending s"
  unfolding client_inv_def pending_def by (cases "wrap_state s") auto

lemma fill_quiet:
  assumes "client_inv buf_size stream s"
  shows "\<exists>u. fill buf_size SockQuiet s = Inr u \<and> bmp_run u = bmp_run s \<and> inbox u = inbox s \<and>
     pending u = pending s \<and> (wrap_state u \<longrightarrow> wrap_state s \<or> read_buf_pos u < buf_size \<or> pending u = [])"
proof (cases "buf_size \<le> write_buf_pos s")
  case True
  moreover have "read_buf_pos s < buf_size \<or> buf_size \<le> read_buf_pos s" by linarith
  moreover have "length (sock_buf s) = buf_size" using assms by (simp add: client_inv_def)
  ultimately show ?thesis
    using pending_wrap [OF assms] by (auto simp: fill_def pending_def)
qed (simp add: fill_def)

lemma drain_direct:
  assumes inv: "client_inv buf_size stream u" and "\<not> wrap_state u" "read_buf_pos u < write_buf_pos u" "0 < k"
  shows "\<exists>t. drain buf_size (PipeReady k) u = Inr t \<and> bmp_run t = bmp_run u \<and> inbox t = inbox u \<and>
     length (pending t) < length (pending u) \<and> wrap_state t = wrap_state u"
proof -
  let ?n = "block_size (write_buf_pos u - read_buf_pos u)"
  have "0 < ?n" "?n \<le> write_buf_pos u - read_buf_pos u"
    using assms block_size_bounds by simp_all
  moreover from this inv have "?n \<le> length (sock_buf u) - read_buf_pos u"
    by (auto simp: client_inv_def)
  ultimately show ?thesis
    using assms sys_write_step [OF inv, of ?n k]
    by (simp add: drain_def pipe_write_def pending_def client_inv_def)
qed

lemma drain_tail:
  assumes inv: "client_inv buf_size stream u" and "wrap_state u" "read_buf_pos u < buf_size" "0 < k"
  shows "\<exists>t. drain buf_size (PipeReady k) u = Inr t \<and> bmp_run t = bmp_run u \<and> inbox t = inbox u \<and>
     length (pending t) < length (pending u) \<and> wrap_state t = wrap_state u"
proof -
  let ?n = "block_size (buf_size - read_buf_pos u)"
  have "0 < ?n" "?n \<le> buf_size - read_buf_pos u"
    using assms block_size_bounds by simp_all
  moreover from this inv have "?n \<le> length (sock_buf u) - read_buf_pos u"
    by (auto simp: client_inv_def)
  ultimately show ?thesis
    using assms sys_write_step [OF inv, of ?n k]
    by (simp add: drain_def pipe_write_def pending_def client_inv_def)
qed

lemma drain_turn:
  assumes inv: "client_inv buf_size stream u" and "wrap_state u" "read_buf_pos u = buf_size"
  shows "\<exists>t. drain buf_size e u = Inr t \<and> bmp_run t = bmp_run u \<and> inbox t = inbox u \<and>
     pending t = pending u \<and> \<not> wrap_state t"
  using assms by (simp add: drain_def pending_def client_inv_def)

lemma quiet_iteration:
  assumes inv: "client_inv buf_size stream s" and run: "bmp_run s" and k: "0 < k"
  shows "\<exists>t. loop_body buf_size SockQuiet (PipeReady k) s = Inr t \<and> bmp_run t \<and> inbox t = inbox s \<and>
           (pending s = [] \<longrightarrow> pending t = []) \<and> (pending s \<noteq> [] \<longrightarrow> backlog t < backlog s)"
proof -
  obtain u where u: "fill buf_size SockQuiet s = Inr u" and up: "bmp_run u" "inbox u = inbox s"
      "pending u = pending s" "wrap_state u \<longrightarrow> wrap_state s \<or> read_buf_pos u < buf_size \<or> pending u = []"
    using fill_quiet [OF inv] run by auto
  have uinv: "client_inv buf_size stream u" and front: "wrap_state u \<or> read_buf_pos u < buf_size"
    using fill_inv [OF inv, of SockQuiet] u by auto
  have eq: "loop_body buf_size SockQuiet (PipeReady k) s = drain buf_size (PipeReady k) u"
    using u up by (simp add: loop_body_def)
  have "read_buf_pos u \<le> buf_size" "\<not> wrap_state u \<Longrightarrow> read_buf_pos u \<le> write_buf_pos u"
    using uinv by (simp_all add: client_inv_def)
  then consider (direct) "\<not> wrap_state u" "read_buf_pos u < write_buf_pos u"
    | (tail) "wrap_state u" "read_buf_pos u < buf_size"
    | (empty) "\<not> wrap_state u" "read_buf_pos u = write_buf_pos u"
    | (turn) "wrap_state u" "read_buf_pos u = buf_size"
    by (metis le_neq_implies_less)
  then show ?thesis
  proof cases
    case direct
    then obtain t where "drain buf_size (PipeReady k) u = Inr t" "bmp_run t" "inbox t = inbox u"
        "length (pending t) < length (pending s)" "\<not> wrap_state t"
      using drain_direct [OF uinv direct k] up by auto
    moreover from this have "pending s \<noteq> []" "backlog t < backlog s" by (auto simp: backlog_def)
    ultimately show ?thesis using up(2) eq by simp
  next
    case tail
    then obtain t where "drain buf_size (PipeReady k) u = Inr t" "bmp_run t" "inbox t = inbox u"
        "length (pending t) < length (pending s)"
      using drain_tail [OF uinv tail k] up by auto
    moreover from this have "pending s \<noteq> []" "backlog t < backlog s" by (auto simp: backlog_def)
    ultimately show ?thesis using up(2) eq by simp
  next
    case empty
    with front up eq show ?thesis
      by (simp add: drain_def pending_def)
  next
    case turn
    from drain_turn [OF uinv this] up(1,2,3) obtain t where t: "drain buf_size (PipeReady k) u = Inr t"
        "bmp_run t" "inbox t = inbox s" "pending t = pending s" "\<not> wrap_state t"
      by auto
    moreover have "pending s \<noteq> [] \<Longrightarrow> wrap_state s" using up(3,4) turn by auto
    ultimately show ?thesis using eq by (simp add: backlog_def)
  qed
qed

lemma quiet_iterations:
  assumes "client_inv buf_size stream s" "bmp_run s"
    "\<forall>e \<in> set es. \<exists>k. 0 < k \<and> e = (SockQuiet, PipeReady k)"
  shows "\<exists>t. client_loop buf_size es s = Inr t \<and> bmp_run t \<and> inbox t = inbox s \<and> client_inv buf_size stream t \<and>
           (pending s = [] \<or> backlog s \<le> length es \<longrightarrow> pending t = [])"
  using assms
proof (induction es arbitrary: s)
  case (Cons e es)
  then obtain k where k: "0 < k" and e: "e = (SockQuiet, PipeReady k)" by auto
  from quiet_iteration [OF Cons.prems(1,2) k] loop_body_inv [OF Cons.prems(1)] obtain t
    where t: "loop_body buf_size SockQuiet (PipeReady k) s = Inr t" "bmp_run t" "inbox t = inbox s"
      "pending s = [] \<longrightarrow> pending t = []" "pending s \<noteq> [] \<longrightarrow> backlog t < backlog s"
      "client_inv buf_size stream t"
    by fastforce
  with Cons.IH [of t] Cons.prems e show ?case by fastforce
qed (auto simp: backlog_def)

lemma example_client_reach: "client_reach 4 [1, 2, 3, 4, 5, 6, 7] example_client"
  using client_loop_reach [OF client_reach.start [of 4 "[1, 2, 3, 4, 5, 6, 7]" "[]"], of example_events]
  by (auto simp: example_client_def)

lemma example_client_value:
  "wrap_state example_client" "bmp_run example_client" "outbox example_client = [1, 2, 3]"
  "pending example_client = [4, 5, 6]"
  by (simp_all add: example_client_def example_events_def client_init_def loop_body_def fill_def drain_def
    sock_read_def sys_read_def store_def pipe_write_def sys_write_def rd_def block_size_def
    CLIENT_WRITE_BUFFER_BLOCK_SIZE_def pending_def numeral_eq_Suc)

section \<open>Properties\<close>

text \<open>
  C4. The circular buffer is a FIFO: whatever the poll results, the read and write sizes and the
  moment the reader thread stops, the bytes the router sends are the bytes handed to the parser,
  followed by the buffered ones, followed by those not yet received. No byte is lost, duplicated
  or reordered across a wrap of either position.
\<close>

theorem client_fifo:
  assumes "client_reach buf_size stream s"
  shows "stream = outbox s @ pending s @ inbox s"
  using client_reach_inv [OF assms] by (simp add: client_inv_def)

theorem client_fifo_witness:
  "[1, 2, 3, 4, 5, 6, 7] = outbox example_client @ pending example_client @ inbox example_client \<and>
   wrap_state example_client \<and> outbox example_client = [1, 2, 3]"
  using client_fifo [OF example_client_reach] example_client_value by simp

text \<open>
  C23. No iteration of the loop reads or writes outside the buffer, from any reachable state and for
  any behaviour of the two descriptors, and the buffered bytes never exceed the buffer.
\<close>

theorem client_no_overrun:
  assumes "client_reach buf_size stream s"
  shows "okay (loop_body buf_size se pe s) \<and> length (pending s) \<le> buf_size"
proof -
  from client_reach_inv [OF assms] have inv: "client_inv buf_size stream s" .
  have "length (pending s) \<le> buf_size"
    using inv by (auto simp: client_inv_def pending_def split: if_splits)
  with loop_body_inv [OF inv, of se pe] show ?thesis by (auto simp: okay_iff)
qed

theorem client_no_overrun_witness:
  "okay (loop_body 4 (SockReady 100) (PipeReady 100) example_client) \<and> length (pending example_client) \<le> 4"
  by (rule client_no_overrun [OF example_client_reach])

text \<open>
  C24. The backlog drains: with the router silent and the pipe accepting at least one byte each time,
  at most two iterations per buffered byte (plus one for the wrap) hand the whole backlog to the
  parser, and the connection stays open.
\<close>

theorem client_drains:
  assumes "client_reach buf_size stream s" "bmp_run s"
    and "\<forall>e \<in> set es. \<exists>k. 0 < k \<and> e = (SockQuiet, PipeReady k)"
    and "2 * length (pending s) + 1 \<le> length es"
  shows "\<exists>t. client_loop buf_size es s = Inr t \<and> bmp_run t \<and> outbox t = outbox s @ pending s \<and> pending t = []"
proof -
  note inv = client_reach_inv [OF assms(1)]
  have "backlog s \<le> length es" using assms(4) by (simp add: backlog_def)
  with quiet_iterations [OF inv assms(2,3)] obtain t
    where "client_loop buf_size es s = Inr t" "bmp_run t" "inbox t = inbox s" "pending t = []"
      "client_inv buf_size stream t" by auto
  with inv show ?thesis by (auto simp: client_inv_def)
qed

theorem client_drains_witness:
  "\<exists>t. client_loop 4 (replicate 7 (SockQuiet, PipeReady 1)) example_client = Inr t \<and> bmp_run t \<and>
     outbox t = outbox example_client @ pending example_client \<and> pending t = []"
  by (rule client_drains [OF example_client_reach]) (auto simp: example_client_value)

end
