(* ===== verification/SafeQueue.thy ===== *)
theory SafeQueue
  imports BmpPrelude
begin

text \<open>
  \<open>safeQueue.hpp\<close>: the mutex-protected queue with an optional limit. A critical section between
  \<open>pthread_mutex_lock\<close> and \<open>pthread_mutex_unlock\<close> is one atomic step. \<open>push\<close> leaves its critical
  section when the queue is full, polls the size without the lock, and enters a second critical
  section in which it does not test the size again; the concurrent model keeps these three phases
  apart, one phase per thread.
\<close>

section \<open>The queue\<close>

record 'a safeQueue =
  elems :: "'a list"
  limit :: nat

definition safeQueue_new :: "nat \<Rightarrow> 'a safeQueue" where
  "safeQueue_new l = \<lparr>elems = [], limit = l\<rparr>"

definition queue_size :: "'a safeQueue \<Rightarrow> nat" where
  "queue_size q = length (elems q)"

definition must_wait :: "'a safeQueue \<Rightarrow> bool" where
  "must_wait q \<longleftrightarrow> limit q \<noteq> 0 \<and> queue_size q \<ge> limit q"

definition push_elem :: "'a \<Rightarrow> 'a safeQueue \<Rightarrow> 'a safeQueue" where
  "push_elem x q = q\<lparr>elems := elems q @ [x]\<rparr>"

definition pop :: "'a safeQueue \<Rightarrow> 'a safeQueue" where
  "pop q = (if queue_size q > 0 then q\<lparr>elems := tl (elems q)\<rparr> else q)"

definition front :: "'a safeQueue \<Rightarrow> 'a option" where
  "front q = (if queue_size q > 0 then Some (hd (elems q)) else None)"

definition back_elem :: "'a safeQueue \<Rightarrow> 'a result" where
  "back_elem q = (if elems q = [] then Inl OutOfBounds else Inr (last (elems q)))"

definition popFront :: "'a safeQueue \<Rightarrow> 'a option \<times> 'a safeQueue" where
  "popFront q =
     (if queue_size q > 0 then (Some (hd (elems q)), q\<lparr>elems := tl (elems q)\<rparr>) else (None, q))"

definition wait_returns :: "'a safeQueue \<Rightarrow> bool" where
  "wait_returns q \<longleftrightarrow> queue_size q > 0"

definition setLimit :: "nat \<Rightarrow> 'a safeQueue \<Rightarrow> 'a safeQueue" where
  "setLimit l q = q\<lparr>limit := l\<rparr>"

section \<open>Threads\<close>

datatype 'a phase =
    Idle
  | Spinning 'a       \<comment> \<open>in \<open>while (size() >= limit)\<close>, without the lock\<close>
  | Relocking 'a      \<comment> \<open>left the loop, about to lock again\<close>

record 'a system =
  queue :: "'a safeQueue"
  producers :: "'a phase list"
  pushed :: "'a list"         \<comment> \<open>elements in the order of their \<open>queue::push\<close>\<close>
  popped :: "'a list"         \<comment> \<open>elements in the order of their \<open>queue::pop\<close>\<close>

definition system_init :: "nat \<Rightarrow> nat \<Rightarrow> 'a system" where
  "system_init l n = \<lparr>queue = safeQueue_new l, producers = replicate n Idle, pushed = [], popped = []\<rparr>"

definition commit_push :: "nat \<Rightarrow> 'a \<Rightarrow> 'a system \<Rightarrow> 'a system" where
  "commit_push i x s = s\<lparr>queue := push_elem x (queue s), producers := (producers s)[i := Idle],
     pushed := pushed s @ [x]\<rparr>"

inductive qstep :: "'a system \<Rightarrow> 'a system \<Rightarrow> bool" where
  push_now: "i < length (producers s) \<Longrightarrow> producers s ! i = Idle \<Longrightarrow> \<not> must_wait (queue s) \<Longrightarrow>
     qstep s (commit_push i x s)"
| push_wait: "i < length (producers s) \<Longrightarrow> producers s ! i = Idle \<Longrightarrow> must_wait (queue s) \<Longrightarrow>
     qstep s (s\<lparr>producers := (producers s)[i := Spinning x]\<rparr>)"
| push_wake: "i < length (producers s) \<Longrightarrow> producers s ! i = Spinning x \<Longrightarrow>
     queue_size (queue s) < limit (queue s) \<Longrightarrow>
     qstep s (s\<lparr>producers := (producers s)[i := Relocking x]\<rparr>)"
| push_relock: "i < length (producers s) \<Longrightarrow> producers s ! i = Relocking x \<Longrightarrow>
     qstep s (commit_push i x s)"
| pop_step: "popFront (queue s) = (Some x, q) \<Longrightarrow>
     qstep s (s\<lparr>queue := q, popped := popped s @ [x]\<rparr>)"

inductive qreach :: "nat \<Rightarrow> nat \<Rightarrow> 'a system \<Rightarrow> bool" for l n where
  qstart: "qreach l n (system_init l n)"
| qmove: "qreach l n s \<Longrightarrow> qstep s t \<Longrightarrow> qreach l n t"

definition is_relocking :: "'a phase \<Rightarrow> bool" where
  "is_relocking p = (case p of Relocking _ \<Rightarrow> True | _ \<Rightarrow> False)"

definition relocking :: "'a system \<Rightarrow> nat" where
  "relocking s = length (filter is_relocking (producers s))"

inductive_cases qstepE: "qstep s t"

text \<open>
  An interleaving with a limit of one: two producers wait at the same time, both leave their loops
  after a single pop, and the queue ends with two elements.
\<close>

definition q_trace :: "nat \<Rightarrow> nat system" where
  "q_trace k =
    (let q = (\<lambda>xs. \<lparr>elems = xs, limit = 1\<rparr>) in
     [\<lparr>queue = q [], producers = [Idle, Idle], pushed = [], popped = []\<rparr>,
      \<lparr>queue = q [7], producers = [Idle, Idle], pushed = [7], popped = []\<rparr>,
      \<lparr>queue = q [7], producers = [Spinning 8, Idle], pushed = [7], popped = []\<rparr>,
      \<lparr>queue = q [7], producers = [Spinning 8, Spinning 9], pushed = [7], popped = []\<rparr>,
      \<lparr>queue = q [], producers = [Spinning 8, Spinning 9], pushed = [7], popped = [7]\<rparr>,
      \<lparr>queue = q [], producers = [Relocking 8, Spinning 9], pushed = [7], popped = [7]\<rparr>,
      \<lparr>queue = q [], producers = [Relocking 8, Relocking 9], pushed = [7], popped = [7]\<rparr>,
      \<lparr>queue = q [8], producers = [Idle, Relocking 9], pushed = [7, 8], popped = [7]\<rparr>,
      \<lparr>queue = q [8, 9], producers = [Idle, Idle], pushed = [7, 8, 9], popped = [7]\<rparr>] ! k)"

section \<open>The interface\<close>

locale fifo_queue =
  fixes empty_queue :: 'q
    and enq :: "'a \<Rightarrow> 'q \<Rightarrow> 'q"
    and deq :: "'q \<Rightarrow> 'a option \<times> 'q"
    and to_list :: "'q \<Rightarrow> 'a list"
  assumes list_empty: "to_list empty_queue = []"
    and list_enq: "to_list (enq x q) = to_list q @ [x]"
    and list_deq: "deq q = (r, q') \<Longrightarrow> r = (if to_list q = [] then None else Some (hd (to_list q))) \<and>
                     to_list q' = tl (to_list q)"
begin

lemma deq_Some: "deq q = (Some x, q') \<Longrightarrow> to_list q = x # to_list q'"
  using list_deq [of q "Some x" q'] by (cases "to_list q") (auto split: if_splits)

lemma deq_None: "deq q = (None, q') \<Longrightarrow> to_list q = [] \<and> to_list q' = []"
  using list_deq [of q None q'] by (auto split: if_splits)

fun drain_queue :: "nat \<Rightarrow> 'q \<Rightarrow> 'a list" where
  "drain_queue 0 q = []"
| "drain_queue (Suc n) q = (case deq q of (None, q') \<Rightarrow> [] | (Some x, q') \<Rightarrow> x # drain_queue n q')"

lemma drain_queue_all: "length (to_list q) \<le> n \<Longrightarrow> drain_queue n q = to_list q"
proof (induction n arbitrary: q)
  case (Suc n)
  obtain r q' where d: "deq q = (r, q')" by (cases "deq q")
  show ?case
  proof (cases r)
    case None
    with d deq_None show ?thesis by simp
  next
    case (Some x)
    with d have "to_list q = x # to_list q'" by (simp add: deq_Some)
    with Suc d Some show ?thesis by simp
  qed
qed simp

lemma drain_enqueued: "drain_queue (length xs) (foldl (\<lambda>q x. enq x q) empty_queue xs) = xs"
proof -
  have "to_list (foldl (\<lambda>q x. enq x q) q xs) = to_list q @ xs" for q
    by (induction xs arbitrary: q) (simp_all add: list_enq)
  then have "to_list (foldl (\<lambda>q x. enq x q) empty_queue xs) = xs" by (simp add: list_empty)
  then show ?thesis by (simp add: drain_queue_all)
qed

end

lemmas queue_defs = queue_size_def must_wait_def push_elem_def pop_def front_def popFront_def
  safeQueue_new_def setLimit_def

interpretation sq: fifo_queue "safeQueue_new l" push_elem popFront elems for l
  by unfold_locales (auto simp: queue_defs split: if_splits)

section \<open>Invariants of the concurrent queue\<close>

definition qinv :: "nat \<Rightarrow> nat \<Rightarrow> 'a system \<Rightarrow> bool" where
  "qinv l n s \<longleftrightarrow> limit (queue s) = l \<and> length (producers s) = n \<and>
     pushed s = popped s @ elems (queue s) \<and>
     (l \<noteq> 0 \<longrightarrow> length (elems (queue s)) + relocking s \<le> l + n - 1)"

lemma relocking_le: "relocking s \<le> length (producers s)"
  by (simp add: relocking_def)

lemma filter_update_length:
  "i < length xs \<Longrightarrow> length (filter P (xs[i := y])) + (if P (xs ! i) then 1 else 0) =
     length (filter P xs) + (if P y then 1 else 0)"
proof (induction xs arbitrary: i)
  case (Cons x xs)
  then show ?case by (cases i) (auto split: nat.splits)
qed simp

lemma relocking_update:
  "i < length (producers s) \<Longrightarrow>
   relocking (s\<lparr>producers := (producers s)[i := p]\<rparr>) + (if is_relocking (producers s ! i) then 1 else 0) =
     relocking s + (if is_relocking p then 1 else 0)"
  by (simp add: relocking_def filter_update_length)

lemma relocking_less: "i < length (producers s) \<Longrightarrow> \<not> is_relocking (producers s ! i) \<Longrightarrow>
    relocking s < length (producers s)"
  unfolding relocking_def by (rule length_filter_less) simp_all

lemma qinv_step: "qstep s t \<Longrightarrow> qinv l n s \<Longrightarrow> qinv l n t"
proof (induction rule: qstep.induct)
  case (push_now i s x)
  with relocking_update [of i s Idle] relocking_less [of i s] show ?case
    by (auto simp: qinv_def commit_push_def queue_defs is_relocking_def relocking_def)
next
  case (push_wait i s x)
  with relocking_update [of i s "Spinning x"] show ?case
    by (auto simp: qinv_def is_relocking_def)
next
  case (push_wake i s x)
  with relocking_update [of i s "Relocking x"] relocking_less [of i s] show ?case
    by (auto simp: qinv_def is_relocking_def queue_defs)
next
  case (push_relock i s x)
  with relocking_update [of i s Idle] show ?case
    by (auto simp: qinv_def commit_push_def queue_defs is_relocking_def relocking_def)
next
  case (pop_step s x q)
  moreover from pop_step have "elems (queue s) = x # elems q" "limit q = limit (queue s)"
    by (auto simp: sq.deq_Some) (auto simp: popFront_def split: if_splits)
  ultimately show ?case by (auto simp: qinv_def relocking_def)
qed

lemma qinv_init: "qinv l n (system_init l n)"
  by (induction n) (auto simp: qinv_def system_init_def safeQueue_new_def relocking_def is_relocking_def)

lemma qreach_inv: "qreach l n s \<Longrightarrow> qinv l n s"
  by (induction rule: qreach.induct) (auto simp: qinv_init dest: qinv_step)

lemmas q_trace_simps = q_trace_def queue_defs commit_push_def

lemma q_trace_steps:
  shows "qstep (q_trace 0) (q_trace 1)"
  and "qstep (q_trace 1) (q_trace 2)"
  and "qstep (q_trace 2) (q_trace 3)"
  and "qstep (q_trace 3) (q_trace 4)"
  and "qstep (q_trace 4) (q_trace 5)"
  and "qstep (q_trace 5) (q_trace 6)"
  and "qstep (q_trace 6) (q_trace 7)"
  and "qstep (q_trace 7) (q_trace 8)"
proof -
  show "qstep (q_trace 0) (q_trace 1)"
    using qstep.push_now [of 0 "q_trace 0" 7] by (simp add: q_trace_simps)
  show "qstep (q_trace 1) (q_trace 2)"
    using qstep.push_wait [of 0 "q_trace 1" 8] by (simp add: q_trace_simps)
  show "qstep (q_trace 2) (q_trace 3)"
    using qstep.push_wait [of 1 "q_trace 2" 9] by (simp add: q_trace_simps)
  show "qstep (q_trace 3) (q_trace 4)"
    using qstep.pop_step [of "q_trace 3" 7 "queue (q_trace 4)"] by (simp add: q_trace_simps)
  show "qstep (q_trace 4) (q_trace 5)"
    using qstep.push_wake [of 0 "q_trace 4" 8] by (simp add: q_trace_simps)
  show "qstep (q_trace 5) (q_trace 6)"
    using qstep.push_wake [of 1 "q_trace 5" 9] by (simp add: q_trace_simps)
  show "qstep (q_trace 6) (q_trace 7)"
    using qstep.push_relock [of 0 "q_trace 6" 8] by (simp add: q_trace_simps)
  show "qstep (q_trace 7) (q_trace 8)"
    using qstep.push_relock [of 1 "q_trace 7" 9] by (simp add: q_trace_simps)
qed

lemma q_trace_reach: "qreach 1 2 (q_trace 8)"
proof -
  have "q_trace 0 = system_init 1 2"
    by (simp add: q_trace_def system_init_def safeQueue_new_def numeral_2_eq_2)
  then have "qreach 1 2 (q_trace 0)" by (metis qreach.qstart)
  then show ?thesis
    by (rule qreach.qmove [OF qreach.qmove [OF qreach.qmove [OF qreach.qmove [OF qreach.qmove [OF
      qreach.qmove [OF qreach.qmove [OF qreach.qmove]]]]]]]) (rule q_trace_steps)+
qed

section \<open>Properties\<close>



text \<open>
  With a limit and \<open>n\<close> producers the queue holds at most \<open>limit + n - 1\<close> elements, so the limit
  is exact for a single producer.
\<close>

theorem safeQueue_bound:
  assumes "qreach l n s" "l \<noteq> 0"
  shows "queue_size (queue s) \<le> l + n - 1"
  using qreach_inv [OF assms(1)] assms(2) by (simp add: qinv_def queue_size_def)

theorem safeQueue_bound_example:
  "queue_size (queue (q_trace 8)) \<le> 1 + 2 - 1 \<and> queue_size (queue (q_trace 8)) = 2"
  using safeQueue_bound [OF q_trace_reach] by (simp add: q_trace_def queue_size_def)

end
