(* ===== verification/BgpCommon.thy ===== *)
theory BgpCommon
  imports BmpPrelude
begin

text \<open>
  The declarations of \<open>bgp/bgp_common.h\<close>: address families, the prefix structures that the
  parsers fill in and hand to the message bus, and the small inline helpers. \<open>SWAP_BYTES\<close> works on
  the bytes of a variable in memory; on the little endian host it turns a field copied from the wire
  into its value, which is how every multi-byte field of the BMP and BGP messages is read.
\<close>

section \<open>Constants\<close>

definition BGP_MSG_HDR_LEN :: nat where "BGP_MSG_HDR_LEN = 19"
definition BGP_OPEN_MSG_MIN_LEN :: nat where "BGP_OPEN_MSG_MIN_LEN = 29"
definition BGP_MAX_MSG_SIZE :: nat where "BGP_MAX_MSG_SIZE = 65535"
definition BGP_VERSION :: u8 where "BGP_VERSION = 4"
definition BGP_CAP_PARAM_TYPE :: u8 where "BGP_CAP_PARAM_TYPE = 2"
definition BGP_AS_TRANS :: nat where "BGP_AS_TRANS = 23456"

definition ATTR_FLAG_EXTENDED :: "u8 \<Rightarrow> bool" where
  "ATTR_FLAG_EXTENDED flags \<longleftrightarrow> flags AND 0x10 \<noteq> 0"

definition BGP_AFI_IPV4 :: nat where "BGP_AFI_IPV4 = 1"
definition BGP_AFI_IPV6 :: nat where "BGP_AFI_IPV6 = 2"
definition BGP_AFI_L2VPN :: nat where "BGP_AFI_L2VPN = 25"
definition BGP_AFI_BGPLS :: nat where "BGP_AFI_BGPLS = 16388"

definition BGP_SAFI_UNICAST :: nat where "BGP_SAFI_UNICAST = 1"
definition BGP_SAFI_MULTICAST :: nat where "BGP_SAFI_MULTICAST = 2"
definition BGP_SAFI_NLRI_LABEL :: nat where "BGP_SAFI_NLRI_LABEL = 4"
definition BGP_SAFI_MCAST_VPN :: nat where "BGP_SAFI_MCAST_VPN = 5"
definition BGP_SAFI_VPLS :: nat where "BGP_SAFI_VPLS = 65"
definition BGP_SAFI_MDT :: nat where "BGP_SAFI_MDT = 66"
definition BGP_SAFI_4over6 :: nat where "BGP_SAFI_4over6 = 67"
definition BGP_SAFI_6over4 :: nat where "BGP_SAFI_6over4 = 68"
definition BGP_SAFI_EVPN :: nat where "BGP_SAFI_EVPN = 70"
definition BGP_SAFI_BGPLS :: nat where "BGP_SAFI_BGPLS = 71"
definition BGP_SAFI_MPLS :: nat where "BGP_SAFI_MPLS = 128"
definition BGP_SAFI_MCAST_MPLS_VPN :: nat where "BGP_SAFI_MCAST_MPLS_VPN = 129"
definition BGP_SAFI_RT_CONSTRAINS :: nat where "BGP_SAFI_RT_CONSTRAINS = 132"

lemmas afi_safi_defs =
  BGP_AFI_IPV4_def BGP_AFI_IPV6_def BGP_AFI_L2VPN_def BGP_AFI_BGPLS_def
  BGP_SAFI_UNICAST_def BGP_SAFI_MULTICAST_def BGP_SAFI_NLRI_LABEL_def BGP_SAFI_MCAST_VPN_def
  BGP_SAFI_VPLS_def BGP_SAFI_MDT_def BGP_SAFI_4over6_def BGP_SAFI_6over4_def BGP_SAFI_EVPN_def
  BGP_SAFI_BGPLS_def BGP_SAFI_MPLS_def BGP_SAFI_MCAST_MPLS_VPN_def BGP_SAFI_RT_CONSTRAINS_def

section \<open>Prefix structures\<close>

datatype PREFIX_TYPE =
    PREFIX_UNICAST_V4 | PREFIX_UNICAST_V6 | PREFIX_LABEL_UNICAST_V4 | PREFIX_LABEL_UNICAST_V6
  | PREFIX_VPN_V4 | PREFIX_VPN_v6 | PREFIX_MULTICAST_V4

record prefix_tuple =
  ptype :: PREFIX_TYPE
  plen :: u8
  prefix :: string
  prefix_bin :: bytes               \<comment> \<open>16 bytes; \<open>[]\<close>: not assigned\<close>
  path_id :: u32
  isIPv4 :: bool
  labels :: string

record rd_tuple =
  rd_administrator_subfield :: string
  rd_assigned_number :: string
  rd_type :: "u8 option"            \<comment> \<open>\<open>None\<close>: not assigned\<close>

section \<open>Inline helpers\<close>

definition SWAP_BYTES :: "bytes \<Rightarrow> nat \<Rightarrow> bytes" where
  "SWAP_BYTES v n =
     (if n \<le> 1 then v
      else let buf = take n v in map (\<lambda>i. buf ! (n - 1 - i)) [0..<n] @ drop n v)"

text \<open>The pattern \<open>memcpy(&x, data, n); bgp::SWAP_BYTES(&x);\<close> with \<open>sizeof x = n\<close>.\<close>

definition ntoh :: "nat \<Rightarrow> bytes \<Rightarrow> nat result" where
  "ntoh n d = andThen (rd n d) (\<lambda>x. Inr (le_val (SWAP_BYTES x n)))"

fun join_colon :: "string list \<Rightarrow> string" where
  "join_colon [] = ''''"
| "join_colon [s] = s"
| "join_colon (s # ss) = s @ '':'' @ join_colon ss"

definition parse_mac :: "bytes \<Rightarrow> string result" where
  "parse_mac d = andThen (rd 6 d) (\<lambda>bs. Inr (join_colon (map hex2 bs)))"

definition GET_AFI_STRING_BY_CODE :: "nat \<Rightarrow> string" where
  "GET_AFI_STRING_BY_CODE code =
     (if code = BGP_AFI_IPV4 then ''IPv4''
      else if code = BGP_AFI_IPV6 then ''IPv6''
      else if code = BGP_AFI_BGPLS then ''BGP-LS''
      else ''unknown'')"

definition GET_SAFI_STRING_BY_CODE :: "nat \<Rightarrow> string" where
  "GET_SAFI_STRING_BY_CODE code =
     (if code = BGP_SAFI_UNICAST then ''Unicast''
      else if code = BGP_SAFI_MULTICAST then ''Multicast''
      else if code = BGP_SAFI_NLRI_LABEL then ''Labeled Unicast''
      else if code = BGP_SAFI_MCAST_VPN then ''MCAST VPN''
      else if code = BGP_SAFI_VPLS then ''VPLS''
      else if code = BGP_SAFI_MDT then ''BGP MDT''
      else if code = BGP_SAFI_4over6 then ''BGP 4over6''
      else if code = BGP_SAFI_6over4 then ''BGP 6over4''
      else if code = BGP_SAFI_EVPN then ''BGP EVPNs''
      else if code = BGP_SAFI_BGPLS then ''BGP-LS''
      else if code = BGP_SAFI_MPLS then ''MPLS-Labeled VPN''
      else if code = BGP_SAFI_MCAST_MPLS_VPN then ''Multicast BGP/MPLS VPN''
      else if code = BGP_SAFI_RT_CONSTRAINS then ''RT constrains''
      else '''')"

section \<open>Lemmas\<close>

lemma SWAP_BYTES_rev: "length v = n \<Longrightarrow> SWAP_BYTES v n = rev v"
proof -
  assume n: "length v = n"
  show ?thesis
  proof (cases "n \<le> 1")
    case True
    with n show ?thesis by (cases v) (auto simp: SWAP_BYTES_def)
  next
    case False
    with n have "SWAP_BYTES v n = map (\<lambda>i. v ! (n - 1 - i)) [0..<n]"
      by (simp add: SWAP_BYTES_def)
    also have "\<dots> = rev v"
      using n by (intro nth_equalityI) (auto simp: rev_nth)
    finally show ?thesis .
  qed
qed

lemma le_val_SWAP_BYTES [simp]: "length v = n \<Longrightarrow> le_val (SWAP_BYTES v n) = be_val v"
  by (simp add: SWAP_BYTES_rev be_val_def)

lemma ntoh_be: "ntoh n d = andThen (rd n d) (\<lambda>x. Inr (be_val x))"
  by (auto simp: ntoh_def rd_def SWAP_BYTES_rev be_val_def)

lemma ntoh_append [simp, run_simps]: "length xs = n \<Longrightarrow> ntoh n (xs @ ys) = Inr (be_val xs)"
  by (simp add: ntoh_be)

lemma ntoh_short [simp]: "length d < n \<Longrightarrow> ntoh n d = Inl OutOfBounds"
  by (simp add: ntoh_be)

lemma ntoh_enough: "n \<le> length d \<Longrightarrow> ntoh n d = Inr (be_val (take n d))"
  by (simp add: ntoh_be rd_enough)

lemma ntoh_be_bytes [simp]: "v < 256 ^ n \<Longrightarrow> ntoh n (be_bytes n v @ ys) = Inr v"
  by (simp add: length_be_bytes be_val_be_bytes)

lemma ntoh_wp [wp]:
  "ret (ntoh n d) P = (n \<le> length d \<longrightarrow> P (be_val (take n d)))"
  "tot (ntoh n d) P = (n \<le> length d \<and> P (be_val (take n d)))"
  by (simp_all add: ntoh_be wp)

lemma parse_mac_wp [wp]:
  "ret (parse_mac d) P = (6 \<le> length d \<longrightarrow> P (join_colon (map hex2 (take 6 d))))"
  "tot (parse_mac d) P = (6 \<le> length d \<and> P (join_colon (map hex2 (take 6 d))))"
  by (simp_all add: parse_mac_def wp)

lemma ntoh_Inr_bound: "ntoh n d = Inr v \<Longrightarrow> v < 256 ^ n \<and> n \<le> length d"
  using be_val_bound [of "take n d"] by (cases "n \<le> length d") (auto simp: ntoh_enough)

lemma GET_AFI_STRING_known:
  "GET_AFI_STRING_BY_CODE code \<noteq> ''unknown'' \<longleftrightarrow> code \<in> {BGP_AFI_IPV4, BGP_AFI_IPV6, BGP_AFI_BGPLS}"
  by (simp add: GET_AFI_STRING_BY_CODE_def)

end
