(* ===== verification/AddPath.thy ===== *)
theory AddPath
  imports BgpCommon
begin

text \<open>
  \<open>bgp/AddPathDataContainer.cpp\<close>: for each address family the send/receive codes of the ADD-PATH
  capability in the two OPEN messages of a session. The map is keyed by the printed pair of codes.
  A new entry is created from a local structure of which only one field is assigned, so the other
  field is indeterminate until the second OPEN message is seen: \<open>None\<close> is that indeterminate value,
  and comparing it is the fault \<open>Uninit\<close>.
\<close>

section \<open>The container\<close>

record sendReceiveCodes =
  sendReceiveCodeForSentOpenMessage :: "int option"
  sendReceiveCodeForReceivedOpenMessage :: "int option"

type_synonym AddPathMap = "string \<rightharpoonup> sendReceiveCodes"

definition BGP_CAP_ADD_PATH_RECEIVE :: int where "BGP_CAP_ADD_PATH_RECEIVE = 1"
definition BGP_CAP_ADD_PATH_SEND :: int where "BGP_CAP_ADD_PATH_SEND = 2"
definition BGP_CAP_ADD_PATH_SEND_RECEIVE :: int where "BGP_CAP_ADD_PATH_SEND_RECEIVE = 3"

lemmas add_path_codes =
  BGP_CAP_ADD_PATH_RECEIVE_def BGP_CAP_ADD_PATH_SEND_def BGP_CAP_ADD_PATH_SEND_RECEIVE_def

definition getAFiSafiKeyString :: "int \<Rightarrow> int \<Rightarrow> string" where
  "getAFiSafiKeyString afi safi = dec_of_int afi @ ''_'' @ dec_of_int safi"

definition addAddPath :: "int \<Rightarrow> int \<Rightarrow> int \<Rightarrow> bool \<Rightarrow> AddPathMap \<Rightarrow> AddPathMap" where
  "addAddPath afi safi send_receive sent_open m =
     (let key = getAFiSafiKeyString afi safi in
      case m key of
        None \<Rightarrow>
          m(key \<mapsto> if sent_open
            then \<lparr>sendReceiveCodeForSentOpenMessage = Some send_receive,
                  sendReceiveCodeForReceivedOpenMessage = None\<rparr>
            else \<lparr>sendReceiveCodeForSentOpenMessage = None,
                  sendReceiveCodeForReceivedOpenMessage = Some send_receive\<rparr>)
      | Some c \<Rightarrow>
          m(key \<mapsto> if sent_open
            then c\<lparr>sendReceiveCodeForSentOpenMessage := Some send_receive\<rparr>
            else c\<lparr>sendReceiveCodeForReceivedOpenMessage := Some send_receive\<rparr>))"

definition load_int :: "int option \<Rightarrow> int result" where
  "load_int v = (case v of None \<Rightarrow> Inl Uninit | Some i \<Rightarrow> Inr i)"

definition isAddPathEnabled :: "AddPathMap \<Rightarrow> int \<Rightarrow> int \<Rightarrow> bool result" where
  "isAddPathEnabled m afi safi =
     (case m (getAFiSafiKeyString afi safi) of
        None \<Rightarrow> Inr False
      | Some c \<Rightarrow>
          andThen (load_int (sendReceiveCodeForSentOpenMessage c)) (\<lambda>sent.
            if sent = BGP_CAP_ADD_PATH_RECEIVE \<or> sent = BGP_CAP_ADD_PATH_SEND_RECEIVE
            then andThen (load_int (sendReceiveCodeForReceivedOpenMessage c)) (\<lambda>received.
              Inr (received = BGP_CAP_ADD_PATH_SEND \<or> received = BGP_CAP_ADD_PATH_SEND_RECEIVE))
            else Inr False))"

text \<open>One call of \<open>addAddPath\<close>, and the reference: the last code recorded for a family and side.\<close>

type_synonym add_path_call = "int \<times> int \<times> int \<times> bool"

definition record_call :: "AddPathMap \<Rightarrow> add_path_call \<Rightarrow> AddPathMap" where
  "record_call m c = (case c of (afi, safi, code, sent) \<Rightarrow> addAddPath afi safi code sent m)"

fun last_code :: "add_path_call list \<Rightarrow> int \<Rightarrow> int \<Rightarrow> bool \<Rightarrow> int option" where
  "last_code [] afi safi sent = None"
| "last_code ((a, s, code, b) # cs) afi safi sent =
     (case last_code cs afi safi sent of
        Some v \<Rightarrow> Some v
      | None \<Rightarrow> if a = afi \<and> s = safi \<and> b = sent then Some code else None)"

definition code_of :: "AddPathMap \<Rightarrow> int \<times> int \<times> bool \<Rightarrow> int option" where
  "code_of m k = (case k of (afi, safi, sent) \<Rightarrow>
     (case m (getAFiSafiKeyString afi safi) of
        None \<Rightarrow> None
      | Some c \<Rightarrow> if sent then sendReceiveCodeForSentOpenMessage c
                 else sendReceiveCodeForReceivedOpenMessage c))"

section \<open>The interface: a register file with one cell per key\<close>

locale code_store =
  fixes empty_store :: 's
    and put :: "'s \<Rightarrow> 'k \<Rightarrow> 'v \<Rightarrow> 's"
    and get_code :: "'s \<Rightarrow> 'k \<Rightarrow> 'v option"
  assumes get_empty: "get_code empty_store k = None"
    and get_put: "get_code (put s k v) k' = (if k' = k then Some v else get_code s k')"
begin

lemma get_foldl:
  "get_code (foldl (\<lambda>s (k, v). put s k v) s kvs) k =
     (case map_of (rev kvs) k of None \<Rightarrow> get_code s k | Some v \<Rightarrow> Some v)"
proof (induction kvs arbitrary: s)
  case (Cons kv kvs)
  then show ?case
    by (cases kv) (auto simp: get_put map_add_def split: option.splits)
qed simp

lemma get_log:
  "get_code (foldl (\<lambda>s (k, v). put s k v) empty_store kvs) k = map_of (rev kvs) k"
  by (simp add: get_foldl get_empty split: option.split)

end

section \<open>Keys\<close>

lemma dec_of_nat_no_minus: "c \<in> set (dec_of_nat n) \<Longrightarrow> c \<noteq> CHR ''-'' \<and> c \<noteq> CHR ''_''"
proof -
  assume "c \<in> set (dec_of_nat n)"
  then have "(of_char c :: nat) \<in> {48..57}" by (rule dec_of_nat_digits)
  then show ?thesis by auto
qed

lemma dec_of_int_inject: "dec_of_int i = dec_of_int j \<longleftrightarrow> i = j"
proof
  assume eq: "dec_of_int i = dec_of_int j"
  have no: "dec_of_nat n \<noteq> ''-'' @ t" for n t
    using dec_of_nat_no_minus [of "CHR ''-''" n] by auto
  show "i = j"
  proof (cases "i < 0"; cases "j < 0")
  qed (use eq no in \<open>auto simp: dec_of_int_def dec_of_nat_inject dest: sym\<close>)
qed simp

lemma dec_of_int_no_sep: "CHR ''_'' \<notin> set (dec_of_int i)"
  using dec_of_nat_no_minus by (auto simp: dec_of_int_def)

lemma append_sep_inject:
  "c \<notin> set xs \<Longrightarrow> c \<notin> set ys \<Longrightarrow> xs @ c # us = ys @ c # vs \<longleftrightarrow> xs = ys \<and> us = vs"
proof (induction xs arbitrary: ys)
  case Nil
  then show ?case by (cases ys) auto
next
  case (Cons x xs)
  then show ?case by (cases ys) auto
qed

lemma getAFiSafiKeyString_inject:
  "getAFiSafiKeyString a s = getAFiSafiKeyString a' s' \<longleftrightarrow> a = a' \<and> s = s'"
  using dec_of_int_no_sep
  by (simp add: getAFiSafiKeyString_def append_sep_inject dec_of_int_inject)

section \<open>The container as a code store\<close>

definition put_code :: "AddPathMap \<Rightarrow> int \<times> int \<times> bool \<Rightarrow> int \<Rightarrow> AddPathMap" where
  "put_code m k v = (case k of (afi, safi, sent) \<Rightarrow> addAddPath afi safi v sent m)"

interpretation addpath: code_store "\<lambda>_. None" put_code code_of
proof
  show "code_of (\<lambda>_. None) k = None" for k
    by (simp add: code_of_def split: prod.split)
  show "code_of (put_code m k v) k' = (if k' = k then Some v else code_of m k')" for m k v k'
    by (auto simp: code_of_def put_code_def addAddPath_def Let_def getAFiSafiKeyString_inject
        split: prod.splits option.splits)
qed

lemma record_call_put: "record_call = (\<lambda>m (a, s, code, b). put_code m (a, s, b) code)"
  by (auto simp: record_call_def put_code_def fun_eq_iff)

lemma foldl_record_call:
  "foldl record_call m log = foldl (\<lambda>m (k, v). put_code m k v) m (map (\<lambda>(a, s, code, b). ((a, s, b), code)) log)"
  by (induction log arbitrary: m) (auto simp: record_call_put)

lemma last_code_map_of:
  "last_code log afi safi sent = map_of (rev (map (\<lambda>(a, s, code, b). ((a, s, b), code)) log)) (afi, safi, sent)"
  by (induction log) (auto simp: map_add_def split: option.splits)

lemma code_of_log: "code_of (foldl record_call (\<lambda>_. None) log) (afi, safi, sent) = last_code log afi safi sent"
  by (simp add: foldl_record_call addpath.get_log last_code_map_of)

lemma entry_has_code:
  "foldl record_call (\<lambda>_. None) log (getAFiSafiKeyString afi safi) = Some c \<Longrightarrow>
   sendReceiveCodeForSentOpenMessage c \<noteq> None \<or> sendReceiveCodeForReceivedOpenMessage c \<noteq> None"
proof (induction log arbitrary: c rule: rev_induct)
  case (snoc x log)
  then show ?case
    by (cases x) (auto simp: record_call_def addAddPath_def Let_def getAFiSafiKeyString_inject
        split: option.splits if_splits)
qed simp

section \<open>Properties\<close>


end
