(* ===== verification/ExtCommunity.thy ===== *)
theory ExtCommunity
  imports BgpCommon
begin

text \<open>
  \<open>bgp/ExtCommunity.cpp\<close>: decoding of the extended communities attributes to text. The parsed
  attributes are a map from attribute type to text, as in \<open>UpdateMsg::parsed_attrs_map\<close>. An
  \<open>extcomm_hdr\<close> is its two type bytes and the pointer to the value.
\<close>

type_synonym attrs_map = "nat \<rightharpoonup> string"

section \<open>Printing floats\<close>

text \<open>
  The flow-spec rate is printed as \<open>(float) val_32b\<close>: the conversion rounds to 24 significant bits, to
  even on ties, and the stream prints six significant digits in the style of \<open>%g\<close>.
\<close>

definition div_even :: "nat \<Rightarrow> nat \<Rightarrow> nat" where
  "div_even n d =
     (let q = n div d; r = n mod d
      in if 2 * r > d \<or> (2 * r = d \<and> odd q) then q + 1 else q)"

definition float_of_u32 :: "nat \<Rightarrow> nat" where
  "float_of_u32 v =
     (if v < 2 ^ 24 then v
      else let e = length (filter (\<lambda>k. 2 ^ k \<le> v) [24..<32]) in div_even v (2 ^ e) * 2 ^ e)"

definition strip_zeros :: "string \<Rightarrow> string" where
  "strip_zeros s = rev (dropWhile (\<lambda>c. c = CHR ''0'') (rev s))"

definition show_float :: "nat \<Rightarrow> string" where
  "show_float v =
     (if v < 10 ^ 6 then dec_of_nat v
      else
        let x = length (dec_of_nat v) - 1;
            m = div_even v (10 ^ (x - 5));
            (m, x) = (if m = 10 ^ 6 then (10 ^ 5, x + 1) else (m, x));
            digits = dec_of_nat m;
            frac = strip_zeros (tl digits)
        in hd digits # (if frac = [] then [] else ''.'' @ frac) @ ''e+'' @
           (if x < 10 then ''0'' @ dec_of_nat x else dec_of_nat x))"

section \<open>Decoders\<close>

text \<open>
  The three global administrator formats: \<open>isGlobal4Bytes\<close> and \<open>isGlobalIPv4\<close> of the source, and the
  fields \<open>val_16b\<close>, \<open>val_32b\<close> and \<open>ipv4_char\<close> read according to them. With \<open>isGlobalIPv4\<close> the four
  bytes stay in network order.
\<close>

record ec_vals =
  val_16b :: nat
  val_32b :: nat
  ipv4_char :: string

definition ec_values :: "bool \<Rightarrow> bool \<Rightarrow> bytes \<Rightarrow> ec_vals" where
  "ec_values isGlobal4Bytes isGlobalIPv4 v =
     (if isGlobal4Bytes
      then \<lparr>val_16b = le_val (SWAP_BYTES (take 2 (drop 4 v)) 2),
            val_32b = (if isGlobalIPv4 then le_val (take 4 v) else le_val (SWAP_BYTES (take 4 v) 4)),
            ipv4_char = (if isGlobalIPv4 then inet_ntop4 (take 4 v) else [])\<rparr>
      else \<lparr>val_16b = le_val (SWAP_BYTES (take 2 v) 2),
            val_32b = le_val (SWAP_BYTES (take 4 (drop 2 v)) 4), ipv4_char = []\<rparr>)"

definition pair_4 :: "ec_vals \<Rightarrow> string" where
  "pair_4 x = dec_of_nat (val_32b x) @ '':'' @ dec_of_nat (val_16b x)"

definition pair_2 :: "ec_vals \<Rightarrow> string" where
  "pair_2 x = dec_of_nat (val_16b x) @ '':'' @ dec_of_nat (val_32b x)"

definition pair_ip :: "ec_vals \<Rightarrow> string" where
  "pair_ip x = ipv4_char x @ '':'' @ dec_of_nat (val_16b x)"

definition decodeType_common :: "u8 \<Rightarrow> bytes \<Rightarrow> bool \<Rightarrow> bool \<Rightarrow> string result" where
  "decodeType_common low_type value isGlobal4Bytes isGlobalIPv4 =
     andThen (rd 6 value) (\<lambda>v.
       let x = ec_values isGlobal4Bytes isGlobalIPv4 v;
           two_four = (if isGlobal4Bytes then pair_4 x else pair_2 x);
           three = (if isGlobalIPv4 then pair_ip x else if isGlobal4Bytes then pair_4 x else pair_2 x);
           hexed = (if isGlobalIPv4 then ipv4_char x @ '':0x'' @ hex_of_nat (val_16b x)
                    else if isGlobal4Bytes then dec_of_nat (val_32b x) @ '':0x'' @ hex_of_nat (val_16b x)
                    else dec_of_nat (val_16b x) @ '':0x'' @ hex_of_nat (val_32b x))
       in Inr (if low_type = 8 then ''colc='' @ two_four
               else if low_type = 3 then ''soo='' @ three
               else if low_type = 2 then ''rt='' @ three
               else if low_type = 9 then ''sas='' @ two_four
               else if low_type = 0x10 then ''vpn-id='' @ hexed
               else if low_type = 0x0a then ''vpn-id='' @ hexed
               else if low_type = 4 then ''link-bw='' @ two_four
               else if low_type = 5 then ''ospf-did='' @ three
               else if low_type = 0x0b
                    then ''import='' @ (if isGlobalIPv4 then pair_ip x else if isGlobalIPv4 then pair_4 x else pair_2 x)
               else if low_type = 0x12
                    then ''p2mp-nh='' @ (if isGlobalIPv4 then pair_ip x else pair_2 x)
               else if low_type = 7 then ''ospf-rid='' @ three
               else []))"

text \<open>
  In the ESI label case three bytes are copied into an uninitialised \<open>uint32_t\<close>, which is swapped and
  shifted right by eight; the indeterminate fourth byte \<open>g\<close> is shifted out.
\<close>

definition esi_label :: "u8 \<Rightarrow> bytes \<Rightarrow> nat" where
  "esi_label g v = le_val (SWAP_BYTES (v @ [g]) 4) div 2 ^ 8"

definition decodeType_EVPN :: "u8 \<Rightarrow> bytes \<Rightarrow> string result" where
  "decodeType_EVPN low_type value =
     (if low_type = 0 then andThen (rd 6 value) (\<lambda>v.
        Inr (''mac_mob_flags='' @ [char_of (unat (v ! 0))] @ '' mac_mob_seq_num='' @
             dec_of_nat (le_val (SWAP_BYTES (take 4 (drop 2 v)) 4))))
      else if low_type = 1 then andThen (rd 6 value) (\<lambda>v.
        Inr (''esi_label_flags='' @ [char_of (unat (v ! 0))] @ '' esi_label='' @
             dec_of_nat (esi_label 0 (take 3 (drop 3 v)))))
      else if low_type = 2 then andThen (parse_mac value) (\<lambda>m. Inr (''es_import='' @ m))
      else if low_type = 3 then andThen (parse_mac value) (\<lambda>m. Inr (''router_mac='' @ m))
      else Inr [])"

definition decodeType_Opaque :: "u8 \<Rightarrow> bytes \<Rightarrow> string result" where
  "decodeType_Opaque low_type value =
     (if low_type = 1 then andThen (rd 6 value) (\<lambda>v.
        Inr (''cost='' @
             (if v ! 0 = 128 then ''abs:'' else if v ! 0 = 129 then ''igp:''
              else if v ! 0 = 130 then ''ext:'' else if v ! 0 = 131 then ''bgp_id:'' else ''unkn'') @
             dec_of_nat (unat (v ! 1)) @ '':'' @ dec_of_nat (le_val (SWAP_BYTES (take 4 (drop 2 v)) 4))))
      else if low_type = 3 then Inr ''cp-orf''
      else if low_type = 6 then andThen (rd 6 value) (\<lambda>v.
        Inr (''ospf-rt=area-'' @ dec_of_nat (le_val (SWAP_BYTES (take 4 v) 4)) @ '':'' @
             (if v ! 4 = 1 \<or> v ! 4 = 2 then ''O:'' else if v ! 4 = 3 then ''IA:''
              else if v ! 4 = 5 then ''E:'' else if v ! 4 = 7 then ''N:'' else ''unkn:'') @
             dec_of_nat (unat (v ! 5))))
      else if low_type = 0x0b then andThen (rd 6 value) (\<lambda>v.
        Inr (''color='' @ dec_of_nat (le_val (SWAP_BYTES (take 4 (drop 2 v)) 4))))
      else if low_type = 0x0c then andThen (rd 6 value) (\<lambda>v. Inr (''encap='' @ dec_of_nat (unat (v ! 5))))
      else if low_type = 0x0d then Inr ''default-gw''
      else Inr [])"

definition decodeType_Generic :: "u8 \<Rightarrow> bytes \<Rightarrow> bool \<Rightarrow> bool \<Rightarrow> string result" where
  "decodeType_Generic low_type value isGlobal4Bytes isGlobalIPv4 =
     andThen (rd 6 value) (\<lambda>v.
       let x = ec_values isGlobal4Bytes isGlobalIPv4 v
       in Inr (if low_type = 10 then
                 ''l2info='' @ (if v ! 0 = 19 then ''vpls:'' else dec_of_nat (unat (v ! 0)) @ '':'') @
                 [char_of (unat (v ! 1))] @ '':mtu:'' @ dec_of_nat (le_val (SWAP_BYTES (take 2 (drop 2 v)) 2))
               else if low_type = 6 then
                 ''flow-rate='' @ dec_of_nat (val_16b x) @ '':'' @ show_float (float_of_u32 (val_32b x))
               else if low_type = 7 then
                 ''flow-act='' @ (if v ! 5 AND 0x02 \<noteq> 0 then ''S'' else []) @ (if v ! 5 AND 0x01 \<noteq> 0 then ''T'' else [])
               else if low_type = 8 then
                 ''flow-redir='' @ (if isGlobalIPv4 then pair_ip x else if isGlobal4Bytes then pair_4 x else pair_2 x)
               else if low_type = 9 then ''flow-remark='' @ dec_of_nat (unat (v ! 5))
               else []))"

text \<open>
  \<open>ntop6\<close> is the text form of an IPv6 address that \<open>inet_ntop\<close> prints. The call succeeds when the text
  and its zero byte fit the 40 bytes of \<open>ipv6_char\<close>, and leaves the zeroed array unchanged otherwise.
\<close>

definition decodeType_IPv6Specific :: "(bytes \<Rightarrow> string) \<Rightarrow> u8 \<Rightarrow> bytes \<Rightarrow> string result" where
  "decodeType_IPv6Specific ntop6 low_type value =
     andThen (rd 16 value) (\<lambda>ipv6_raw.
       if length (ntop6 ipv6_raw) + 1 \<le> 40 then Inr []
       else andThen (ntoh 2 (drop 16 value)) (\<lambda>v.
         let ipv6_char = [] in
         Inr (if low_type = 3 then ''soo='' @ ipv6_char @ '':'' @ dec_of_nat v
              else if low_type = 2 then ''rt='' @ ipv6_char @ '':'' @ dec_of_nat v
              else if low_type = 0x10 then ''vpn-id='' @ ipv6_char @ '':0x'' @ hex_of_nat v
              else if low_type = 0x0b then ''import='' @ ipv6_char @ '':'' @ dec_of_nat v
              else if low_type = 0x12 then ''p2mp-nh='' @ ipv6_char @ '':'' @ dec_of_nat v
              else [])))"

section \<open>The attributes\<close>

definition decode_ec :: "u8 \<Rightarrow> u8 \<Rightarrow> bytes \<Rightarrow> string result" where
  "decode_ec high_type low_type value =
     (let t = (unat high_type * 2 ^ 2) div 2 ^ 2
      in if t = 1 then decodeType_common low_type value True True
         else if t = 0 then decodeType_common low_type value False False
         else if t = 2 then decodeType_common low_type value True False
         else if t = 0x80 then decodeType_Generic low_type value False False
         else if t = 0x82 then decodeType_Generic low_type value True False
         else if t = 0x81 then decodeType_Generic low_type value True True
         else if t = 3 then decodeType_Opaque low_type value
         else if t = 6 then decodeType_EVPN low_type value
         else Inr [])"

function ec_loop :: "nat \<Rightarrow> nat \<Rightarrow> bytes \<Rightarrow> string \<Rightarrow> string result" where
  "ec_loop i attr_len data decodeStr =
     (if i < attr_len
      then andThen (rd 2 data) (\<lambda>h.
           andThen (decode_ec (h ! 0) (h ! 1) (drop 2 data)) (\<lambda>s.
             ec_loop (i + 8) attr_len (drop 8 data)
               (decodeStr @ s @ (if i + 8 < attr_len then '' '' else []))))
      else Inr decodeStr)"
  by pat_completeness auto
termination by (relation "measure (\<lambda>(i, n, _, _). n - i)") auto

declare ec_loop.simps [simp del]

definition parseExtCommunities :: "nat \<Rightarrow> bytes \<Rightarrow> attrs_map \<Rightarrow> attrs_map result" where
  "parseExtCommunities attr_len data attrs =
     (if attr_len mod 8 \<noteq> 0 then Inr attrs
      else andThen (ec_loop 0 attr_len data []) (\<lambda>s. Inr (attrs(16 \<mapsto> s))))"

text \<open>The IPv6 variant: the loop does not advance \<open>data\<close>, and the decoded text is not stored.\<close>

function ec6_loop :: "(bytes \<Rightarrow> string) \<Rightarrow> nat \<Rightarrow> nat \<Rightarrow> bytes \<Rightarrow> string \<Rightarrow> string result" where
  "ec6_loop ntop6 i attr_len data decodeStr =
     (if i < attr_len
      then andThen (rd 2 data) (\<lambda>h.
           andThen (if (unat (h ! 0) * 2 ^ 2) div 2 ^ 2 = 0 then decodeType_IPv6Specific ntop6 (h ! 1) (drop 2 data)
                    else Inr []) (\<lambda>s.
             ec6_loop ntop6 (i + 20) attr_len data (decodeStr @ s)))
      else Inr decodeStr)"
  by pat_completeness auto
termination by (relation "measure (\<lambda>(_, i, n, _, _). n - i)") auto

declare ec6_loop.simps [simp del]

definition parsev6ExtCommunities :: "(bytes \<Rightarrow> string) \<Rightarrow> nat \<Rightarrow> bytes \<Rightarrow> attrs_map \<Rightarrow> attrs_map result" where
  "parsev6ExtCommunities ntop6 attr_len data attrs =
     (if attr_len mod 20 \<noteq> 0 then Inr attrs
      else andThen (ec6_loop ntop6 0 attr_len data []) (\<lambda>_. Inr attrs))"

section \<open>Reference\<close>

fun chunks8 :: "bytes \<Rightarrow> bytes list" where
  "chunks8 (a # b # c # d # e # f # g # h # bs) = [a, b, c, d, e, f, g, h] # chunks8 bs"
| "chunks8 _ = []"

fun join_space :: "string list \<Rightarrow> string" where
  "join_space [] = []"
| "join_space [s] = s"
| "join_space (s # t # ss) = s @ '' '' @ join_space (t # ss)"

definition ec_text :: "bytes \<Rightarrow> string" where
  "ec_text e = (case decode_ec (e ! 0) (e ! 1) (drop 2 e) of Inl _ \<Rightarrow> [] | Inr s \<Rightarrow> s)"

section \<open>Lemmas\<close>

lemma esi_label_any: "length v = 3 \<Longrightarrow> esi_label g v = be_val v"
  by (simp add: esi_label_def be_val_snoc)

lemma decode_ec_okay: "6 \<le> length value \<Longrightarrow> okay (decode_ec hi lo value)"
  by (simp add: decode_ec_def decodeType_common_def decodeType_Generic_def decodeType_Opaque_def
      decodeType_EVPN_def parse_mac_def rd_enough Let_def)

lemma decode_ec_local: "6 \<le> length value \<Longrightarrow> decode_ec hi lo (value @ rest) = decode_ec hi lo value"
  by (simp add: decode_ec_def decodeType_common_def decodeType_Generic_def decodeType_Opaque_def
      decodeType_EVPN_def parse_mac_def rd_def Let_def)

lemma ec_text_local:
  "8 \<le> length e \<Longrightarrow> decode_ec (e ! 0) (e ! 1) (drop 2 (e @ rest)) = Inr (ec_text e)"
proof -
  assume "8 \<le> length e"
  then have six: "6 \<le> length (drop 2 e)" by simp
  from decode_ec_okay [OF this, of "e ! 0" "e ! 1"] six \<open>8 \<le> length e\<close> show ?thesis
    by (auto simp: decode_ec_local ec_text_def okay_iff)
qed

lemma ec_loop_run:
  "length v mod 8 = 0 \<Longrightarrow> n = i + length v \<Longrightarrow>
   ec_loop i n (v @ rest) acc = Inr (acc @ join_space (map ec_text (chunks8 v)))"
proof (induction v arbitrary: i acc rule: chunks8.induct)
  case (1 a b c d e f g h bs)
  let ?e = "[a, b, c, d, e, f, g, h]"
  have "decode_ec a b ([c, d, e, f, g, h] @ (bs @ rest)) = Inr (ec_text ?e)"
    using ec_text_local [of ?e "bs @ rest"] by simp
  moreover have "join_space (ec_text ?e # map ec_text (chunks8 bs)) =
      ec_text ?e @ (if bs = [] then [] else '' '') @ join_space (map ec_text (chunks8 bs))"
    using 1(2) by (cases bs rule: chunks8.cases) auto
  moreover have "i + 8 < n \<longleftrightarrow> bs \<noteq> []" using 1(3) by auto
  ultimately show ?case
    using 1 by (subst ec_loop.simps) (simp add: rd_def)
qed (auto simp: ec_loop.simps)

section \<open>Properties\<close>

text \<open>
  The extended communities attribute is decoded entry by entry: for a list of 8-byte communities the
  stored text is the decoded texts in order, separated by single spaces, each depending on its own
  eight bytes only, and nothing outside the attribute is read.
\<close>

theorem parseExtCommunities_entries:
  assumes "length v mod 8 = 0"
  shows "parseExtCommunities (length v) (v @ rest) attrs =
    Inr (attrs(16 \<mapsto> join_space (map ec_text (chunks8 v))))"
  using ec_loop_run [OF assms, of "length v" 0 rest "[]"] assms by (simp add: parseExtCommunities_def)

theorem parseExtCommunities_entries_example:
  "\<exists>m. parseExtCommunities 16 ([0, 2, 0, 100, 0, 0, 0, 7] @ [3, 11, 0, 0, 0, 0, 0, 9] @ [1]) (\<lambda>_. None) = Inr m \<and>
     m 16 = Some ''rt=100:7 color=9''"
proof -
  let ?v = "[0, 2, 0, 100, 0, 0, 0, 7, 3, 11, 0, 0, 0, 0, 0, 9] :: bytes"
  have len: "length ?v = 16" by simp
  have words: "join_space (map ec_text (chunks8 ?v)) = ''rt=100:7 color=9''"
    by (simp add: ec_text_def decode_ec_def decodeType_common_def decodeType_Opaque_def rd_def ec_values_def
        pair_2_def be_val_def dec_of_nat.simps Let_def)
  have "parseExtCommunities 16 (?v @ [1]) (\<lambda>_. None) = Inr [16 \<mapsto> ''rt=100:7 color=9'']"
    using parseExtCommunities_entries [of ?v "[1]" "\<lambda>_. None"] unfolding len words by simp
  then show ?thesis by simp
qed

text \<open>
  Route targets in the three administrator formats are printed with the numbers of the wire: 2-octet
  AS, 4-octet AS and IPv4 address.
\<close>

theorem route_target_text:
  assumes "a < 2 ^ 16" "b < 2 ^ 32" "length ip = 4"
  shows "ec_text ([0, 2] @ be_bytes 2 a @ be_bytes 4 b) = ''rt='' @ dec_of_nat a @ '':'' @ dec_of_nat b \<and>
    ec_text ([2, 2] @ be_bytes 4 b @ be_bytes 2 a) = ''rt='' @ dec_of_nat b @ '':'' @ dec_of_nat a \<and>
    ec_text ([1, 2] @ ip @ be_bytes 2 a) = ''rt='' @ inet_ntop4 ip @ '':'' @ dec_of_nat a"
  using assms be_val_be_bytes [of 2 a] be_val_be_bytes [of 4 b]
  by (simp add: ec_text_def decode_ec_def decodeType_common_def rd_def ec_values_def pair_2_def pair_4_def
      pair_ip_def Let_def length_be_bytes del: be_bytes_numeral)

theorem route_target_text_example:
  "ec_text [0, 2, 0, 100, 0, 0, 0, 7] = ''rt=100:7'' \<and> ec_text [1, 2, 10, 0, 0, 1, 0, 100] = ''rt=10.0.0.1:100''"
  using route_target_text [of 100 7 "[10, 0, 0, 1]"] by (simp add: inet_ntop4_def dec_of_nat.simps)

text \<open>
  Extended communities with the non-transitive bit are not decoded: the shift that should drop the two
  flag bits of the type byte is done on an \<open>int\<close> and drops nothing, so every type from \<open>0x40\<close> to \<open>0x7f\<close>
  gives an empty text.
\<close>

lemma non_transitive_ignored:
  assumes "64 \<le> unat (e ! 0)" "unat (e ! 0) < 128"
  shows "ec_text e = []"
  using assms by (simp add: ec_text_def decode_ec_def Let_def)

end
