(* ===== verification/UpdateData.thy ===== *)
theory UpdateData
  imports AddPath ExtCommunity
begin

text \<open>
  The data an UPDATE message is decoded into (\<open>UpdateMsg::parsed_update_data\<close> of \<open>bgp/UpdateMsg.h\<close>,
  \<open>evpn_tuple\<close> and \<open>vpn_tuple\<close> of \<open>bgp/bgp_common.h\<close>) and the state kept for a peer between messages
  (\<open>BMPReader::peer_info\<close>). The BGP link-state part of the decoded data is a type parameter \<open>'ls\<close>; the
  link-state parsers are arguments of the definitions that call them.
\<close>

lemma andThen_cong [fundef_cong]:
  "m = m' \<Longrightarrow> (\<And>x. m' = Inr x \<Longrightarrow> f x = g x) \<Longrightarrow> andThen m f = andThen m' g"
  by (auto simp: andThen_def split: sum.splits)

section \<open>Peer state\<close>

record peer_info =
  sent_four_octet_asn :: bool
  recv_four_octet_asn :: bool
  using_2_octet_asn :: bool
  pi_add_path_capability :: AddPathMap
  peer_group :: string
  endOfRIB :: bool

text \<open>A peer before its OPEN messages are seen.\<close>

definition plain_peer :: peer_info where
  "plain_peer = \<lparr>sent_four_octet_asn = False, recv_four_octet_asn = False, using_2_octet_asn = False,
     pi_add_path_capability = (\<lambda>_. None), peer_group = [], endOfRIB = False\<rparr>"

section \<open>Decoded routes\<close>

record vpn_tuple =
  vpn_prefix :: prefix_tuple
  vpn_rd :: rd_tuple

text \<open>Of the inherited prefix fields of \<open>evpn_tuple\<close> only \<open>path_id\<close> is ever assigned.\<close>

record evpn_tuple =
  evpn_rd :: rd_tuple
  evpn_path_id :: u32
  ethernet_segment_identifier :: string
  ethernet_tag_id_hex :: string
  mac_len :: u8
  mac :: string
  ip_len :: u8
  ip :: string
  mpls_label_1 :: int
  mpls_label_2 :: int
  originating_router_ip_len :: u8
  originating_router_ip :: string

record 'ls parsed_update_data =
  attrs :: attrs_map
  withdrawn :: "prefix_tuple list"
  advertised :: "prefix_tuple list"
  vpn :: "vpn_tuple list"
  vpn_withdrawn :: "vpn_tuple list"
  evpn :: "evpn_tuple list"
  evpn_withdrawn :: "evpn_tuple list"
  ls_part :: 'ls

definition empty_update :: "'ls \<Rightarrow> 'ls parsed_update_data" where
  "empty_update l = \<lparr>attrs = (\<lambda>_. None), withdrawn = [], advertised = [], vpn = [], vpn_withdrawn = [],
     evpn = [], evpn_withdrawn = [], ls_part = l\<rparr>"

section \<open>Printing addresses\<close>

text \<open>
  \<open>inet_ntop\<close> on a 16-byte array for either family. \<open>ntop6\<close> is the IPv6 text form, at most 39 characters,
  so that it fits the 40 bytes the callers pass.
\<close>

definition print_ip :: "(bytes \<Rightarrow> string) \<Rightarrow> bool \<Rightarrow> bytes \<Rightarrow> string" where
  "print_ip ntop6 v4 raw = (if v4 then inet_ntop4 (take 4 raw) else ntop6 raw)"

text \<open>\<open>bzero\<close> of a 16-byte array followed by a \<open>memcpy\<close> of the bytes to its start.\<close>

definition pad16 :: "bytes \<Rightarrow> bytes" where
  "pad16 bs = bs @ replicate (16 - length bs) 0"

definition copy16 :: "bytes \<Rightarrow> bytes result" where
  "copy16 bs = (if length bs \<le> 16 then Inr (pad16 bs) else Inl BufferOverflow)"

text \<open>A cast of a \<open>uint32_t\<close> to \<open>int\<close>.\<close>

definition int_of_u32 :: "nat \<Rightarrow> int" where
  "int_of_u32 v = (if v < 2 ^ 31 then int v else int v - 2 ^ 32)"

lemma length_pad16 [simp]: "length bs \<le> 16 \<Longrightarrow> length (pad16 bs) = 16"
  by (simp add: pad16_def)

lemma take_pad16: "length bs = n \<Longrightarrow> take n (pad16 bs) = bs"
  by (simp add: pad16_def)

lemma pad16_full [simp]: "length bs = 16 \<Longrightarrow> pad16 bs = bs"
  by (simp add: pad16_def)

lemma pad16_Nil [simp]: "pad16 [] = replicate 16 0"
  by (simp add: pad16_def)

lemma plain_peer_add_path: "isAddPathEnabled (pi_add_path_capability plain_peer) a s = Inr False"
  by (simp add: plain_peer_def isAddPathEnabled_def)

end
