(* ===== verification/MsgBus.thy ===== *)
theory MsgBus
  imports UpdateData
begin

text \<open>
  \<open>MsgBusInterface.hpp\<close>: the objects the collector hands to its message bus, and the bus itself as an
  interface. An implementation of the bus with state \<open>'b\<close> is a value of \<open>'b msg_bus\<close>: one function per
  virtual method the parsers call, which may update the passed object and the state of the bus.

  A character array filled with \<open>strncpy\<close> or \<open>snprintf\<close> is the text before its zero padding; \<open>read_cstr\<close> reads
  such an array as a C string and faults when the text fills the array completely. A field that the
  program may read without having assigned it is an \<open>option\<close>, \<open>None\<close> being the indeterminate value.
\<close>

section \<open>Character arrays\<close>

definition c_str :: "string \<Rightarrow> string" where
  "c_str s = takeWhile (\<lambda>c. c \<noteq> CHR 0x00) s"

definition strncpy :: "nat \<Rightarrow> string \<Rightarrow> string" where
  "strncpy n s = take n (c_str s)"

definition snprintf :: "nat \<Rightarrow> string \<Rightarrow> string" where
  "snprintf n s = take (n - 1) (c_str s)"

definition read_cstr :: "nat \<Rightarrow> string option \<Rightarrow> string result" where
  "read_cstr n f = (case f of None \<Rightarrow> Inl Uninit | Some s \<Rightarrow> if length s < n then Inr s else Inl OutOfBounds)"

definition load :: "'a option \<Rightarrow> 'a result" where
  "load f = (case f of None \<Rightarrow> Inl Uninit | Some v \<Rightarrow> Inr v)"

text \<open>\<open>memcpy\<close> of \<open>xs\<close> into an array at an offset.\<close>

definition poke :: "nat \<Rightarrow> 'a list \<Rightarrow> 'a list \<Rightarrow> 'a list" where
  "poke off xs arr = take off arr @ xs @ drop (off + length xs) arr"

definition text_bytes :: "string \<Rightarrow> bytes" where
  "text_bytes s = map of_char s"

text \<open>A C string in an array of bytes; without a terminator the read leaves the array.\<close>

definition c_bytes :: "bytes \<Rightarrow> bytes result" where
  "c_bytes a = (if 0 \<in> set a then Inr (takeWhile (\<lambda>b. b \<noteq> 0) a) else Inl OutOfBounds)"

section \<open>Objects\<close>

record obj_router =
  router_hash :: bytes
  hash_type :: nat
  router_name :: bytes            \<comment> \<open>255 bytes\<close>
  router_descr :: bytes           \<comment> \<open>255 bytes\<close>
  router_ip_addr :: string
  router_bgp_id :: string
  term_reason_code :: nat
  term_reason_text :: string
  term_data :: bytes              \<comment> \<open>4096 bytes\<close>
  initiate_data :: bytes          \<comment> \<open>4096 bytes\<close>

definition zero_router :: obj_router where
  "zero_router = \<lparr>router_hash = replicate 16 0, hash_type = 0, router_name = replicate 255 0, router_descr = replicate 255 0,
     router_ip_addr = [], router_bgp_id = [], term_reason_code = 0, term_reason_text = [], term_data = replicate 4096 0,
     initiate_data = replicate 4096 0\<rparr>"

datatype router_action_code = ROUTER_ACTION_FIRST | ROUTER_ACTION_INIT | ROUTER_ACTION_TERM

record obj_bgp_peer =
  peer_hash :: bytes
  router_hash_id :: bytes
  table_name :: bytes             \<comment> \<open>255 bytes\<close>
  peer_rd :: string
  peer_addr :: string
  peer_bgp_id :: string
  peer_as :: u32
  isL3VPN :: bool
  isPrePolicy :: bool
  isAdjIn :: bool
  isLocRib :: bool
  isLocRibFiltered :: bool
  peer_isIPv4 :: bool
  isTwoOctet :: bool
  timestamp_secs :: u32
  timestamp_us :: u32

text \<open>A peer entry cleared with \<open>bzero\<close>.\<close>

definition zero_peer :: obj_bgp_peer where
  "zero_peer = \<lparr>peer_hash = replicate 16 0, router_hash_id = replicate 16 0, table_name = replicate 255 0, peer_rd = [],
     peer_addr = [], peer_bgp_id = [], peer_as = 0, isL3VPN = False, isPrePolicy = False, isAdjIn = False,
     isLocRib = False, isLocRibFiltered = False, peer_isIPv4 = False, isTwoOctet = False, timestamp_secs = 0,
     timestamp_us = 0\<rparr>"

record obj_peer_down_event =
  bmp_reason :: u8
  bgp_err_code :: u8
  bgp_err_subcode :: u8
  down_error_text :: string

text \<open>The events as the reader initialises them with \<open>{}\<close>.\<close>

definition zero_down :: obj_peer_down_event where
  "zero_down = \<lparr>bmp_reason = 0, bgp_err_code = 0, bgp_err_subcode = 0, down_error_text = []\<rparr>"

record obj_peer_up_event =
  local_ip :: string
  local_port :: nat
  local_asn :: u32
  local_hold_time :: nat
  local_bgp_id :: string
  remote_asn :: u32
  remote_port :: nat
  remote_hold_time :: nat
  remote_bgp_id :: string
  sent_cap :: string
  recv_cap :: string

definition zero_up :: obj_peer_up_event where
  "zero_up = \<lparr>local_ip = [], local_port = 0, local_asn = 0, local_hold_time = 0, local_bgp_id = [], remote_asn = 0,
     remote_port = 0, remote_hold_time = 0, remote_bgp_id = [], sent_cap = [], recv_cap = []\<rparr>"

datatype peer_action_code = PEER_ACTION_FIRST | PEER_ACTION_UP | PEER_ACTION_DOWN

record obj_path_attr =
  attr_hash_id :: "bytes option"
  origin :: "string option"
  as_path :: string
  as_path_count :: "u16 option"
  origin_as :: "u32 option"
  nexthop_isIPv4 :: "bool option"
  attr_next_hop :: "string option"
  aggregator :: "string option"
  atomic_agg :: "bool option"
  med :: "u32 option"
  local_pref :: "u32 option"
  community_list :: string
  ext_community_list :: string
  large_community_list :: string
  cluster_list :: string
  originator_id :: "string option"

text \<open>The object as its default constructor leaves it: only the strings have a value.\<close>

definition new_path_attr :: obj_path_attr where
  "new_path_attr = \<lparr>attr_hash_id = None, origin = None, as_path = [], as_path_count = None, origin_as = None,
     nexthop_isIPv4 = None, attr_next_hop = None, aggregator = None, atomic_agg = None, med = None,
     local_pref = None, community_list = [], ext_community_list = [], large_community_list = [],
     cluster_list = [], originator_id = None\<rparr>"

record obj_rib =
  path_attr_hash_id :: "bytes option"
  rib_peer_hash_id :: bytes
  rib_isIPv4 :: bool
  rib_prefix :: string
  rib_prefix_len :: u8
  rib_prefix_bin :: bytes
  prefix_bcast_bin :: "u8 option list"   \<comment> \<open>16 bytes\<close>
  rib_path_id :: u32
  rib_labels :: string

definition new_rib :: obj_rib where
  "new_rib = \<lparr>path_attr_hash_id = None, rib_peer_hash_id = [], rib_isIPv4 = False, rib_prefix = [],
     rib_prefix_len = 0, rib_prefix_bin = [], prefix_bcast_bin = replicate 16 None, rib_path_id = 0, rib_labels = []\<rparr>"

record obj_vpn = obj_rib +
  vpn_rd_tuple :: rd_tuple

record obj_evpn =
  evpn_path_attr_hash_id :: "bytes option"
  evpn_peer_hash_id :: bytes
  evpn_fields :: evpn_tuple

text \<open>
  The link-state objects. The arrays are cleared with \<open>bzero\<close> before they are filled; an array of characters
  that is filled with \<open>memcpy\<close> is kept as its bytes. Left out are the hashes of links and prefixes, which a bus
  computes for its own output, and the two addresses of a prefix that no code assigns.
\<close>

record obj_ls_node =
  node_hash :: bytes                \<comment> \<open>16 bytes\<close>
  node_id :: u64
  node_isIPv4 :: bool
  node_asn :: u32
  node_bgp_ls_id :: u32
  node_igp_router_id :: bytes       \<comment> \<open>8 bytes\<close>
  node_ospf_area_Id :: bytes        \<comment> \<open>4 bytes\<close>
  node_protocol :: string
  node_router_id :: bytes           \<comment> \<open>16 bytes\<close>
  node_isis_area_id :: bytes        \<comment> \<open>9 bytes\<close>
  node_flags :: bytes               \<comment> \<open>32 bytes\<close>
  node_name :: bytes                \<comment> \<open>255 bytes\<close>
  node_mt_id :: bytes               \<comment> \<open>255 bytes\<close>
  sr_capabilities_tlv :: bytes      \<comment> \<open>255 bytes\<close>

definition zero_ls_node :: obj_ls_node where
  "zero_ls_node = \<lparr>node_hash = replicate 16 0, node_id = 0, node_isIPv4 = False, node_asn = 0, node_bgp_ls_id = 0,
     node_igp_router_id = replicate 8 0, node_ospf_area_Id = replicate 4 0, node_protocol = [], node_router_id = replicate 16 0,
     node_isis_area_id = replicate 9 0, node_flags = replicate 32 0, node_name = replicate 255 0, node_mt_id = replicate 255 0,
     sr_capabilities_tlv = replicate 255 0\<rparr>"

datatype ls_action_code = LS_ACTION_ADD | LS_ACTION_DEL

record obj_ls_link =
  link_id :: u64
  link_mt_id :: u32
  link_bgp_ls_id :: u32
  link_igp_router_id :: bytes         \<comment> \<open>8 bytes\<close>
  remote_igp_router_id :: bytes       \<comment> \<open>8 bytes\<close>
  link_ospf_area_Id :: bytes          \<comment> \<open>4 bytes\<close>
  link_router_id :: bytes             \<comment> \<open>16 bytes\<close>
  remote_router_id :: bytes           \<comment> \<open>16 bytes\<close>
  local_node_asn :: u32
  remote_node_asn :: u32
  local_bgp_router_id :: bytes        \<comment> \<open>4 bytes, in the order of the message\<close>
  remote_bgp_router_id :: bytes       \<comment> \<open>4 bytes, in the order of the message\<close>
  link_isis_area_id :: bytes          \<comment> \<open>9 bytes\<close>
  link_protocol :: string
  intf_addr :: bytes                  \<comment> \<open>16 bytes\<close>
  nei_addr :: bytes                   \<comment> \<open>16 bytes\<close>
  local_link_id :: u32
  remote_link_id :: u32
  link_isIPv4 :: bool
  local_node_hash_id :: bytes         \<comment> \<open>16 bytes\<close>
  remote_node_hash_id :: bytes        \<comment> \<open>16 bytes\<close>
  admin_group :: u32
  max_link_bw :: u32
  max_resv_bw :: u32
  unreserved_bw :: bytes              \<comment> \<open>100 bytes\<close>
  te_def_metric :: u32
  protection_type :: bytes            \<comment> \<open>60 bytes\<close>
  mpls_proto_mask :: bytes            \<comment> \<open>32 bytes\<close>
  igp_metric :: u32
  srlg :: bytes                       \<comment> \<open>128 bytes\<close>
  link_name :: bytes                  \<comment> \<open>255 bytes\<close>
  peer_node_sid :: bytes              \<comment> \<open>128 bytes\<close>
  peer_adj_sid :: bytes               \<comment> \<open>128 bytes\<close>

definition zero_ls_link :: obj_ls_link where
  "zero_ls_link = \<lparr>link_id = 0, link_mt_id = 0, link_bgp_ls_id = 0, link_igp_router_id = replicate 8 0,
     remote_igp_router_id = replicate 8 0, link_ospf_area_Id = replicate 4 0, link_router_id = replicate 16 0,
     remote_router_id = replicate 16 0, local_node_asn = 0, remote_node_asn = 0, local_bgp_router_id = replicate 4 0,
     remote_bgp_router_id = replicate 4 0, link_isis_area_id = replicate 9 0, link_protocol = [], intf_addr = replicate 16 0,
     nei_addr = replicate 16 0, local_link_id = 0, remote_link_id = 0, link_isIPv4 = False, local_node_hash_id = replicate 16 0,
     remote_node_hash_id = replicate 16 0, admin_group = 0, max_link_bw = 0, max_resv_bw = 0, unreserved_bw = replicate 100 0,
     te_def_metric = 0, protection_type = replicate 60 0, mpls_proto_mask = replicate 32 0, igp_metric = 0, srlg = replicate 128 0,
     link_name = replicate 255 0, peer_node_sid = replicate 128 0, peer_adj_sid = replicate 128 0\<rparr>"

record obj_ls_prefix =
  lsp_id :: u64
  lsp_protocol :: string
  lsp_bgp_ls_id :: u32
  lsp_igp_router_id :: bytes          \<comment> \<open>8 bytes\<close>
  lsp_ospf_area_Id :: bytes           \<comment> \<open>4 bytes\<close>
  lsp_router_id :: bytes              \<comment> \<open>16 bytes\<close>
  lsp_isis_area_id :: bytes           \<comment> \<open>9 bytes\<close>
  lsp_local_node_hash_id :: bytes     \<comment> \<open>16 bytes\<close>
  lsp_mt_id :: u32
  metric :: u32
  lsp_isIPv4 :: bool
  lsp_prefix_len :: u8
  lsp_ospf_route_type :: string
  lsp_prefix_bin :: bytes             \<comment> \<open>16 bytes\<close>
  lsp_prefix_bcast_bin :: bytes       \<comment> \<open>16 bytes\<close>
  igp_flags :: bytes                  \<comment> \<open>32 bytes\<close>
  route_tag :: u32
  ext_route_tag :: u64
  ospf_fwd_addr :: bytes              \<comment> \<open>16 bytes\<close>
  sid_tlv :: bytes                    \<comment> \<open>128 bytes\<close>

definition zero_ls_prefix :: obj_ls_prefix where
  "zero_ls_prefix = \<lparr>lsp_id = 0, lsp_protocol = [], lsp_bgp_ls_id = 0, lsp_igp_router_id = replicate 8 0,
     lsp_ospf_area_Id = replicate 4 0, lsp_router_id = replicate 16 0, lsp_isis_area_id = replicate 9 0,
     lsp_local_node_hash_id = replicate 16 0, lsp_mt_id = 0, metric = 0, lsp_isIPv4 = False, lsp_prefix_len = 0,
     lsp_ospf_route_type = [], lsp_prefix_bin = replicate 16 0, lsp_prefix_bcast_bin = replicate 16 0, igp_flags = replicate 32 0,
     route_tag = 0, ext_route_tag = 0, ospf_fwd_addr = replicate 16 0, sid_tlv = replicate 128 0\<rparr>"

record obj_collector =
  admin_id :: string
  coll_routers :: string
  router_count :: u32
  coll_timestamp_secs :: u32
  coll_timestamp_us :: u32

datatype collector_action_code =
  COLLECTOR_ACTION_STARTED | COLLECTOR_ACTION_CHANGE | COLLECTOR_ACTION_HEARTBEAT | COLLECTOR_ACTION_STOPPED

datatype unicast_prefix_action_code = UNICAST_PREFIX_ACTION_ADD | UNICAST_PREFIX_ACTION_DEL

datatype vpn_action_code = VPN_ACTION_ADD | VPN_ACTION_DEL

text \<open>
  The statistics report as it lies in memory: seven 32-bit counters, four bytes of padding, two 64-bit
  counters.
\<close>

type_synonym obj_stats_report = bytes

definition new_stats :: obj_stats_report where
  "new_stats = replicate 48 0"

section \<open>The bus\<close>

record 'b msg_bus =
  update_Collector :: "obj_collector \<Rightarrow> collector_action_code \<Rightarrow> 'b \<Rightarrow> 'b result"
  update_Router :: "obj_router \<Rightarrow> router_action_code \<Rightarrow> 'b \<Rightarrow> (obj_router \<times> 'b) result"
  update_Peer :: "obj_bgp_peer \<Rightarrow> obj_peer_up_event option \<Rightarrow> obj_peer_down_event option \<Rightarrow> peer_action_code \<Rightarrow>
    'b \<Rightarrow> (obj_bgp_peer \<times> 'b) result"
  update_baseAttribute :: "obj_bgp_peer \<Rightarrow> obj_path_attr \<Rightarrow> 'b \<Rightarrow> (obj_path_attr \<times> 'b) result"
  update_unicastPrefix :: "obj_bgp_peer \<Rightarrow> obj_rib list \<Rightarrow> obj_path_attr option \<Rightarrow> unicast_prefix_action_code \<Rightarrow>
    'b \<Rightarrow> 'b result"
  update_L3Vpn :: "obj_bgp_peer \<Rightarrow> obj_vpn list \<Rightarrow> obj_path_attr \<Rightarrow> vpn_action_code \<Rightarrow> 'b \<Rightarrow> 'b result"
  update_eVPN :: "obj_bgp_peer \<Rightarrow> obj_evpn list \<Rightarrow> obj_path_attr \<Rightarrow> vpn_action_code \<Rightarrow> 'b \<Rightarrow> 'b result"
  update_LsNode :: "obj_bgp_peer \<Rightarrow> obj_path_attr \<Rightarrow> obj_ls_node list \<Rightarrow> ls_action_code \<Rightarrow> 'b \<Rightarrow> 'b result"
  update_LsLink :: "obj_bgp_peer \<Rightarrow> obj_path_attr \<Rightarrow> obj_ls_link list \<Rightarrow> ls_action_code \<Rightarrow> 'b \<Rightarrow> 'b result"
  update_LsPrefix :: "obj_bgp_peer \<Rightarrow> obj_path_attr \<Rightarrow> obj_ls_prefix list \<Rightarrow> ls_action_code \<Rightarrow> 'b \<Rightarrow> 'b result"
  add_StatReport :: "obj_bgp_peer \<Rightarrow> obj_stats_report \<Rightarrow> 'b \<Rightarrow> 'b result"
  send_bmp_raw :: "bytes \<Rightarrow> obj_bgp_peer \<Rightarrow> bytes \<Rightarrow> 'b \<Rightarrow> 'b result"
  ribSeq :: "'b \<Rightarrow> u64"

definition hash_toStr :: "bytes \<Rightarrow> string result" where
  "hash_toStr hash_bin = andThen (rd 16 hash_bin) (\<lambda>h. Inr (concat (map hex2 h)))"

section \<open>Lemmas\<close>

lemma load_Some [simp]: "load (Some v) = Inr v" and load_None [simp]: "load None = Inl Uninit"
  by (simp_all add: load_def)

lemma read_cstr_Some [simp]: "length s < n \<Longrightarrow> read_cstr n (Some s) = Inr s"
  and read_cstr_None [simp]: "read_cstr n None = Inl Uninit"
  by (simp_all add: read_cstr_def)

lemma length_poke [simp]: "off + length xs \<le> length arr \<Longrightarrow> length (poke off xs arr) = length arr"
  by (simp add: poke_def)

lemma poke_all [simp]: "length xs = length arr \<Longrightarrow> poke 0 xs arr = xs"
  by (simp add: poke_def)

lemma take_poke: "off = 0 \<Longrightarrow> n = length xs \<Longrightarrow> take n (poke off xs arr) = xs"
  by (simp add: poke_def)

lemma c_str_text: "CHR 0x00 \<notin> set s \<Longrightarrow> c_str s = s"
  by (auto simp: c_str_def takeWhile_eq_all_conv)

lemma strncpy_text: "CHR 0x00 \<notin> set s \<Longrightarrow> length s \<le> n \<Longrightarrow> strncpy n s = s"
  by (simp add: strncpy_def c_str_text)

lemma snprintf_text: "CHR 0x00 \<notin> set s \<Longrightarrow> length s < n \<Longrightarrow> snprintf n s = s"
  by (simp add: snprintf_def c_str_text)

lemma dec_of_nat_no_NUL [simp]: "CHR 0x00 \<notin> set (dec_of_nat n)"
  using dec_of_nat_digits [of "CHR 0x00" n] by auto

lemma inet_ntop4_no_NUL [simp]: "CHR 0x00 \<notin> set (inet_ntop4 b)"
  by (simp add: inet_ntop4_def)

lemma length_dec_of_byte: "length (dec_of_nat (unat (b :: u8))) \<le> 3"
  using length_dec_of_nat [of "unat b" 2] unat_u8_less [of b] by simp

lemma inet_ntop4_length: "length (inet_ntop4 b) \<le> 15"
  using length_dec_of_byte [of "b ! 0"] length_dec_of_byte [of "b ! 1"] length_dec_of_byte [of "b ! 2"]
    length_dec_of_byte [of "b ! 3"] by (simp add: inet_ntop4_def)

end
