(* ===== verification/RedisBus.thy ===== *)
theory RedisBus
  imports MsgBus "HOL-Library.AList"
begin

text \<open>
  \<open>redis/MsgBusImpl_redis.cpp\<close> and \<open>RedisManager.cpp\<close>: the bus that keeps the neighbours and the routes in Redis.
  The swss client library is outside the sources: \<open>'db swss\<close> has the three calls the manager makes, and the
  locale \<open>swss_store\<close> the behaviour they are documented to have, \<open>view\<close> being the hashes of the database by
  their full key. The refinement of the last section relates the keys that the bus builds from texts to a
  routing table indexed by table, prefix and neighbour.
\<close>

section \<open>The client library\<close>

record 'db swss =
  table_set :: "string \<Rightarrow> string \<Rightarrow> (string \<times> string) list \<Rightarrow> 'db \<Rightarrow> 'db"
  table_getKeys :: "string \<Rightarrow> 'db \<Rightarrow> string list"
  db_del :: "string list \<Rightarrow> 'db \<Rightarrow> 'db"

type_synonym hashes = "string \<Rightarrow> (string \<rightharpoonup> string) option"

text \<open>\<open>HSET\<close>: the given fields are written, the others of the hash stay.\<close>

definition hset :: "string \<Rightarrow> (string \<times> string) list \<Rightarrow> hashes \<Rightarrow> hashes" where
  "hset k fvs h = h(k \<mapsto> (case h k of None \<Rightarrow> Map.empty | Some m \<Rightarrow> m) ++ map_of (rev fvs))"

locale swss_store =
  fixes sw :: "'db swss" and view :: "'db \<Rightarrow> hashes" and sep :: char
  assumes view_set: "fvs \<noteq> [] \<Longrightarrow> view (table_set sw t k fvs db) = hset (t @ [sep] @ k) fvs (view db)"
    and view_del: "view (db_del sw ks db) = (\<lambda>k. if k \<in> set ks then None else view db k)"
    and keys_of: "sep \<notin> set t \<Longrightarrow> k \<in> set (table_getKeys sw t db) \<longleftrightarrow> view db (t @ [sep] @ k) \<noteq> None"

section \<open>RedisManager\<close>

definition BMP_TABLE_NEI :: string where "BMP_TABLE_NEI = ''BGP_NEIGHBOR_TABLE''"
definition BMP_TABLE_RIB_IN :: string where "BMP_TABLE_RIB_IN = ''BGP_RIB_IN_TABLE''"
definition BMP_TABLE_RIB_OUT :: string where "BMP_TABLE_RIB_OUT = ''BGP_RIB_OUT_TABLE''"
definition BMP_CFG_TABLE_NEI :: string where "BMP_CFG_TABLE_NEI = ''bgp_neighbor_table''"
definition BMP_CFG_TABLE_RIB_IN :: string where "BMP_CFG_TABLE_RIB_IN = ''bgp_rib_in_table''"
definition BMP_CFG_TABLE_RIB_OUT :: string where "BMP_CFG_TABLE_RIB_OUT = ''bgp_rib_out_table''"

lemmas table_names = BMP_TABLE_NEI_def BMP_TABLE_RIB_IN_def BMP_TABLE_RIB_OUT_def
lemmas cfg_names = BMP_CFG_TABLE_NEI_def BMP_CFG_TABLE_RIB_IN_def BMP_CFG_TABLE_RIB_OUT_def

record 'db RedisManager =
  stateDb :: 'db
  separator :: string
  enabledTables :: "string list"   \<comment> \<open>a set: no table occurs twice\<close>

definition GetKeySeparator :: "'db RedisManager \<Rightarrow> string" where
  "GetKeySeparator m = separator m"

definition WriteBMPTable :: "'db swss \<Rightarrow> string \<Rightarrow> string list \<Rightarrow> (string \<times> string) list \<Rightarrow> 'db RedisManager \<Rightarrow> (bool \<times> 'db RedisManager) result" where
  "WriteBMPTable sw table keys fieldValues m =
     (if table \<notin> set (enabledTables m) then Inr (False, m)
      else let oss = concat (map (\<lambda>key. key @ separator m) keys)
           in if oss = [] then Inl OutOfBounds
              else Inr (True, m\<lparr>stateDb := table_set sw table (butlast oss) fieldValues (stateDb m)\<rparr>))"

definition RemoveEntityFromBMPTable :: "'db swss \<Rightarrow> string list \<Rightarrow> 'db RedisManager \<Rightarrow> 'db RedisManager" where
  "RemoveEntityFromBMPTable sw keys m = m\<lparr>stateDb := db_del sw keys (stateDb m)\<rparr>"

text \<open>The fields of the entry \<open>BMP|table\<close> of the configuration database decide which tables are written.\<close>

definition enable_field :: "'db RedisManager \<Rightarrow> string \<times> string \<Rightarrow> 'db RedisManager" where
  "enable_field m item =
     (let field = fst item; value = snd item;
          m = (if field = BMP_CFG_TABLE_NEI \<and> value = ''true''
               then m\<lparr>enabledTables := List.insert BMP_TABLE_NEI (enabledTables m)\<rparr> else m);
          m = (if field = BMP_CFG_TABLE_RIB_IN \<and> value = ''true''
               then m\<lparr>enabledTables := List.insert BMP_TABLE_RIB_IN (enabledTables m)\<rparr> else m)
      in if field = BMP_CFG_TABLE_RIB_OUT \<and> value = ''true''
         then m\<lparr>enabledTables := List.insert BMP_TABLE_RIB_OUT (enabledTables m)\<rparr> else m)"

definition InitBMPConfig :: "(string \<times> string) list \<Rightarrow> 'db RedisManager \<Rightarrow> 'db RedisManager" where
  "InitBMPConfig fvt m = foldl enable_field m fvt"

definition ResetBMPTable :: "'db swss \<Rightarrow> string \<Rightarrow> 'db RedisManager \<Rightarrow> 'db RedisManager" where
  "ResetBMPTable sw table m = m\<lparr>stateDb := db_del sw (table_getKeys sw table (stateDb m)) (stateDb m)\<rparr>"

definition ResetAllTables :: "'db swss \<Rightarrow> 'db RedisManager \<Rightarrow> 'db RedisManager" where
  "ResetAllTables sw m = fold (ResetBMPTable sw) (enabledTables m) m"

section \<open>MsgBusImpl\_redis\<close>

definition up_fields :: "obj_peer_up_event \<Rightarrow> (string \<times> string) list result" where
  "up_fields up =
     andThen (read_cstr 40 (Some (local_ip up))) (\<lambda>ip.
     andThen (read_cstr 4096 (Some (sent_cap up))) (\<lambda>sent.
     andThen (read_cstr 4096 (Some (recv_cap up))) (\<lambda>recv.
       Inr [(''remote_port'', dec_of_nat (remote_port up)), (''local_asn'', dec_of_nat (unat (local_asn up))),
            (''local_ip'', ip), (''local_port'', dec_of_nat (local_port up)), (''sent_cap'', sent), (''recv_cap'', recv)])))"

definition down_fields :: "obj_peer_down_event \<Rightarrow> (string \<times> string) list result" where
  "down_fields down =
     andThen (read_cstr 255 (Some (down_error_text down))) (\<lambda>t.
       Inr [(''bgp_err_code'', dec_of_nat (unat (bgp_err_code down))),
            (''bgp_err_subcode'', dec_of_nat (unat (bgp_err_subcode down))), (''error_text'', t)])"

definition redis_update_Peer :: "'db swss \<Rightarrow> obj_bgp_peer \<Rightarrow> obj_peer_up_event option \<Rightarrow> obj_peer_down_event option \<Rightarrow>
    peer_action_code \<Rightarrow> 'db RedisManager \<Rightarrow> (obj_bgp_peer \<times> 'db RedisManager) result" where
  "redis_update_Peer sw peer up down code m =
     andThen (read_cstr 46 (Some (peer_addr peer))) (\<lambda>addr.
     andThen (read_cstr 32 (Some (peer_rd peer))) (\<lambda>pd.
     andThen (case up of None \<Rightarrow> Inr [] | Some u \<Rightarrow> up_fields u) (\<lambda>ups.
     andThen (case code of PEER_ACTION_DOWN \<Rightarrow> (case down of None \<Rightarrow> Inr [] | Some d \<Rightarrow> down_fields d) | _ \<Rightarrow> Inr []) (\<lambda>downs.
     andThen (WriteBMPTable sw BMP_TABLE_NEI [addr]
         ([(''peer_addr'', addr), (''peer_asn'', dec_of_nat (unat (peer_as peer))), (''peer_rd'', pd)] @ ups @ downs) m) (\<lambda>(_, m).
       Inr (peer, m))))))"

definition announce_fields :: "obj_path_attr \<Rightarrow> (string \<times> string) list result" where
  "announce_fields attr =
     andThen (read_cstr 16 (origin attr)) (\<lambda>org.
     andThen (load (as_path_count attr)) (\<lambda>cnt.
     andThen (load (origin_as attr)) (\<lambda>oas.
     andThen (read_cstr 40 (attr_next_hop attr)) (\<lambda>nh.
     andThen (load (local_pref attr)) (\<lambda>lp.
     andThen (read_cstr 16 (originator_id attr)) (\<lambda>oid.
       Inr [(''origin'', org), (''as_path'', as_path attr), (''as_path_count'', dec_of_nat (unat cnt)),
            (''origin_as'', dec_of_nat (unat oas)), (''next_hop'', nh), (''local_pref'', dec_of_nat (unat lp)),
            (''community_list'', community_list attr), (''ext_community_list'', ext_community_list attr),
            (''large_community_list'', large_community_list attr), (''originator_id'', oid)]))))))"

definition rib_table :: "obj_bgp_peer \<Rightarrow> string" where
  "rib_table peer = (if isAdjIn peer then BMP_TABLE_RIB_IN else BMP_TABLE_RIB_OUT)"

definition rib_pfx :: "obj_rib \<Rightarrow> string result" where
  "rib_pfx r = andThen (read_cstr 46 (Some (rib_prefix r))) (\<lambda>p. Inr (p @ ''/'' @ dec_of_nat (unat (rib_prefix_len r))))"

fun rib_loop :: "'db swss \<Rightarrow> obj_bgp_peer \<Rightarrow> string \<Rightarrow> obj_path_attr \<Rightarrow> unicast_prefix_action_code \<Rightarrow> obj_rib list \<Rightarrow>
    string list \<Rightarrow> 'db RedisManager \<Rightarrow> (string list \<times> 'db RedisManager) result" where
  "rib_loop sw peer neigh attr code [] del_keys m = Inr (del_keys, m)"
| "rib_loop sw peer neigh attr code (r # rib) del_keys m =
     andThen (rib_pfx r) (\<lambda>pfx.
       case code of
         UNICAST_PREFIX_ACTION_ADD \<Rightarrow>
           andThen (announce_fields attr) (\<lambda>fvs.
           andThen (WriteBMPTable sw (rib_table peer) [pfx, neigh] fvs m) (\<lambda>(_, m).
             rib_loop sw peer neigh attr code rib del_keys m))
       | UNICAST_PREFIX_ACTION_DEL \<Rightarrow>
           rib_loop sw peer neigh attr code rib
             (del_keys @ [rib_table peer @ GetKeySeparator m @ pfx @ GetKeySeparator m @ neigh]) m)"

definition redis_update_unicastPrefix :: "'db swss \<Rightarrow> obj_bgp_peer \<Rightarrow> obj_rib list \<Rightarrow> obj_path_attr option \<Rightarrow>
    unicast_prefix_action_code \<Rightarrow> 'db RedisManager \<Rightarrow> 'db RedisManager result" where
  "redis_update_unicastPrefix sw peer rib attr code m =
     (case attr of
        None \<Rightarrow> Inr m
      | Some a \<Rightarrow>
          andThen (read_cstr 46 (Some (peer_addr peer))) (\<lambda>neigh.
          andThen (rib_loop sw peer neigh a code rib [] m) (\<lambda>(del_keys, m).
            if del_keys \<noteq> [] then Inr (RemoveEntityFromBMPTable sw del_keys m) else Inr m)))"

text \<open>The other methods of the bus are empty. \<open>ribSeq\<close> is a member that this bus never writes.\<close>

definition redis_bus :: "'db swss \<Rightarrow> u64 \<Rightarrow> 'db RedisManager msg_bus" where
  "redis_bus sw seq0 = \<lparr>update_Collector = (\<lambda>_ _. Inr), update_Router = (\<lambda>r _ m. Inr (r, m)), update_Peer = redis_update_Peer sw,
     update_baseAttribute = (\<lambda>_ a m. Inr (a, m)), update_unicastPrefix = redis_update_unicastPrefix sw,
     update_L3Vpn = (\<lambda>_ _ _ _. Inr), update_eVPN = (\<lambda>_ _ _ _. Inr),
     update_LsNode = (\<lambda>_ _ _ _. Inr), update_LsLink = (\<lambda>_ _ _ _. Inr), update_LsPrefix = (\<lambda>_ _ _ _. Inr), add_StatReport = (\<lambda>_ _. Inr),
     send_bmp_raw = (\<lambda>_ _ _. Inr), ribSeq = (\<lambda>_. seq0)\<rparr>"

text \<open>
  The bus as its constructor leaves it: the manager is set up on the connected database and reads which
  tables are enabled.
\<close>

definition new_RedisManager :: "'db \<Rightarrow> string \<Rightarrow> (string \<times> string) list \<Rightarrow> 'db RedisManager" where
  "new_RedisManager db sepa fvt = InitBMPConfig fvt \<lparr>stateDb = db, separator = sepa, enabledTables = []\<rparr>"

section \<open>A store with the documented behaviour\<close>

text \<open>The hashes in memory, as a list of keys with their fields.\<close>

type_synonym mem_db = "(string \<times> (string \<times> string) list) list"

definition mem_view :: "mem_db \<Rightarrow> hashes" where
  "mem_view db k = map_option map_of (map_of db k)"

definition mem_redis :: "char \<Rightarrow> mem_db swss" where
  "mem_redis c = \<lparr>
     table_set = (\<lambda>t k fvs db. let key = t @ [c] @ k
       in AList.update key (rev fvs @ (case map_of db key of None \<Rightarrow> [] | Some old \<Rightarrow> old)) db),
     table_getKeys = (\<lambda>t db. map (drop (length t + 1)) (filter (\<lambda>k. take (length t + 1) k = t @ [c]) (map fst db))),
     db_del = (\<lambda>ks db. filter (\<lambda>e. fst e \<notin> set ks) db)\<rparr>"

lemma map_of_filter_keys: "map_of (filter (\<lambda>e. fst e \<notin> S) db) k = (if k \<in> S then None else map_of db k)"
  by (induction db) auto

lemma map_of_None_fst: "map_of db k \<noteq> None \<longleftrightarrow> k \<in> fst ` set db"
  by (simp add: map_of_eq_None_iff)

interpretation mem: swss_store "mem_redis c" mem_view c
proof
  fix fvs :: "(string \<times> string) list" and t k db
  show "mem_view (table_set (mem_redis c) t k fvs db) = hset (t @ [c] @ k) fvs (mem_view db)"
    by (rule ext) (simp add: mem_redis_def mem_view_def hset_def update_conv Let_def split: option.split)
next
  fix ks db
  show "mem_view (db_del (mem_redis c) ks db) = (\<lambda>k. if k \<in> set ks then None else mem_view db k)"
    by (rule ext) (simp add: mem_redis_def mem_view_def map_of_filter_keys)
next
  fix t k db
  have "k \<in> set (table_getKeys (mem_redis c) t db) \<longleftrightarrow> t @ [c] @ k \<in> fst ` set db"
  proof
    assume "k \<in> set (table_getKeys (mem_redis c) t db)"
    then obtain key where key: "key \<in> fst ` set db" "take (length t + 1) key = t @ [c]" "k = drop (length t + 1) key"
      by (auto simp: mem_redis_def)
    then have "key = t @ [c] @ k" by (metis append_assoc append_take_drop_id)
    with key(1) show "t @ [c] @ k \<in> fst ` set db" by simp
  next
    assume "t @ [c] @ k \<in> fst ` set db"
    then show "k \<in> set (table_getKeys (mem_redis c) t db)"
      by (force simp: mem_redis_def image_iff)
  qed
  then show "k \<in> set (table_getKeys (mem_redis c) t db) \<longleftrightarrow> mem_view db (t @ [c] @ k) \<noteq> None"
    by (simp add: mem_view_def map_of_eq_None_iff)
qed

section \<open>The routing table behind the keys\<close>

text \<open>
  The abstract state: the fields of a route by table, prefix text and neighbour. An announcement merges the
  fields into the entries of its prefixes, a withdrawal removes them.
\<close>

type_synonym rib_db = "string \<Rightarrow> string \<Rightarrow> string \<Rightarrow> (string \<rightharpoonup> string) option"

definition rib_view :: "char \<Rightarrow> hashes \<Rightarrow> rib_db" where
  "rib_view c h t p n = (if c \<in> set t \<or> c \<in> set p then None else h (t @ [c] @ p @ [c] @ n))"

definition rib_spec :: "unicast_prefix_action_code \<Rightarrow> string \<Rightarrow> string \<Rightarrow> (string \<times> string) list \<Rightarrow> string list \<Rightarrow> rib_db \<Rightarrow> rib_db" where
  "rib_spec code t n fvs ps R t' p' n' =
     (if t' = t \<and> n' = n \<and> p' \<in> set ps
      then (case code of
              UNICAST_PREFIX_ACTION_ADD \<Rightarrow> Some ((case R t p' n of None \<Rightarrow> Map.empty | Some m \<Rightarrow> m) ++ map_of (rev fvs))
            | UNICAST_PREFIX_ACTION_DEL \<Rightarrow> None)
      else R t' p' n')"

text \<open>A separator that occurs in no table name, length or address.\<close>

definition key_sep :: "char \<Rightarrow> bool" where
  "key_sep c \<longleftrightarrow> c \<notin> set (BMP_TABLE_NEI @ BMP_TABLE_RIB_IN @ BMP_TABLE_RIB_OUT @ ''/0123456789:abcdef.'')"

definition rib_ok :: "char \<Rightarrow> obj_rib \<Rightarrow> bool" where
  "rib_ok c r \<longleftrightarrow> length (rib_prefix r) < 46 \<and> c \<notin> set (rib_prefix r)"

definition pfx_text :: "obj_rib \<Rightarrow> string" where
  "pfx_text r = rib_prefix r @ ''/'' @ dec_of_nat (unat (rib_prefix_len r))"

lemma rib_pfx_run: "rib_ok c r \<Longrightarrow> rib_pfx r = Inr (pfx_text r)"
  by (simp add: rib_pfx_def rib_ok_def pfx_text_def)

lemma digit_chars: "(of_char c :: nat) \<in> {48..57} \<Longrightarrow> c \<in> set ''0123456789''"
proof -
  assume "(of_char c :: nat) \<in> {48..57}"
  then have "(of_char c :: nat) \<in> set [48..<58]" unfolding set_upt by simp
  then have "char_of (of_char c :: nat) \<in> char_of ` set [48..<58]" by (rule imageI)
  then have "c \<in> set (map char_of [48..<58])" by (simp only: char_of_char set_map)
  then show ?thesis by (simp add: upt_rec char_of_def bit_Suc_0_iff)
qed

lemma key_sep_dec: "key_sep c \<Longrightarrow> c \<notin> set (dec_of_nat n)"
  using digit_chars [of c] dec_of_nat_digits [of c n] by (auto simp: key_sep_def)

lemma pfx_text_sep: "key_sep c \<Longrightarrow> rib_ok c r \<Longrightarrow> c \<notin> set (pfx_text r)"
  using key_sep_dec [of c] by (auto simp: pfx_text_def rib_ok_def key_sep_def)

lemma rib_table_sep: "key_sep c \<Longrightarrow> c \<notin> set (rib_table peer)"
  by (simp add: key_sep_def rib_table_def)

lemma sep_split:
  "c \<notin> set xs \<Longrightarrow> c \<notin> set ys \<Longrightarrow> xs @ [c] @ u = ys @ [c] @ v \<longleftrightarrow> xs = ys \<and> u = v"
proof (induction xs arbitrary: ys)
  case Nil
  then show ?case by (cases ys) auto
next
  case (Cons x xs)
  then show ?case by (cases ys) auto
qed

lemma rib_key_inject:
  assumes "c \<notin> set t" "c \<notin> set p" "c \<notin> set t'" "c \<notin> set p'"
  shows "t @ [c] @ p @ [c] @ n = t' @ [c] @ p' @ [c] @ n' \<longleftrightarrow> t = t' \<and> p = p' \<and> n = n'"
  using assms sep_split [of c t t' "p @ [c] @ n" "p' @ [c] @ n'"] sep_split [of c p p' n n'] by auto

lemma rib_view_hset:
  assumes "c \<notin> set t" "c \<notin> set p"
  shows "rib_view c (hset (t @ [c] @ p @ [c] @ n) fvs h) = rib_spec UNICAST_PREFIX_ACTION_ADD t n fvs [p] (rib_view c h)"
  using assms rib_key_inject [of c _ _ t p _ n]
  by (intro ext) (simp add: rib_view_def hset_def rib_spec_def del: append_Cons append_Nil)

lemma rib_view_del:
  assumes "c \<notin> set t" "\<forall>p\<in>set ps. c \<notin> set p"
  shows "rib_view c (\<lambda>k. if k \<in> set (map (\<lambda>p. t @ [c] @ p @ [c] @ n) ps) then None else h k) =
    rib_spec UNICAST_PREFIX_ACTION_DEL t n fvs ps (rib_view c h)"
  using assms rib_key_inject [of c _ _ t _ _ n]
  by (intro ext) (auto simp add: rib_view_def rib_spec_def simp del: append_Cons append_Nil)

lemma rib_spec_Nil: "rib_spec code t n fvs [] R = R"
  by (intro ext) (simp add: rib_spec_def)

lemma rib_spec_Cons:
  "rib_spec UNICAST_PREFIX_ACTION_ADD t n fvs ps (rib_spec UNICAST_PREFIX_ACTION_ADD t n fvs [p] R) =
   rib_spec UNICAST_PREFIX_ACTION_ADD t n fvs (p # ps) R"
  by (intro ext) (auto simp: rib_spec_def map_add_subsumed1 simp flip: map_add_assoc)

context swss_store
begin

lemma write_run:
  assumes "separator m = [sep]" "t \<in> set (enabledTables m)" "fvs \<noteq> []"
  obtains m' where "WriteBMPTable sw t [p, n] fvs m = Inr (True, m')"
    "view (stateDb m') = hset (t @ [sep] @ p @ [sep] @ n) fvs (view (stateDb m))"
    "separator m' = separator m" "enabledTables m' = enabledTables m"
proof -
  have "butlast (p @ [sep] @ n @ [sep]) = p @ [sep] @ n" by (metis append_assoc butlast_snoc)
  then show ?thesis
    using assms view_set [OF assms(3), of t "p @ [sep] @ n"]
    by (intro that [of "m\<lparr>stateDb := table_set sw t (p @ [sep] @ n) fvs (stateDb m)\<rparr>"]) (simp_all add: WriteBMPTable_def)
qed

lemma announce_run:
  assumes "key_sep sep" "separator m = [sep]" "rib_table peer \<in> set (enabledTables m)" "announce_fields a = Inr fvs"
    "list_all (rib_ok sep) rib"
  obtains m' where "rib_loop sw peer n a UNICAST_PREFIX_ACTION_ADD rib ds m = Inr (ds, m')"
    "rib_view sep (view (stateDb m')) =
      rib_spec UNICAST_PREFIX_ACTION_ADD (rib_table peer) n fvs (map pfx_text rib) (rib_view sep (view (stateDb m)))"
    "separator m' = separator m" "enabledTables m' = enabledTables m"
  using assms
proof (induction rib arbitrary: m thesis)
  case Nil
  then show ?case by (simp add: rib_spec_Nil)
next
  case (Cons r rib)
  have ne: "fvs \<noteq> []" using Cons.prems(5) by (auto simp: announce_fields_def andThen_eq_Inr)
  have ok: "rib_ok sep r" using Cons.prems(6) by simp
  obtain m1 where m1: "WriteBMPTable sw (rib_table peer) [pfx_text r, n] fvs m = Inr (True, m1)"
    "view (stateDb m1) = hset (rib_table peer @ [sep] @ pfx_text r @ [sep] @ n) fvs (view (stateDb m))"
    "separator m1 = separator m" "enabledTables m1 = enabledTables m"
    using write_run [OF Cons.prems(3,4) ne] by blast
  obtain m2 where m2: "rib_loop sw peer n a UNICAST_PREFIX_ACTION_ADD rib ds m1 = Inr (ds, m2)"
    "rib_view sep (view (stateDb m2)) =
      rib_spec UNICAST_PREFIX_ACTION_ADD (rib_table peer) n fvs (map pfx_text rib) (rib_view sep (view (stateDb m1)))"
    "separator m2 = separator m1" "enabledTables m2 = enabledTables m1"
    using Cons.IH [of m1] Cons.prems m1 by auto
  show ?case
  proof (rule Cons.prems(1))
    show "rib_loop sw peer n a UNICAST_PREFIX_ACTION_ADD (r # rib) ds m = Inr (ds, m2)"
      using m1 m2 Cons.prems(5) by (simp add: rib_pfx_run [OF ok])
    show "rib_view sep (view (stateDb m2)) =
      rib_spec UNICAST_PREFIX_ACTION_ADD (rib_table peer) n fvs (map pfx_text (r # rib)) (rib_view sep (view (stateDb m)))"
      unfolding m2 m1(2) rib_view_hset [OF rib_table_sep [OF Cons.prems(2)] pfx_text_sep [OF Cons.prems(2) ok]]
      by (simp add: rib_spec_Cons)
  qed (use m1 m2 in simp_all)
qed

lemma withdraw_run:
  assumes "separator m = [sep]" "list_all (rib_ok sep) rib"
  shows "rib_loop sw peer n a UNICAST_PREFIX_ACTION_DEL rib ds m =
    Inr (ds @ map (\<lambda>p. rib_table peer @ [sep] @ p @ [sep] @ n) (map pfx_text rib), m)"
  using assms
  by (induction rib arbitrary: ds) (simp_all add: rib_pfx_run [where c = sep] GetKeySeparator_def)

lemma unicast_refines:
  assumes "key_sep sep" "separator m = [sep]" "rib_table peer \<in> set (enabledTables m)" "announce_fields a = Inr fvs"
    "list_all (rib_ok sep) rib" "length (peer_addr peer) < 46"
  shows "\<exists>m'. redis_update_unicastPrefix sw peer rib (Some a) code m = Inr m' \<and>
    rib_view sep (view (stateDb m')) =
      rib_spec code (rib_table peer) (peer_addr peer) fvs (map pfx_text rib) (rib_view sep (view (stateDb m))) \<and>
    separator m' = separator m \<and> enabledTables m' = enabledTables m"
proof (cases code)
  case UNICAST_PREFIX_ACTION_ADD
  obtain m' where m': "rib_loop sw peer (peer_addr peer) a UNICAST_PREFIX_ACTION_ADD rib [] m = Inr ([], m')"
    "rib_view sep (view (stateDb m')) = rib_spec UNICAST_PREFIX_ACTION_ADD (rib_table peer) (peer_addr peer) fvs
      (map pfx_text rib) (rib_view sep (view (stateDb m)))"
    "separator m' = separator m" "enabledTables m' = enabledTables m"
    by (rule announce_run [OF assms(1-5)])
  have "redis_update_unicastPrefix sw peer rib (Some a) code m = Inr m'"
    using m'(1) assms(6) by (simp add: UNICAST_PREFIX_ACTION_ADD redis_update_unicastPrefix_def)
  with m'(2-) show ?thesis unfolding UNICAST_PREFIX_ACTION_ADD by blast
next
  case UNICAST_PREFIX_ACTION_DEL
  have ps: "\<forall>p\<in>set (map pfx_text rib). sep \<notin> set p"
    using assms(1,5) by (auto simp: list_all_iff pfx_text_sep)
  show ?thesis
  proof (cases "rib = []")
    case True
    with assms(6) show ?thesis by (simp add: redis_update_unicastPrefix_def rib_spec_Nil)
  next
    case False
    with assms(6) withdraw_run [OF assms(2,5), of peer "peer_addr peer" a "[]"]
      rib_view_del [OF rib_table_sep [OF assms(1)] ps, of peer "peer_addr peer" "view (stateDb m)" fvs]
    show ?thesis
      unfolding UNICAST_PREFIX_ACTION_DEL
      by (simp add: redis_update_unicastPrefix_def RemoveEntityFromBMPTable_def view_del)
  qed
qed

end

section \<open>Resetting\<close>

text \<open>What the bus can make of its database, by calls with addresses as \<open>inet_ntop\<close> prints them.\<close>

inductive redis_reach :: "'db swss \<Rightarrow> 'db RedisManager \<Rightarrow> 'db RedisManager \<Rightarrow> bool" for sw m0 where
  start: "redis_reach sw m0 m0"
| peer: "redis_reach sw m0 m \<Longrightarrow> CHR ''_'' \<notin> set (peer_addr p) \<Longrightarrow>
    redis_update_Peer sw p up down code m = Inr (p', m') \<Longrightarrow> redis_reach sw m0 m'"
| unicast: "redis_reach sw m0 m \<Longrightarrow> CHR ''_'' \<notin> set (peer_addr p) \<Longrightarrow> list_all (\<lambda>r. CHR ''_'' \<notin> set (rib_prefix r)) rib \<Longrightarrow>
    redis_update_unicastPrefix sw p rib attr acode m = Inr m' \<Longrightarrow> redis_reach sw m0 m'"
| reset: "redis_reach sw m0 m \<Longrightarrow> redis_reach sw m0 (ResetAllTables sw m)"

definition bmp_tables :: "string list" where
  "bmp_tables = [BMP_TABLE_NEI, BMP_TABLE_RIB_IN, BMP_TABLE_RIB_OUT]"

text \<open>Every key of the database is a table name and a text without underscore.\<close>

definition bus_keys :: "char \<Rightarrow> hashes \<Rightarrow> bool" where
  "bus_keys c h \<longleftrightarrow> (\<forall>k. h k \<noteq> None \<longrightarrow> (\<exists>t\<in>set bmp_tables. \<exists>x. k = t @ [c] @ x \<and> CHR ''_'' \<notin> set x))"

lemma key_sep_table: "key_sep c \<Longrightarrow> t \<in> set bmp_tables \<Longrightarrow> c \<notin> set t" "t \<in> set bmp_tables \<Longrightarrow> CHR ''_'' \<in> set t"
  by (auto simp: bmp_tables_def key_sep_def table_names)

lemma key_sep_underscore: "key_sep c \<Longrightarrow> c \<noteq> CHR ''_''"
  by (auto simp: key_sep_def table_names)

lemma bus_keys_stripped:
  assumes "bus_keys c h" "key_sep c" "t \<in> set bmp_tables" "h (t @ [c] @ x) \<noteq> None"
  shows "h x = None"
proof (rule ccontr)
  assume "h x \<noteq> None"
  then obtain t1 y where t1: "t1 \<in> set bmp_tables" "x = t1 @ [c] @ y" using assms(1) by (auto simp: bus_keys_def)
  obtain t2 z where t2: "t2 \<in> set bmp_tables" "t @ [c] @ x = t2 @ [c] @ z" "CHR ''_'' \<notin> set z"
    using assms(1,4) unfolding bus_keys_def by blast
  then have "x = z" using sep_split [of c t t2 x z] key_sep_table(1) [OF assms(2)] assms(3) by simp
  then show False using t1 t2(3) key_sep_table(2) [OF t1(1)] by auto
qed

lemma bus_keys_hset: "bus_keys c h \<Longrightarrow> t \<in> set bmp_tables \<Longrightarrow> CHR ''_'' \<notin> set x \<Longrightarrow> bus_keys c (hset (t @ [c] @ x) fvs h)"
  unfolding bus_keys_def hset_def by (metis fun_upd_apply)

lemma bus_keys_del: "bus_keys c h \<Longrightarrow> bus_keys c (\<lambda>k. if k \<in> S then None else h k)"
  unfolding bus_keys_def by simp

lemma enabled_InitBMPConfig: "set (enabledTables m) \<subseteq> set bmp_tables \<Longrightarrow> set (enabledTables (InitBMPConfig fvt m)) \<subseteq> set bmp_tables"
  unfolding InitBMPConfig_def
  by (induction fvt arbitrary: m) (simp_all add: enable_field_def Let_def bmp_tables_def)

lemma separator_InitBMPConfig: "separator (InitBMPConfig fvt m) = separator m" "stateDb (InitBMPConfig fvt m) = stateDb m"
  unfolding InitBMPConfig_def
  by (induction fvt arbitrary: m) (simp_all add: enable_field_def Let_def)

definition bus_inv :: "('db \<Rightarrow> hashes) \<Rightarrow> char \<Rightarrow> 'db RedisManager \<Rightarrow> bool" where
  "bus_inv view c m \<longleftrightarrow> separator m = [c] \<and> set (enabledTables m) \<subseteq> set bmp_tables \<and> bus_keys c (view (stateDb m))"

lemma dec_no_underscore: "CHR ''_'' \<notin> set (dec_of_nat n)"
  using dec_of_nat_digits [of "CHR ''_''" n] by auto

lemma rib_pfx_no_underscore: "rib_pfx r = Inr p \<Longrightarrow> CHR ''_'' \<notin> set (rib_prefix r) \<Longrightarrow> CHR ''_'' \<notin> set p"
  using dec_no_underscore [of "unat (rib_prefix_len r)"]
  by (auto simp: rib_pfx_def read_cstr_def andThen_eq_Inr split: if_splits)

lemma announce_fields_ne: "announce_fields a = Inr fvs \<Longrightarrow> fvs \<noteq> []"
  by (auto simp: announce_fields_def andThen_eq_Inr)

context swss_store
begin

lemma write_inv:
  assumes "key_sep sep" "bus_inv view sep m" "\<forall>k\<in>set ks. CHR ''_'' \<notin> set k" "fvs \<noteq> []"
    "WriteBMPTable sw t ks fvs m = Inr (b, m')"
  shows "bus_inv view sep m'"
proof (cases "t \<in> set (enabledTables m)")
  case True
  let ?k = "butlast (concat (map (\<lambda>key. key @ [sep]) ks))"
  have "CHR ''_'' \<notin> set (concat (map (\<lambda>key. key @ [sep]) ks))"
    using assms(1,3) key_sep_underscore by auto
  then have "CHR ''_'' \<notin> set ?k" by (meson in_set_butlastD)
  then have "bus_keys sep (hset (t @ [sep] @ ?k) fvs (view (stateDb m)))"
    using True assms(2) by (intro bus_keys_hset) (auto simp: bus_inv_def)
  with True assms view_set [OF assms(4), of t ?k "stateDb m"] show ?thesis
    by (auto simp: WriteBMPTable_def Let_def bus_inv_def split: if_splits)
next
  case False
  with assms(2,5) show ?thesis by (simp add: WriteBMPTable_def)
qed

lemma rib_loop_inv:
  "key_sep sep \<Longrightarrow> bus_inv view sep m \<Longrightarrow> CHR ''_'' \<notin> set n \<Longrightarrow> list_all (\<lambda>r. CHR ''_'' \<notin> set (rib_prefix r)) rib \<Longrightarrow>
   rib_loop sw peer n a code rib ds m = Inr (ds', m') \<Longrightarrow> bus_inv view sep m'"
proof (induction rib arbitrary: ds m)
  case (Cons r rib)
  then obtain p where p: "rib_pfx r = Inr p" by (auto simp: andThen_eq_Inr)
  show ?case
  proof (cases code)
    case UNICAST_PREFIX_ACTION_ADD
    with Cons.prems(5) p obtain fvs b m1 where
      w: "announce_fields a = Inr fvs" "WriteBMPTable sw (rib_table peer) [p, n] fvs m = Inr (b, m1)"
        "rib_loop sw peer n a code rib ds m1 = Inr (ds', m')"
      by (auto simp: andThen_eq_Inr)
    have "bus_inv view sep m1"
      by (rule write_inv [OF Cons.prems(1,2) _ announce_fields_ne [OF w(1)] w(2)])
        (use Cons.prems(3,4) rib_pfx_no_underscore [OF p] in simp)
    with Cons.IH [OF Cons.prems(1)] w(3) Cons.prems show ?thesis by simp
  next
    case UNICAST_PREFIX_ACTION_DEL
    with Cons p show ?thesis by simp
  qed
qed simp

lemma reset_noop:
  assumes "key_sep sep" "bus_inv view sep m"
  shows "bus_inv view sep (ResetBMPTable sw t m) \<and> (t \<in> set bmp_tables \<longrightarrow> view (stateDb (ResetBMPTable sw t m)) = view (stateDb m))"
proof
  show "bus_inv view sep (ResetBMPTable sw t m)"
    using assms(2) by (simp add: bus_inv_def ResetBMPTable_def view_del bus_keys_del)
  show "t \<in> set bmp_tables \<longrightarrow> view (stateDb (ResetBMPTable sw t m)) = view (stateDb m)"
    using assms keys_of [of t] key_sep_table(1) [OF assms(1), of t] bus_keys_stripped [of sep "view (stateDb m)" t]
    by (auto simp: bus_inv_def ResetBMPTable_def view_del)
qed

lemma reset_all_noop:
  assumes "key_sep sep" "bus_inv view sep m"
  shows "view (stateDb (ResetAllTables sw m)) = view (stateDb m) \<and> bus_inv view sep (ResetAllTables sw m)"
proof -
  have "set ts \<subseteq> set bmp_tables \<Longrightarrow> bus_inv view sep m \<Longrightarrow>
    view (stateDb (fold (ResetBMPTable sw) ts m)) = view (stateDb m) \<and> bus_inv view sep (fold (ResetBMPTable sw) ts m)" for ts m
    by (induction ts arbitrary: m) (use reset_noop [OF assms(1)] in simp_all)
  with assms(2) show ?thesis by (simp add: ResetAllTables_def bus_inv_def)
qed

lemma reach_inv:
  assumes "key_sep sep" "bus_inv view sep m0" "redis_reach sw m0 m"
  shows "bus_inv view sep m"
  using assms(3)
proof induction
  case start
  show ?case by fact
next
  case (peer m p up down code p' m')
  then obtain addr pd ups downs b where "addr = peer_addr p"
    "WriteBMPTable sw BMP_TABLE_NEI [addr] ([(''peer_addr'', addr), (''peer_asn'', dec_of_nat (unat (peer_as p))), (''peer_rd'', pd)] @ ups @ downs) m = Inr (b, m')"
    by (auto simp: redis_update_Peer_def read_cstr_def andThen_eq_Inr split: if_splits)
  from write_inv [OF assms(1) peer.IH _ _ this(2)] this(1) peer.hyps(2) show ?case by simp
next
  case (unicast m p rib attr acode m')
  show ?case
  proof (cases attr)
    case None
    with unicast show ?thesis by (simp add: redis_update_unicastPrefix_def)
  next
    case (Some a)
    with unicast.hyps(4) obtain ds m1 where m1: "rib_loop sw p (peer_addr p) a acode rib [] m = Inr (ds, m1)"
      "m' = (if ds \<noteq> [] then RemoveEntityFromBMPTable sw ds m1 else m1)"
      by (auto simp: redis_update_unicastPrefix_def read_cstr_def andThen_eq_Inr split: if_splits)
    from rib_loop_inv [OF assms(1) unicast.IH unicast.hyps(2,3) m1(1)] show ?thesis
      by (simp add: m1(2) bus_inv_def RemoveEntityFromBMPTable_def view_del bus_keys_del)
  qed
next
  case (reset m)
  with reset_all_noop [OF assms(1)] show ?case by blast
qed

end

section \<open>Properties\<close>

text \<open>
  C8. The Redis bus implements the routing table: with a separator that occurs in no key part, announcing
  routes with complete attributes merges the fields into exactly the entries of these prefixes and this
  neighbour in the table of the peer, and a withdrawal that has an attribute object removes exactly these
  entries; every other entry keeps its fields.
\<close>

theorem redis_refines_rib:
  assumes "swss_store sw view c" "key_sep c" "separator m = [c]" "rib_table peer \<in> set (enabledTables m)"
    "announce_fields a = Inr fvs" "list_all (rib_ok c) rib" "length (peer_addr peer) < 46"
  shows "\<exists>m'. redis_update_unicastPrefix sw peer rib (Some a) code m = Inr m' \<and>
    rib_view c (view (stateDb m')) =
      rib_spec code (rib_table peer) (peer_addr peer) fvs (map pfx_text rib) (rib_view c (view (stateDb m))) \<and>
    separator m' = separator m \<and> enabledTables m' = enabledTables m"
  using swss_store.unicast_refines [OF assms] .

definition sample_peer :: obj_bgp_peer where
  "sample_peer = \<lparr>peer_hash = replicate 16 0, router_hash_id = replicate 16 0, table_name = replicate 255 0, peer_rd = ''0:0'',
     peer_addr = ''192.0.2.1'', peer_bgp_id = ''10.0.0.1'', peer_as = 65001, isL3VPN = False, isPrePolicy = False,
     isAdjIn = False, isLocRib = False, isLocRibFiltered = False, peer_isIPv4 = True, isTwoOctet = False,
     timestamp_secs = 0, timestamp_us = 0\<rparr>"

definition sample_attr :: obj_path_attr where
  "sample_attr = new_path_attr\<lparr>origin := Some ''igp'', as_path_count := Some 0, origin_as := Some 0,
     attr_next_hop := Some ''192.0.2.1'', local_pref := Some 100, originator_id := Some []\<rparr>"

definition sample_rib :: obj_rib where
  "sample_rib = new_rib\<lparr>rib_prefix := ''10.0.0.0'', rib_prefix_len := 8\<rparr>"

definition sample_mgr :: "mem_db RedisManager" where
  "sample_mgr = new_RedisManager [] ''|'' [(''bgp_rib_out_table'', ''true''), (''bgp_neighbor_table'', ''true'')]"

lemma sample_mgr_fields:
  "stateDb sample_mgr = []" "separator sample_mgr = ''|''" "enabledTables sample_mgr = [BMP_TABLE_NEI, BMP_TABLE_RIB_OUT]"
  by (simp_all add: sample_mgr_def new_RedisManager_def InitBMPConfig_def enable_field_def cfg_names table_names Let_def List.insert_def)

lemma bar_key_sep: "key_sep CHR ''|''"
  by (simp add: key_sep_def table_names)

theorem redis_refines_rib_witness:
  "\<exists>m'. redis_update_unicastPrefix (mem_redis CHR ''|'') sample_peer [sample_rib] (Some sample_attr)
      UNICAST_PREFIX_ACTION_ADD sample_mgr = Inr m' \<and>
    map_option (\<lambda>f. f ''next_hop'') (rib_view CHR ''|'' (mem_view (stateDb m')) ''BGP_RIB_OUT_TABLE'' ''10.0.0.0/8'' ''192.0.2.1'') =
      Some (Some ''192.0.2.1'')"
proof -
  obtain fvs where f: "announce_fields sample_attr = Inr fvs" "map_of (rev fvs) ''next_hop'' = Some ''192.0.2.1''"
    by (simp add: announce_fields_def sample_attr_def)
  have p: "pfx_text sample_rib = ''10.0.0.0/8''"
    by (simp add: pfx_text_def sample_rib_def dec_of_nat.simps)
  have t: "rib_table sample_peer = ''BGP_RIB_OUT_TABLE''" "peer_addr sample_peer = ''192.0.2.1''"
    by (simp_all add: rib_table_def sample_peer_def table_names)
  obtain m' where m': "redis_update_unicastPrefix (mem_redis CHR ''|'') sample_peer [sample_rib] (Some sample_attr)
      UNICAST_PREFIX_ACTION_ADD sample_mgr = Inr m'"
    "rib_view CHR ''|'' (mem_view (stateDb m')) =
      rib_spec UNICAST_PREFIX_ACTION_ADD (rib_table sample_peer) (peer_addr sample_peer) fvs (map pfx_text [sample_rib])
        (rib_view CHR ''|'' (mem_view (stateDb sample_mgr)))"
    using redis_refines_rib [OF mem.swss_store_axioms bar_key_sep, of sample_mgr sample_peer sample_attr fvs "[sample_rib]"
        UNICAST_PREFIX_ACTION_ADD] f(1)
    by (auto simp: sample_mgr_fields rib_ok_def sample_rib_def rib_table_def sample_peer_def)
  show ?thesis
    using m'(1) f(2) unfolding m'(2) [THEN fun_cong, THEN fun_cong, THEN fun_cong]
    by (intro exI [of _ m']) (simp add: m'(2) rib_spec_def p t map_add_Some_iff split: option.split)
qed

text \<open>
  C34. Resetting the tables removes nothing: after any sequence of calls on a bus that started with an empty
  database, the keys the library lists for a table, which come without the table name, are not keys of the
  database, and deleting them leaves every entry in place.
\<close>

theorem reset_removes_nothing:
  assumes "swss_store sw view c" "key_sep c" "\<forall>k. view db k = None"
    "redis_reach sw (new_RedisManager db [c] fvt) m"
  shows "view (stateDb (ResetAllTables sw m)) = view (stateDb m)"
proof -
  have "bus_inv view c (new_RedisManager db [c] fvt)"
    using assms(3) enabled_InitBMPConfig [of "\<lparr>stateDb = db, separator = [c], enabledTables = []\<rparr>" fvt]
    by (simp add: bus_inv_def new_RedisManager_def separator_InitBMPConfig bus_keys_def)
  from swss_store.reach_inv [OF assms(1,2) this assms(4)] show ?thesis
    using swss_store.reset_all_noop [OF assms(1,2)] by blast
qed

theorem reset_removes_nothing_witness:
  "\<exists>m. redis_update_Peer (mem_redis CHR ''|'') sample_peer None None PEER_ACTION_FIRST sample_mgr = Inr (sample_peer, m) \<and>
     mem_view (stateDb (ResetAllTables (mem_redis CHR ''|'') m)) ''BGP_NEIGHBOR_TABLE|192.0.2.1'' \<noteq> None"
proof -
  obtain m where m: "redis_update_Peer (mem_redis CHR ''|'') sample_peer None None PEER_ACTION_FIRST sample_mgr = Inr (sample_peer, m)"
    "mem_view (stateDb m) ''BGP_NEIGHBOR_TABLE|192.0.2.1'' \<noteq> None"
    by (simp add: redis_update_Peer_def WriteBMPTable_def sample_mgr_fields sample_peer_def mem_redis_def mem_view_def
        table_names Let_def dec_of_nat.simps)
  have "redis_reach (mem_redis CHR ''|'') sample_mgr m"
    by (rule redis_reach.peer [OF redis_reach.start _ m(1)]) (simp add: sample_peer_def)
  moreover have "\<forall>k. mem_view [] k = None" by (simp add: mem_view_def)
  ultimately have "mem_view (stateDb (ResetAllTables (mem_redis CHR ''|'') m)) = mem_view (stateDb m)"
    using reset_removes_nothing [OF mem.swss_store_axioms bar_key_sep] unfolding sample_mgr_def by blast
  with m show ?thesis by auto
qed

end
