(* ===== verification/Evpn.thy ===== *)
theory Evpn
  imports UpdateData
begin

text \<open>
  \<open>bgp/EVPN.cpp\<close>: the parser of EVPN NLRI (RFC 7432) and the route distinguisher parser, which the VPN
  parser of \<open>MPReachAttr.cpp\<close> uses as well. \<open>data_pointer\<close> and the counters \<open>data_read\<close> and \<open>len\<close> are
  kept apart, since the code does not always advance them together.
\<close>

section \<open>Fields\<close>

definition esi_text :: "bytes \<Rightarrow> string" where
  "esi_text bs = join_colon (map hex2 (take 6 bs))"

definition parseEthernetSegmentIdentifier :: "bytes \<Rightarrow> string result" where
  "parseEthernetSegmentIdentifier d =
     andThen (rd_u8 d) (\<lambda>type.
       let p = drop 1 d; head = dec_of_nat (unat type) @ '' '' in
       if type = 0 then andThen (rd 9 p) (\<lambda>b. Inr (head @ concat (map hex2 b)))
       else if type = 1 \<or> type = 2 then
         andThen (rd 8 p) (\<lambda>b. Inr (head @ esi_text b @ '' '' @ dec_of_nat (le_val (SWAP_BYTES (drop 6 b) 2))))
       else if type = 3 then
         andThen (rd 9 p) (\<lambda>b. Inr (head @ esi_text b @ '' '' @ dec_of_int (int (esi_label 0 (drop 6 b)))))
       else if type = 4 \<or> type = 5 then
         andThen (rd 8 p) (\<lambda>b. Inr (head @ dec_of_int (int_of_u32 (le_val (SWAP_BYTES (take 4 b) 4))) @ '' '' @
           dec_of_int (int_of_u32 (le_val (SWAP_BYTES (drop 4 b) 4)))))
       else Inr head)"

text \<open>
  \<open>parseRouteDistinguisher\<close>. \<open>val_ss.clear()\<close> resets the error state of the stream and not its content,
  so in the types 0 and 2 the administrator is printed behind the assigned number.
\<close>

definition parseRouteDistinguisher :: "bytes \<Rightarrow> rd_tuple \<Rightarrow> rd_tuple result" where
  "parseRouteDistinguisher d t =
     andThen (rd 2 d) (\<lambda>h.
       let t = t\<lparr>rd_type := Some (h ! 1)\<rparr>; p = drop 2 d in
       if h ! 1 = 0 then andThen (rd 6 p) (\<lambda>b.
         let administration = le_val (SWAP_BYTES (take 2 b) 2); assigned = le_val (SWAP_BYTES (drop 2 b) 4);
             val_ss = dec_of_nat assigned
         in Inr (t\<lparr>rd_assigned_number := val_ss,
                   rd_administrator_subfield := val_ss @ dec_of_nat administration\<rparr>))
       else if h ! 1 = 1 then andThen (rd 6 p) (\<lambda>b.
         Inr (t\<lparr>rd_assigned_number := dec_of_nat (le_val (SWAP_BYTES (drop 4 b) 2)),
                rd_administrator_subfield := inet_ntop4 (take 4 b)\<rparr>))
       else if h ! 1 = 2 then andThen (rd 6 p) (\<lambda>b.
         let administration = le_val (SWAP_BYTES (take 4 b) 4); assigned = le_val (SWAP_BYTES (drop 4 b) 2);
             val_ss = dec_of_nat assigned
         in Inr (t\<lparr>rd_assigned_number := val_ss,
                   rd_administrator_subfield := val_ss @ dec_of_nat administration\<rparr>))
       else Inr t)"

text \<open>
  Three label bytes copied into a zeroed \<open>int\<close>, swapped, and shifted right by eight arithmetically.
\<close>

definition mpls_label :: "bytes \<Rightarrow> int" where
  "mpls_label bs = int_of_u32 (le_val (SWAP_BYTES (bs @ [0]) 4)) div 2 ^ 8"

section \<open>Routes\<close>

text \<open>The cursor of the loop: \<open>data_pointer\<close>, \<open>data_read\<close> and \<open>len\<close>.\<close>

record evpn_cursor =
  data_pointer :: bytes
  data_read :: nat
  rest_len :: int

definition advance :: "nat \<Rightarrow> evpn_cursor \<Rightarrow> evpn_cursor" where
  "advance n c = c\<lparr>data_pointer := drop n (data_pointer c), data_read := data_read c + n,
     rest_len := rest_len c - int n\<rparr>"

definition evpn_addr_bytes :: "u8 \<Rightarrow> nat" where
  "evpn_addr_bytes l = min (unat l div 8) 16"

definition evpn_ip_text :: "(bytes \<Rightarrow> string) \<Rightarrow> u8 \<Rightarrow> bytes \<Rightarrow> string" where
  "evpn_ip_text ntop6 l bs = print_ip ntop6 (\<not> unat l > 32) (pad16 bs)"

definition evpn_auto_discovery :: "nat \<Rightarrow> evpn_cursor \<Rightarrow> evpn_tuple \<Rightarrow> (evpn_cursor \<times> evpn_tuple) result" where
  "evpn_auto_discovery data_len c t =
     (if data_read c + 17 \<le> data_len
      then let p = data_pointer c in
        andThen (parseEthernetSegmentIdentifier p) (\<lambda>esi.
        andThen (rd 4 (drop 10 p)) (\<lambda>tag.
        andThen (rd 3 (drop 14 p)) (\<lambda>label.
          Inr (advance 17 c, t\<lparr>ethernet_segment_identifier := esi,
             ethernet_tag_id_hex := concat (map hex2 tag), mpls_label_1 := mpls_label label\<rparr>))))
      else Inr (c, t))"

definition evpn_mac_ip_ip :: "(bytes \<Rightarrow> string) \<Rightarrow> nat \<Rightarrow> evpn_cursor \<Rightarrow> evpn_tuple \<Rightarrow> (evpn_cursor \<times> evpn_tuple) result" where
  "evpn_mac_ip_ip ntop6 data_len c t =
     (let addr_bytes = evpn_addr_bytes (ip_len t)
      in if unat (ip_len t) > 0 \<and> addr_bytes + data_read c \<le> data_len
         then andThen (rd addr_bytes (data_pointer c)) (\<lambda>b.
                Inr (advance addr_bytes c, t\<lparr>ip := evpn_ip_text ntop6 (ip_len t) b\<rparr>))
         else Inr (c, t))"

definition evpn_mac_ip_label1 :: "nat \<Rightarrow> evpn_cursor \<Rightarrow> evpn_tuple \<Rightarrow> (evpn_cursor \<times> evpn_tuple) result" where
  "evpn_mac_ip_label1 data_len c t =
     (if data_read c + 3 \<le> data_len
      then andThen (rd 3 (data_pointer c)) (\<lambda>b. Inr (advance 3 c, t\<lparr>mpls_label_1 := mpls_label b\<rparr>))
      else Inr (c, t))"

definition evpn_mac_ip_label2 :: "evpn_cursor \<Rightarrow> evpn_tuple \<Rightarrow> (evpn_cursor \<times> evpn_tuple) result" where
  "evpn_mac_ip_label2 c t =
     (if rest_len c = 3
      then andThen (rd 3 (data_pointer c)) (\<lambda>b. Inr (advance 3 c, t\<lparr>mpls_label_2 := mpls_label b\<rparr>))
      else Inr (c, t))"

definition evpn_mac_ip :: "(bytes \<Rightarrow> string) \<Rightarrow> nat \<Rightarrow> evpn_cursor \<Rightarrow> evpn_tuple \<Rightarrow> (evpn_cursor \<times> evpn_tuple) result" where
  "evpn_mac_ip ntop6 data_len c t =
     (if data_read c + 25 \<le> data_len
      then let p = data_pointer c in
        andThen (parseEthernetSegmentIdentifier p) (\<lambda>esi.
        andThen (rd 4 (drop 10 p)) (\<lambda>tag.
        andThen (rd_u8 (drop 14 p)) (\<lambda>ml.
        andThen (parse_mac (drop 15 p)) (\<lambda>m.
        andThen (rd_u8 (drop 21 p)) (\<lambda>il.
        andThen (evpn_mac_ip_ip ntop6 data_len (advance 22 c)
                  (t\<lparr>ethernet_segment_identifier := esi, ethernet_tag_id_hex := concat (map hex2 tag),
                     mac_len := ml, mac := m, ip_len := il\<rparr>)) (\<lambda>(c, t).
        andThen (evpn_mac_ip_label1 data_len c t) (\<lambda>(c, t). evpn_mac_ip_label2 c t)))))))
      else Inr (c, t))"

definition evpn_multicast :: "(bytes \<Rightarrow> string) \<Rightarrow> nat \<Rightarrow> evpn_cursor \<Rightarrow> evpn_tuple \<Rightarrow> (evpn_cursor \<times> evpn_tuple) result" where
  "evpn_multicast ntop6 data_len c t =
     (if data_read c + 5 \<le> data_len
      then let p = data_pointer c in
        andThen (rd 4 p) (\<lambda>tag.
        andThen (rd_u8 (drop 4 p)) (\<lambda>l.
          let c = advance 5 c; addr_bytes = evpn_addr_bytes l;
              t = t\<lparr>ethernet_tag_id_hex := concat (map hex2 tag), originating_router_ip_len := l\<rparr>
          in if unat l > 0 \<and> addr_bytes + data_read c \<le> data_len
             then andThen (rd addr_bytes (data_pointer c)) (\<lambda>b.
                    Inr (advance addr_bytes c, t\<lparr>originating_router_ip := evpn_ip_text ntop6 l b\<rparr>))
             else Inr (c, t)))
      else Inr (c, t))"

text \<open>In the Ethernet segment case the pointer is not moved past the address.\<close>

definition evpn_segment :: "(bytes \<Rightarrow> string) \<Rightarrow> nat \<Rightarrow> evpn_cursor \<Rightarrow> evpn_tuple \<Rightarrow> (evpn_cursor \<times> evpn_tuple) result" where
  "evpn_segment ntop6 data_len c t =
     (if data_read c + 11 \<le> data_len
      then let p = data_pointer c in
        andThen (parseEthernetSegmentIdentifier p) (\<lambda>esi.
        andThen (rd_u8 (drop 10 p)) (\<lambda>l.
          let c = advance 11 c; addr_bytes = evpn_addr_bytes l;
              t = t\<lparr>ethernet_segment_identifier := esi, originating_router_ip_len := l\<rparr>
          in if unat l > 0 \<and> addr_bytes + data_read c \<le> data_len
             then andThen (rd addr_bytes (data_pointer c)) (\<lambda>b.
                    Inr (c\<lparr>data_read := data_read c + addr_bytes, rest_len := rest_len c - int addr_bytes\<rparr>,
                         t\<lparr>originating_router_ip := evpn_ip_text ntop6 l b\<rparr>))
             else Inr (c, t)))
      else Inr (c, t))"

definition evpn_empty :: evpn_tuple where
  "evpn_empty = \<lparr>evpn_rd = \<lparr>rd_administrator_subfield = [], rd_assigned_number = [], rd_type = None\<rparr>,
     evpn_path_id = 0, ethernet_segment_identifier = [], ethernet_tag_id_hex = [], mac_len = 0, mac = [],
     ip_len = 0, ip = [], mpls_label_1 = 0, mpls_label_2 = 0, originating_router_ip_len = 0,
     originating_router_ip = []\<rparr>"

definition evpn_body :: "(bytes \<Rightarrow> string) \<Rightarrow> u8 \<Rightarrow> nat \<Rightarrow> evpn_cursor \<Rightarrow> evpn_tuple \<Rightarrow> (evpn_cursor \<times> evpn_tuple) result" where
  "evpn_body ntop6 route_type data_len c t =
     (if route_type = 1 then evpn_auto_discovery data_len c t
      else if route_type = 2 then evpn_mac_ip ntop6 data_len c t
      else if route_type = 3 then evpn_multicast ntop6 data_len c t
      else if route_type = 4 then evpn_segment ntop6 data_len c t
      else Inr (c, t))"

definition evpn_route :: "(bytes \<Rightarrow> string) \<Rightarrow> nat \<Rightarrow> bytes \<Rightarrow> nat \<Rightarrow> (evpn_cursor \<times> evpn_tuple) result" where
  "evpn_route ntop6 data_len p n =
     andThen (rd 2 p) (\<lambda>h.
     andThen (parseRouteDistinguisher (drop 2 p) (evpn_rd evpn_empty)) (\<lambda>r.
       evpn_body ntop6 (h ! 0) data_len
         \<lparr>data_pointer = drop 10 p, data_read = n + 10, rest_len = int (unat (h ! 1)) - 8\<rparr>
         (evpn_empty\<lparr>evpn_rd := r\<rparr>)))"

lemmas evpn_body_defs = evpn_body_def evpn_auto_discovery_def evpn_mac_ip_def evpn_multicast_def evpn_segment_def
  evpn_mac_ip_ip_def evpn_mac_ip_label1_def evpn_mac_ip_label2_def

lemma data_read_advance [simp]: "data_read (advance n c) = data_read c + n"
  and data_pointer_advance [simp]: "data_pointer (advance n c) = drop n (data_pointer c)"
  and rest_len_advance [simp]: "rest_len (advance n c) = rest_len c - int n"
  by (simp_all add: advance_def)

lemma ESI_ret: "(\<And>s. P s) \<Longrightarrow> ret (parseEthernetSegmentIdentifier d) P"
  by (simp add: ret_def split: sum.split)

lemma evpn_mac_ip_read: "ret (evpn_mac_ip ntop6 data_len c t) (\<lambda>(c', _). data_read c \<le> data_read c')"
  by (simp add: evpn_mac_ip_def evpn_mac_ip_ip_def evpn_mac_ip_label1_def evpn_mac_ip_label2_def
      Let_def wp ESI_ret)

lemma evpn_body_read: "ret (evpn_body ntop6 rt data_len c t) (\<lambda>(c', _). data_read c \<le> data_read c')"
  using evpn_mac_ip_read [of ntop6 data_len c t]
  by (simp add: evpn_body_def evpn_auto_discovery_def evpn_multicast_def evpn_segment_def Let_def wp ESI_ret)

lemma evpn_route_read: "evpn_route ntop6 data_len p n = Inr (c, t) \<Longrightarrow> n + 10 \<le> data_read c"
  by (auto simp: evpn_route_def andThen_eq_Inr dest!: retD [OF evpn_body_read])

text \<open>The loop ends because every route moves \<open>data_read\<close> by at least ten.\<close>

function evpn_loop :: "(bytes \<Rightarrow> string) \<Rightarrow> nat \<Rightarrow> bytes \<Rightarrow> nat \<Rightarrow> evpn_tuple list \<Rightarrow> evpn_tuple list result" where
  "evpn_loop ntop6 data_len p n acc =
     (if n + 10 < data_len
      then andThen (evpn_route ntop6 data_len p n) (\<lambda>(c, t).
             evpn_loop ntop6 data_len (data_pointer c) (data_read c) (acc @ [t]))
      else Inr acc)"
  by pat_completeness auto
termination by (relation "measure (\<lambda>(_, data_len, _, n, _). data_len - n)") (auto dest: evpn_route_read)

declare evpn_loop.simps [simp del]

definition evpn_parseNlriData :: "(bytes \<Rightarrow> string) \<Rightarrow> bool \<Rightarrow> bytes \<Rightarrow> nat \<Rightarrow> 'ls parsed_update_data \<Rightarrow> 'ls parsed_update_data result" where
  "evpn_parseNlriData ntop6 isUnreach data data_len pd =
     (if isUnreach
      then andThen (evpn_loop ntop6 data_len data 0 (evpn_withdrawn pd)) (\<lambda>ts. Inr (pd\<lparr>evpn_withdrawn := ts\<rparr>))
      else andThen (evpn_loop ntop6 data_len data 0 (evpn pd)) (\<lambda>ts. Inr (pd\<lparr>evpn := ts\<rparr>)))"

section \<open>How far the parser reads\<close>

lemma ESI_tot: "10 \<le> length p \<Longrightarrow> (\<And>s. P s) \<Longrightarrow> tot (parseEthernetSegmentIdentifier p) P"
  by (auto simp: parseEthernetSegmentIdentifier_def Let_def wp)

lemma RD_tot: "8 \<le> length p \<Longrightarrow> (\<And>r. P r) \<Longrightarrow> tot (parseRouteDistinguisher p t) P"
  by (auto simp: parseRouteDistinguisher_def Let_def wp)

text \<open>
  The pointer never runs ahead of \<open>data_read\<close>: of a buffer of \<open>data_len + 3\<close> bytes there is at least left
  what the counter says.
\<close>

definition cursor_ok :: "nat \<Rightarrow> evpn_cursor \<Rightarrow> bool" where
  "cursor_ok data_len c \<longleftrightarrow> data_len + 3 \<le> length (data_pointer c) + data_read c"

lemma evpn_mac_ip_bounded:
  assumes "cursor_ok data_len c"
  shows "tot (evpn_mac_ip ntop6 data_len c t) (\<lambda>(c', _). cursor_ok data_len c')"
proof (cases "data_read c + 25 \<le> data_len")
  case True
  let ?L = "data_len + 3"
  have ip: "data_read c1 \<le> data_len \<Longrightarrow> cursor_ok data_len c1 \<Longrightarrow>
      tot (evpn_mac_ip_ip ntop6 data_len c1 t1) (\<lambda>(c', _). cursor_ok data_len c' \<and> data_read c' \<le> data_len)" for c1 t1
    by (auto simp: evpn_mac_ip_ip_def cursor_ok_def Let_def wp)
  have l1: "data_read c1 \<le> data_len \<Longrightarrow> cursor_ok data_len c1 \<Longrightarrow>
      tot (evpn_mac_ip_label1 data_len c1 t1) (\<lambda>(c', _). cursor_ok data_len c' \<and> data_read c' \<le> data_len)" for c1 t1
    by (auto simp: evpn_mac_ip_label1_def cursor_ok_def wp)
  have l2: "data_read c1 \<le> data_len \<Longrightarrow> cursor_ok data_len c1 \<Longrightarrow>
      tot (evpn_mac_ip_label2 c1 t1) (\<lambda>(c', _). cursor_ok data_len c')" for c1 t1
    by (auto simp: evpn_mac_ip_label2_def cursor_ok_def wp)
  have "tot (andThen (evpn_mac_ip_ip ntop6 data_len (advance 22 c) t1)
      (\<lambda>(c, t). andThen (evpn_mac_ip_label1 data_len c t) (\<lambda>(c, t). evpn_mac_ip_label2 c t)))
      (\<lambda>(c', _). cursor_ok data_len c')" for t1
    unfolding tot_wp(3)
  proof (rule tot_mono [OF ip], goal_cases)
    case (3 x)
    then show ?case
      by (cases x) (auto simp: wp intro!: tot_mono [OF l1] l2)
  qed (use True assms in \<open>simp_all add: cursor_ok_def\<close>)
  moreover have "28 \<le> length (data_pointer c)" using True assms by (simp add: cursor_ok_def)
  ultimately show ?thesis
    using True by (auto simp: evpn_mac_ip_def Let_def wp intro!: ESI_tot)
qed (use assms in \<open>simp add: evpn_mac_ip_def wp\<close>)

lemma evpn_body_bounded:
  assumes "cursor_ok data_len c"
  shows "tot (evpn_body ntop6 rt data_len c t) (\<lambda>(c', _). cursor_ok data_len c')"
proof -
  have "tot (evpn_auto_discovery data_len c t) (\<lambda>(c', _). cursor_ok data_len c')"
    using assms by (auto simp: evpn_auto_discovery_def cursor_ok_def Let_def wp intro!: ESI_tot)
  moreover have "tot (evpn_multicast ntop6 data_len c t) (\<lambda>(c', _). cursor_ok data_len c')"
    using assms by (auto simp: evpn_multicast_def cursor_ok_def Let_def wp)
  moreover have "tot (evpn_segment ntop6 data_len c t) (\<lambda>(c', _). cursor_ok data_len c')"
    using assms by (auto simp: evpn_segment_def cursor_ok_def Let_def wp intro!: ESI_tot)
  ultimately show ?thesis
    using assms evpn_mac_ip_bounded [OF assms] by (simp add: evpn_body_def wp)
qed

lemma evpn_loop_bounded:
  "data_len + 3 \<le> length p + n \<Longrightarrow> okay (evpn_loop ntop6 data_len p n acc)"
proof (induction ntop6 data_len p n acc rule: evpn_loop.induct)
  case (1 ntop6 data_len p n acc)
  show ?case
  proof (cases "n + 10 < data_len")
    case True
    have "tot (evpn_route ntop6 data_len p n) (\<lambda>(c, _). cursor_ok data_len c)"
      using True 1(2) unfolding evpn_route_def
      by (auto simp: wp cursor_ok_def intro!: RD_tot tot_mono [OF evpn_body_bounded])
    then obtain c t where ct: "evpn_route ntop6 data_len p n = Inr (c, t)" "cursor_ok data_len c"
      by (auto simp: tot_iff)
    with 1(1) [OF True ct(1) refl] True show ?thesis
      by (simp add: evpn_loop.simps [of ntop6 data_len p n] cursor_ok_def)
  qed (simp add: evpn_loop.simps)
qed

section \<open>Reference encoding\<close>

datatype evpn_nlri =
    EthAd (n_rd: bytes) (n_esi: bytes) (n_tag: bytes) (n_label: bytes)
  | MacIp (n_rd: bytes) (n_esi: bytes) (n_tag: bytes) (n_maclen: u8) (n_mac: bytes) (n_ip: bytes)
      (n_label: bytes) (n_label2: "bytes option")
  | IncMcast (n_rd: bytes) (n_tag: bytes) (n_ip: bytes)

definition opt_bytes :: "bytes option \<Rightarrow> bytes" where
  "opt_bytes b = (case b of None \<Rightarrow> [] | Some bs \<Rightarrow> bs)"

definition nlri_type :: "evpn_nlri \<Rightarrow> u8" where
  "nlri_type n = (case n of EthAd _ _ _ _ \<Rightarrow> 1 | MacIp _ _ _ _ _ _ _ _ \<Rightarrow> 2 | IncMcast _ _ _ \<Rightarrow> 3)"

definition nlri_value :: "evpn_nlri \<Rightarrow> bytes" where
  "nlri_value n = (case n of
       EthAd _ e g l \<Rightarrow> e @ g @ l
     | MacIp _ e g ml m i l l2 \<Rightarrow> e @ g @ [ml] @ m @ [of_nat (8 * length i)] @ i @ l @ opt_bytes l2
     | IncMcast _ g i \<Rightarrow> g @ [of_nat (8 * length i)] @ i)"

definition encode_nlri :: "evpn_nlri \<Rightarrow> bytes" where
  "encode_nlri n = [nlri_type n, of_nat (8 + length (nlri_value n))] @ n_rd n @ nlri_value n"

definition nlri_ok :: "evpn_nlri \<Rightarrow> bool" where
  "nlri_ok n \<longleftrightarrow> length (n_rd n) = 8 \<and> (case n of
       EthAd _ e g l \<Rightarrow> length e = 10 \<and> length g = 4 \<and> length l = 3
     | MacIp _ e g _ m i l l2 \<Rightarrow> length e = 10 \<and> length g = 4 \<and> length m = 6 \<and> length i \<in> {0, 4, 16} \<and>
         length l = 3 \<and> (case l2 of None \<Rightarrow> True | Some b \<Rightarrow> length b = 3)
     | IncMcast _ g i \<Rightarrow> length g = 4 \<and> length i \<in> {4, 16})"

definition the_result :: "'a \<Rightarrow> 'a result \<Rightarrow> 'a" where
  "the_result d m = (case m of Inl _ \<Rightarrow> d | Inr x \<Rightarrow> x)"

definition route_of :: "(bytes \<Rightarrow> string) \<Rightarrow> evpn_nlri \<Rightarrow> evpn_tuple" where
  "route_of ntop6 n =
     (let esi = (\<lambda>e. the_result [] (parseEthernetSegmentIdentifier e));
          base = evpn_empty\<lparr>evpn_rd := the_result (evpn_rd evpn_empty) (parseRouteDistinguisher (n_rd n) (evpn_rd evpn_empty))\<rparr>;
          ip_text = (\<lambda>i. print_ip ntop6 (length i = 4) (pad16 i))
      in case n of
           EthAd _ e g l \<Rightarrow> base\<lparr>ethernet_segment_identifier := esi e, ethernet_tag_id_hex := concat (map hex2 g),
             mpls_label_1 := mpls_label l\<rparr>
         | MacIp _ e g ml m i l l2 \<Rightarrow> base\<lparr>ethernet_segment_identifier := esi e,
             ethernet_tag_id_hex := concat (map hex2 g), mac_len := ml, mac := join_colon (map hex2 m),
             ip_len := of_nat (8 * length i), ip := (if i = [] then [] else ip_text i),
             mpls_label_1 := mpls_label l, mpls_label_2 := (case l2 of None \<Rightarrow> 0 | Some b \<Rightarrow> mpls_label b)\<rparr>
         | IncMcast _ g i \<Rightarrow> base\<lparr>ethernet_tag_id_hex := concat (map hex2 g),
             originating_router_ip_len := of_nat (8 * length i), originating_router_ip := ip_text i\<rparr>)"

lemma ESI_run:
  "length e = 10 \<Longrightarrow> parseEthernetSegmentIdentifier (e @ rest) = Inr (the_result [] (parseEthernetSegmentIdentifier e))"
proof -
  assume "length e = 10"
  then obtain b bs where e: "e = b # bs" "length bs = 9" by (cases e) auto
  then show ?thesis
    by (simp add: parseEthernetSegmentIdentifier_def the_result_def rd_def Let_def)
qed

lemma RD_run:
  "length r = 8 \<Longrightarrow> parseRouteDistinguisher (r @ rest) t = Inr (the_result t (parseRouteDistinguisher r t))"
  by (simp add: parseRouteDistinguisher_def the_result_def rd_def Let_def nth_append)

lemma ip_len_eval:
  "length i = 4 \<Longrightarrow> (of_nat (8 * length i) :: u8) = 32" "length i = 16 \<Longrightarrow> (of_nat (8 * length i) :: u8) = 128"
  by simp_all

lemma parse_mac_run: "length m = 6 \<Longrightarrow> parse_mac (m @ rest) = Inr (join_colon (map hex2 m))"
  by (simp add: parse_mac_def)

lemma encode_nlri_length:
  "nlri_ok n \<Longrightarrow> length (encode_nlri n) = 10 + length (nlri_value n)"
  "nlri_ok n \<Longrightarrow> length (nlri_value n) \<le> 44 \<and> 9 \<le> length (nlri_value n)"
  by (cases n; auto simp: encode_nlri_def nlri_ok_def nlri_value_def opt_bytes_def split: option.splits)+

lemma evpn_body_run:
  assumes "nlri_ok n" "k + 10 + length (nlri_value n) \<le> data_len"
  shows "evpn_body ntop6 (nlri_type n) data_len
      \<lparr>data_pointer = nlri_value n @ rest, data_read = k + 10, rest_len = int (length (nlri_value n))\<rparr>
      (evpn_empty\<lparr>evpn_rd := the_result (evpn_rd evpn_empty) (parseRouteDistinguisher (n_rd n) (evpn_rd evpn_empty))\<rparr>) =
    Inr (\<lparr>data_pointer = rest, data_read = k + 10 + length (nlri_value n), rest_len = 0\<rparr>, route_of ntop6 n)"
proof (cases n)
  case (EthAd r e g l)
  with assms show ?thesis
    by (simp add: nlri_type_def nlri_value_def nlri_ok_def evpn_body_def evpn_auto_discovery_def ESI_run
        route_of_def advance_def Let_def)
next
  case (MacIp r e g ml m i l l2)
  then have "i = [] \<or> i \<noteq> [] \<and> length i = 4 \<or> i \<noteq> [] \<and> length i = 16"
    using assms by (auto simp: nlri_ok_def)
  with assms MacIp show ?thesis
    by (elim disjE; cases l2)
      (simp_all add: nlri_type_def nlri_value_def nlri_ok_def evpn_body_def evpn_mac_ip_def evpn_mac_ip_ip_def
        evpn_mac_ip_label1_def evpn_mac_ip_label2_def ESI_run parse_mac_run route_of_def advance_def opt_bytes_def
        evpn_addr_bytes_def evpn_ip_text_def evpn_empty_def Let_def)
next
  case (IncMcast r g i)
  then have "length i = 4 \<or> length i = 16" using assms by (simp add: nlri_ok_def)
  with assms IncMcast show ?thesis
    by (elim disjE) (simp_all add: nlri_type_def nlri_value_def nlri_ok_def evpn_body_def evpn_multicast_def
        route_of_def advance_def evpn_addr_bytes_def evpn_ip_text_def Let_def)
qed

lemma evpn_route_run:
  assumes "nlri_ok n" "k + length (encode_nlri n) \<le> data_len"
  shows "evpn_route ntop6 data_len (encode_nlri n @ rest) k =
    Inr (\<lparr>data_pointer = rest, data_read = k + length (encode_nlri n), rest_len = 0\<rparr>, route_of ntop6 n)"
proof -
  let ?v = "nlri_value n"
  have len: "length ?v \<le> 44" "length (encode_nlri n) = 10 + length ?v"
    using encode_nlri_length [OF assms(1)] by simp_all
  have r: "length (n_rd n) = 8" using assms(1) by (simp add: nlri_ok_def)
  have "unat (of_nat (8 + length ?v) :: u8) = 8 + length ?v"
    unfolding unat_of_nat using len(1) by simp
  then have l: "int (unat (of_nat (8 + length ?v) :: u8)) - 8 = int (length ?v)" by linarith
  have "rd 2 (encode_nlri n @ rest) = Inr [nlri_type n, of_nat (8 + length ?v)]"
    by (simp add: encode_nlri_def rd_def)
  moreover have "drop 2 (encode_nlri n @ rest) = n_rd n @ ?v @ rest" "drop 10 (encode_nlri n @ rest) = ?v @ rest"
    using r by (simp_all add: encode_nlri_def)
  moreover note RD_run [OF r, of "?v @ rest" "evpn_rd evpn_empty"]
  moreover note evpn_body_run [OF assms(1), of k data_len ntop6 rest]
  ultimately show ?thesis
    using assms(2) l len(2) by (simp add: evpn_route_def add.assoc)
qed

interpretation evpn_stream: record_stream nlri_ok encode_nlri "\<lambda>acc n. acc @ [route_of ntop6 n]"
  "\<lambda>len r d acc. evpn_loop ntop6 len d r acc" for ntop6
proof
  show "evpn_loop ntop6 len d len acc = Inr acc" for len d acc
    by (simp add: evpn_loop.simps)
  fix n r len rest acc
  assume ok: "nlri_ok n" and fits: "r + length (encode_nlri n) \<le> len"
  from fits encode_nlri_length [OF ok] have "r + 10 < len" by auto
  with evpn_route_run [OF ok fits] show "evpn_loop ntop6 len (encode_nlri n @ rest) r acc =
      evpn_loop ntop6 len rest (r + length (encode_nlri n)) (acc @ [route_of ntop6 n])"
    by (subst evpn_loop.simps) simp
qed

lemmas evpn_loop_run = evpn_stream.loop_run_0 [unfolded foldl_snoc_map]

section \<open>Properties\<close>

text \<open>
  C21. Round trip of EVPN NLRI: a sequence of Ethernet auto-discovery, MAC/IP (no, IPv4 or IPv6 address, one
  or two labels) and inclusive multicast routes, followed by any bytes, is decoded to exactly these
  routes in order, appended to the list of the direction (advertised or withdrawn).
\<close>

theorem evpn_roundtrip:
  assumes "list_all nlri_ok ns"
  shows "evpn_parseNlriData ntop6 isUnreach (concat (map encode_nlri ns) @ rest) (length (concat (map encode_nlri ns))) pd =
    Inr (if isUnreach then pd\<lparr>evpn_withdrawn := evpn_withdrawn pd @ map (route_of ntop6) ns\<rparr>
         else pd\<lparr>evpn := evpn pd @ map (route_of ntop6) ns\<rparr>)"
  using evpn_loop_run [OF assms, of ntop6 rest] by (simp add: evpn_parseNlriData_def)

definition example_nlri :: evpn_nlri where
  "example_nlri = MacIp [0, 0, 0, 100, 0, 0, 0, 7] (replicate 10 0) [0, 0, 0, 0] 48 [0, 17, 34, 51, 68, 85]
     [10, 0, 0, 1] [0, 1, 1] None"

theorem evpn_roundtrip_witness:
  "\<exists>pd. evpn_parseNlriData (\<lambda>_. []) False (encode_nlri example_nlri @ [9]) 39 (empty_update ()) = Inr pd \<and>
     map ip (evpn pd) = [''10.0.0.1''] \<and> map mac (evpn pd) = [''00:11:22:33:44:55''] \<and> map mpls_label_1 (evpn pd) = [257]"
proof -
  have "list_all nlri_ok [example_nlri]" by (simp add: example_nlri_def nlri_ok_def)
  from evpn_roundtrip [OF this, of "\<lambda>_. []" False "[9]" "empty_update ()"] show ?thesis
    by (simp add: example_nlri_def encode_nlri_def nlri_value_def opt_bytes_def nlri_type_def empty_update_def
        route_of_def print_ip_def pad16_def inet_ntop4_def dec_of_nat.simps hex2_def mpls_label_def int_of_u32_def
        be_val_def Let_def evpn_empty_def)
qed

text \<open>
  Memory safety of EVPN parsing on any input: at most three bytes past the announced length are read,
  by the second label of a MAC/IP route, whose presence is not checked against the length.
\<close>

theorem evpn_reads_bounded:
  assumes "data_len + 3 \<le> length data"
  shows "okay (evpn_parseNlriData ntop6 isUnreach data data_len pd)"
  using assms by (auto simp: evpn_parseNlriData_def intro!: okay_andThenI evpn_loop_bounded)

theorem evpn_reads_bounded_example:
  "okay (evpn_parseNlriData (\<lambda>_. []) True (replicate 103 255) 100 (empty_update ()))"
  by (rule evpn_reads_bounded) simp

text \<open>
  After an Ethernet segment route (type 4) with an address the pointer stays at the address while the
  counter moves past it: the next route is decoded from the address bytes.
\<close>

lemma evpn_segment_misaligned:
  assumes "length r = 8" "length e = 10" "length i = 4" "k + 25 \<le> data_len"
  shows "\<exists>c t. evpn_route ntop6 data_len ([4, 23] @ r @ e @ [32] @ i @ rest) k = Inr (c, t) \<and>
    data_read c = k + 25 \<and> data_pointer c = i @ rest"
proof -
  have "parseRouteDistinguisher (r @ e @ [32] @ i @ rest) (evpn_rd evpn_empty) =
      Inr (the_result (evpn_rd evpn_empty) (parseRouteDistinguisher r (evpn_rd evpn_empty)))"
    by (rule RD_run [OF assms(1)])
  with assms show ?thesis
    by (simp add: evpn_route_def rd_def evpn_body_def evpn_segment_def ESI_run advance_def evpn_addr_bytes_def Let_def)
qed

text \<open>
  Route distinguishers: type 1 is printed as its IPv4 administrator and number. In types 0 and 2 the
  assigned number is right and the administrator text is the assigned number followed by the
  administrator, because the stream is not emptied in between.
\<close>

theorem route_distinguisher_text:
  assumes "a < 2 ^ 16" "b < 2 ^ 32" "length i = 4"
  shows "parseRouteDistinguisher ([0, 0] @ be_bytes 2 a @ be_bytes 4 b @ rest) t =
      Inr (t\<lparr>rd_type := Some 0, rd_assigned_number := dec_of_nat b,
             rd_administrator_subfield := dec_of_nat b @ dec_of_nat a\<rparr>) \<and>
    parseRouteDistinguisher ([0, 1] @ i @ be_bytes 2 a @ rest) t =
      Inr (t\<lparr>rd_type := Some 1, rd_assigned_number := dec_of_nat a, rd_administrator_subfield := inet_ntop4 i\<rparr>) \<and>
    parseRouteDistinguisher ([0, 2] @ be_bytes 4 b @ be_bytes 2 a @ rest) t =
      Inr (t\<lparr>rd_type := Some 2, rd_assigned_number := dec_of_nat a,
             rd_administrator_subfield := dec_of_nat a @ dec_of_nat b\<rparr>)"
  using assms be_val_be_bytes [of 2 a] be_val_be_bytes [of 4 b]
  by (simp add: parseRouteDistinguisher_def rd_def length_be_bytes Let_def del: be_bytes_numeral)

theorem route_distinguisher_text_example:
  "parseRouteDistinguisher [0, 0, 0, 100, 0, 0, 0, 7] \<lparr>rd_administrator_subfield = [], rd_assigned_number = [], rd_type = None\<rparr> =
     Inr \<lparr>rd_administrator_subfield = ''7100'', rd_assigned_number = ''7'', rd_type = Some 0\<rparr>"
  using route_distinguisher_text [of 100 7 "[10, 0, 0, 1]" "[]"
      "\<lparr>rd_administrator_subfield = [], rd_assigned_number = [], rd_type = None\<rparr>"]
  by (simp add: dec_of_nat.simps)

end
