(* ===== verification/MpReach.thy ===== *)
theory MpReach
  imports Evpn
begin

text \<open>
  \<open>bgp/MPReachAttr.cpp\<close> and \<open>bgp/MPUnReachAttr.cpp\<close>: the multiprotocol reachability attributes
  (RFC 4760), with the NLRI parsers for plain, labelled and VPN prefixes. The BGP link-state NLRI
  parsers of \<open>bgp/linkstate\<close> are the arguments \<open>ls_reach\<close> and \<open>ls_unreach\<close>.
\<close>

section \<open>Plain prefixes\<close>

definition addr_bytes :: "u8 \<Rightarrow> nat" where
  "addr_bytes l = (if unat l mod 8 \<noteq> 0 then unat l div 8 + 1 else unat l div 8)"

text \<open>The path identifier of an entry, with the pointer and counter after it.\<close>

definition read_path_id :: "bool \<Rightarrow> nat \<Rightarrow> nat \<Rightarrow> bytes \<Rightarrow> (u32 \<times> nat \<times> bytes) result" where
  "read_path_id enabled len read_size data =
     (if enabled \<and> len - read_size \<ge> 4
      then andThen (ntoh 4 data) (\<lambda>v. Inr (of_nat v, read_size + 4, drop 4 data))
      else Inr (0, read_size, data))"

definition nlri_prefix :: "(bytes \<Rightarrow> string) \<Rightarrow> bool \<Rightarrow> u8 \<Rightarrow> u32 \<Rightarrow> bytes \<Rightarrow> prefix_tuple" where
  "nlri_prefix ntop6 v4 l pid raw =
     \<lparr>ptype = (if v4 then PREFIX_UNICAST_V4 else PREFIX_UNICAST_V6), plen = l, prefix = print_ip ntop6 v4 raw,
      prefix_bin = raw, path_id = pid, isIPv4 = v4, labels = []\<rparr>"

lemma read_path_id_mono: "ret (read_path_id e len r d) (\<lambda>(_, r', _). r \<le> r')"
  by (simp add: read_path_id_def wp)

function nlri_ip_loop :: "(bytes \<Rightarrow> string) \<Rightarrow> bool \<Rightarrow> bool \<Rightarrow> nat \<Rightarrow> nat \<Rightarrow> bytes \<Rightarrow> prefix_tuple list \<Rightarrow> prefix_tuple list result" where
  "nlri_ip_loop ntop6 v4 add_path len read_size data prefixes =
     (if read_size < len
      then andThen (read_path_id add_path len read_size data) (\<lambda>(pid, read_size, data).
           andThen (rd_u8 data) (\<lambda>l.
           andThen (rd (addr_bytes l) (drop 1 data)) (\<lambda>b.
           andThen (copy16 b) (\<lambda>raw.
             nlri_ip_loop ntop6 v4 add_path len (read_size + addr_bytes l + 1) (drop (1 + addr_bytes l) data)
               (prefixes @ [nlri_prefix ntop6 v4 l pid raw])))))
      else Inr prefixes)"
  by pat_completeness auto
termination
  by (relation "measure (\<lambda>(_, _, _, len, r, _, _). len - r)") (auto dest!: retD [OF read_path_id_mono])

declare nlri_ip_loop.simps [simp del]

definition afi_of :: "bool \<Rightarrow> int" where
  "afi_of v4 = (if v4 then int BGP_AFI_IPV4 else int BGP_AFI_IPV6)"

definition parseNlriData_IPv4IPv6 :: "(bytes \<Rightarrow> string) \<Rightarrow> bool \<Rightarrow> bytes \<Rightarrow> nat \<Rightarrow> peer_info \<Rightarrow> prefix_tuple list \<Rightarrow> prefix_tuple list result" where
  "parseNlriData_IPv4IPv6 ntop6 v4 data len pi prefixes =
     (if len = 0 then Inr prefixes
      else andThen (isAddPathEnabled (pi_add_path_capability pi) (afi_of v4) (int BGP_SAFI_UNICAST)) (\<lambda>add_path.
             nlri_ip_loop ntop6 v4 add_path len 0 data prefixes))"

section \<open>Labels\<close>

text \<open>
  The label word: three octets in the high bytes, so that the label value is the upper 20 bits and the
  bottom-of-stack flag is bit 8.
\<close>

definition label_data :: "bytes \<Rightarrow> nat" where
  "label_data b = le_val (SWAP_BYTES (b @ [0]) 4)"

definition label_value :: "nat \<Rightarrow> nat" where
  "label_value d = d div 2 ^ 12"

definition label_bos :: "nat \<Rightarrow> bool" where
  "label_bos d \<longleftrightarrow> d div 2 ^ 8 mod 2 = 1"

function decode_label_loop :: "nat \<Rightarrow> nat \<Rightarrow> bytes \<Rightarrow> string \<Rightarrow> (nat \<times> string) result" where
  "decode_label_loop read_size len data_ptr lbls =
     (if read_size \<le> len
      then andThen (rd 3 data_ptr) (\<lambda>b.
             let d = label_data b; lbls = lbls @ dec_of_nat (label_value d)
             in if label_bos d \<or> d = 0x80000000 \<or> d = 0 then Inr (read_size + 3, lbls)
                else decode_label_loop (read_size + 3) len (drop 3 data_ptr) (lbls @ '',''))
      else Inr (read_size, lbls))"
  by pat_completeness auto
termination by (relation "measure (\<lambda>(r, len, _, _). Suc len - r)") auto

declare decode_label_loop.simps [simp del]

definition decodeLabel :: "bytes \<Rightarrow> nat \<Rightarrow> (nat \<times> string) result" where
  "decodeLabel data len = decode_label_loop 0 len data []"

section \<open>Labelled and VPN prefixes\<close>

text \<open>
  The tuple is one local variable of the source: fields that an entry does not assign keep the value of
  the entry before. The loop returns it together with the list of prefixes.
\<close>

type_synonym label_tuple = "prefix_tuple \<times> rd_tuple"

definition label_tuple_init :: "bool \<Rightarrow> label_tuple" where
  "label_tuple_init v4 =
     (\<lparr>ptype = (if v4 then PREFIX_LABEL_UNICAST_V4 else PREFIX_LABEL_UNICAST_V6), plen = 0, prefix = [],
       prefix_bin = [], path_id = 0, isIPv4 = v4, labels = []\<rparr>,
      \<lparr>rd_administrator_subfield = [], rd_assigned_number = [], rd_type = None\<rparr>)"

definition label_rd :: "bool \<Rightarrow> int \<Rightarrow> bytes \<Rightarrow> label_tuple \<Rightarrow> (label_tuple \<times> nat) result" where
  "label_rd isVPN ab data t =
     (if isVPN \<and> ab \<ge> 8
      then andThen (parseRouteDistinguisher data (snd t)) (\<lambda>r.
             Inr (((fst t)\<lparr>plen := plen (fst t) - 64\<rparr>, r), 8))
      else Inr (t, 0))"

definition label_addr :: "(bytes \<Rightarrow> string) \<Rightarrow> bool \<Rightarrow> int \<Rightarrow> bytes \<Rightarrow> label_tuple \<Rightarrow> (label_tuple \<times> nat) result" where
  "label_addr ntop6 v4 ab data t =
     (if ab > 0
      then andThen (rd (nat ab) data) (\<lambda>b.
           andThen (copy16 b) (\<lambda>raw.
             Inr (((fst t)\<lparr>prefix := print_ip ntop6 v4 raw, prefix_bin := raw\<rparr>, snd t), nat ab)))
      else Inr (((fst t)\<lparr>prefix := (if v4 then ''0.0.0.0'' else ''::'')\<rparr>, snd t), 0))"

text \<open>One entry, after its path identifier: the tuple and the bytes used.\<close>

definition label_entry :: "(bytes \<Rightarrow> string) \<Rightarrow> bool \<Rightarrow> bool \<Rightarrow> u32 \<Rightarrow> bytes \<Rightarrow> label_tuple \<Rightarrow> (label_tuple \<times> nat) result" where
  "label_entry ntop6 v4 isVPN pid data t =
     andThen (rd_u8 data) (\<lambda>l.
     andThen (decodeLabel (drop 1 data) (addr_bytes l)) (\<lambda>(label_bytes, lbls).
       let t = ((fst t)\<lparr>path_id := pid, plen := l - of_nat (8 * label_bytes), labels := lbls\<rparr>, snd t);
           data = drop (1 + label_bytes) data; ab = int (addr_bytes l) - int label_bytes
       in andThen (label_rd isVPN ab data t) (\<lambda>(t, n).
          andThen (label_addr ntop6 v4 (ab - int n) (drop n data) t) (\<lambda>(t, m).
            Inr (t, label_bytes + n + m)))))"

function nlri_label_loop :: "(bytes \<Rightarrow> string) \<Rightarrow> bool \<Rightarrow> bool \<Rightarrow> bool \<Rightarrow> nat \<Rightarrow> nat \<Rightarrow> bytes \<Rightarrow> label_tuple \<times> label_tuple list \<Rightarrow> (label_tuple \<times> label_tuple list) result" where
  "nlri_label_loop ntop6 v4 isVPN add_path len read_size data (t, acc) =
     (if read_size < len
      then andThen (read_path_id (\<not> isVPN \<and> add_path) len read_size data) (\<lambda>(pid, read_size, data).
           andThen (label_entry ntop6 v4 isVPN pid data t) (\<lambda>(t, n).
             nlri_label_loop ntop6 v4 isVPN add_path len (read_size + n + 1) (drop (1 + n) data) (t, acc @ [t])))
      else Inr (t, acc))"
  by pat_completeness auto
termination
  by (relation "measure (\<lambda>(_, _, _, _, len, r, _, _). len - r)") (auto dest!: retD [OF read_path_id_mono])

declare nlri_label_loop.simps [simp del]

definition parseNlriData_Label :: "(bytes \<Rightarrow> string) \<Rightarrow> bool \<Rightarrow> bool \<Rightarrow> bytes \<Rightarrow> nat \<Rightarrow> peer_info \<Rightarrow> label_tuple list result" where
  "parseNlriData_Label ntop6 v4 isVPN data len pi =
     (if len = 0 then Inr []
      else andThen (isAddPathEnabled (pi_add_path_capability pi) (afi_of v4)
                      (int (if isVPN then BGP_SAFI_MPLS else BGP_SAFI_NLRI_LABEL))) (\<lambda>add_path.
           andThen (nlri_label_loop ntop6 v4 isVPN add_path len 0 data (label_tuple_init v4, [])) (\<lambda>(_, ts). Inr ts)))"

definition to_vpn :: "label_tuple \<Rightarrow> vpn_tuple" where
  "to_vpn t = \<lparr>vpn_prefix = fst t, vpn_rd = snd t\<rparr>"

section \<open>MP\_REACH\_NLRI\<close>

record mp_reach_nlri =
  afi :: nat
  safi :: nat
  nh_len :: u8
  next_hop :: bytes
  nlri_data :: bytes
  nlri_len :: nat

definition next_hop_text :: "(bytes \<Rightarrow> string) \<Rightarrow> bool \<Rightarrow> u8 \<Rightarrow> bytes \<Rightarrow> string result" where
  "next_hop_text ntop6 v4 l p = andThen (rd (min 16 (unat l)) p) (\<lambda>b. Inr (print_ip ntop6 v4 (pad16 b)))"

definition set_next_hop :: "string \<Rightarrow> 'ls parsed_update_data \<Rightarrow> 'ls parsed_update_data" where
  "set_next_hop s pd = pd\<lparr>attrs := (attrs pd)(3 \<mapsto> s)\<rparr>"

definition reach_parseAfi_IPv4IPv6 :: "(bytes \<Rightarrow> string) \<Rightarrow> bool \<Rightarrow> mp_reach_nlri \<Rightarrow> peer_info \<Rightarrow> 'ls parsed_update_data \<Rightarrow> 'ls parsed_update_data result" where
  "reach_parseAfi_IPv4IPv6 ntop6 v4 n pi pd =
     (if safi n = BGP_SAFI_UNICAST then
        andThen (next_hop_text ntop6 v4 (nh_len n) (next_hop n)) (\<lambda>nh.
        andThen (parseNlriData_IPv4IPv6 ntop6 v4 (nlri_data n) (nlri_len n) pi (advertised pd)) (\<lambda>ps.
          Inr ((set_next_hop nh pd)\<lparr>advertised := ps\<rparr>)))
      else if safi n = BGP_SAFI_NLRI_LABEL then
        andThen (next_hop_text ntop6 v4 (nh_len n) (next_hop n)) (\<lambda>nh.
        andThen (parseNlriData_Label ntop6 v4 False (nlri_data n) (nlri_len n) pi) (\<lambda>ts.
          Inr ((set_next_hop nh pd)\<lparr>advertised := advertised pd @ map fst ts\<rparr>)))
      else if safi n = BGP_SAFI_MPLS then
        let (l, p) = (if v4 then (nh_len n - 8, drop 8 (next_hop n)) else (nh_len n, next_hop n))
        in andThen (next_hop_text ntop6 v4 l p) (\<lambda>nh.
           andThen (parseNlriData_Label ntop6 v4 True (nlri_data n) (nlri_len n) pi) (\<lambda>ts.
             Inr ((set_next_hop nh pd)\<lparr>vpn := vpn pd @ map to_vpn ts\<rparr>)))
      else Inr pd)"

type_synonym 'ls ls_parser = "mp_reach_nlri \<Rightarrow> 'ls parsed_update_data \<Rightarrow> 'ls parsed_update_data result"

definition reach_parseAfi :: "(bytes \<Rightarrow> string) \<Rightarrow> 'ls ls_parser \<Rightarrow> mp_reach_nlri \<Rightarrow> peer_info \<Rightarrow> 'ls parsed_update_data \<Rightarrow> 'ls parsed_update_data result" where
  "reach_parseAfi ntop6 ls_reach n pi pd =
     (if afi n = BGP_AFI_IPV6 then reach_parseAfi_IPv4IPv6 ntop6 False n pi pd
      else if afi n = BGP_AFI_IPV4 then reach_parseAfi_IPv4IPv6 ntop6 True n pi pd
      else if afi n = BGP_AFI_BGPLS then ls_reach n pd
      else if afi n = BGP_AFI_L2VPN then
        andThen (next_hop_text ntop6 (nh_len n = 4) (nh_len n) (next_hop n)) (\<lambda>nh.
          if safi n = BGP_SAFI_EVPN
          then evpn_parseNlriData ntop6 False (nlri_data n) (nlri_len n) (set_next_hop nh pd)
          else Inr (set_next_hop nh pd))
      else Inr pd)"

definition parseReachNlriAttr :: "(bytes \<Rightarrow> string) \<Rightarrow> 'ls ls_parser \<Rightarrow> nat \<Rightarrow> bytes \<Rightarrow> peer_info \<Rightarrow> 'ls parsed_update_data \<Rightarrow> 'ls parsed_update_data result" where
  "parseReachNlriAttr ntop6 ls_reach attr_len data pi pd =
     andThen (ntoh 2 data) (\<lambda>a.
     andThen (rd_u8 (drop 2 data)) (\<lambda>s.
     andThen (rd_u8 (drop 3 data)) (\<lambda>l.
     andThen (rd_u8 (drop (4 + unat l) data)) (\<lambda>_.
       let rest = int attr_len - 5 - int (unat l)
       in if rest < 0 then Inr pd
          else reach_parseAfi ntop6 ls_reach
                 \<lparr>afi = a, safi = unat s, nh_len = l, next_hop = drop 4 data, nlri_data = drop (5 + unat l) data,
                  nlri_len = nat rest mod 2 ^ 16\<rparr> pi pd))))"

section \<open>MP\_UNREACH\_NLRI\<close>

text \<open>\<open>mp_unreach_nlri\<close> is \<open>mp_reach_nlri\<close> without the next hop.\<close>

definition unreach_parseAfi_IPv4IPv6 :: "(bytes \<Rightarrow> string) \<Rightarrow> bool \<Rightarrow> mp_reach_nlri \<Rightarrow> peer_info \<Rightarrow> 'ls parsed_update_data \<Rightarrow> 'ls parsed_update_data result" where
  "unreach_parseAfi_IPv4IPv6 ntop6 v4 n pi pd =
     (if safi n = BGP_SAFI_UNICAST then
        andThen (parseNlriData_IPv4IPv6 ntop6 v4 (nlri_data n) (nlri_len n) pi (withdrawn pd)) (\<lambda>ps.
          Inr (pd\<lparr>withdrawn := ps\<rparr>))
      else if safi n = BGP_SAFI_NLRI_LABEL then
        andThen (parseNlriData_Label ntop6 v4 False (nlri_data n) (nlri_len n) pi) (\<lambda>ts.
          Inr (pd\<lparr>withdrawn := withdrawn pd @ map fst ts\<rparr>))
      else if safi n = BGP_SAFI_MPLS then
        andThen (parseNlriData_Label ntop6 v4 True (nlri_data n) (nlri_len n) pi) (\<lambda>ts.
          Inr (pd\<lparr>vpn_withdrawn := vpn_withdrawn pd @ map to_vpn ts\<rparr>))
      else Inr pd)"

definition unreach_parseAfi :: "(bytes \<Rightarrow> string) \<Rightarrow> 'ls ls_parser \<Rightarrow> mp_reach_nlri \<Rightarrow> peer_info \<Rightarrow> 'ls parsed_update_data \<Rightarrow> 'ls parsed_update_data result" where
  "unreach_parseAfi ntop6 ls_unreach n pi pd =
     (if afi n = BGP_AFI_IPV6 then unreach_parseAfi_IPv4IPv6 ntop6 False n pi pd
      else if afi n = BGP_AFI_IPV4 then unreach_parseAfi_IPv4IPv6 ntop6 True n pi pd
      else if afi n = BGP_AFI_BGPLS then ls_unreach n pd
      else if afi n = BGP_AFI_L2VPN \<and> safi n = BGP_SAFI_EVPN
           then evpn_parseNlriData ntop6 True (nlri_data n) (nlri_len n) pd
      else Inr pd)"

definition parseUnReachNlriAttr :: "(bytes \<Rightarrow> string) \<Rightarrow> 'ls ls_parser \<Rightarrow> nat \<Rightarrow> bytes \<Rightarrow> peer_info \<Rightarrow> 'ls parsed_update_data \<Rightarrow> (peer_info \<times> 'ls parsed_update_data) result" where
  "parseUnReachNlriAttr ntop6 ls_unreach attr_len data pi pd =
     andThen (ntoh 2 data) (\<lambda>a.
     andThen (rd_u8 (drop 2 data)) (\<lambda>s.
       let rest = int attr_len - 3; nlri_len = nat rest mod 2 ^ 16
       in if rest < 0 then Inr (pi, pd)
          else if nlri_len = 0 then Inr (pi\<lparr>endOfRIB := True\<rparr>, pd)
          else andThen (unreach_parseAfi ntop6 ls_unreach
                 \<lparr>afi = a, safi = unat s, nh_len = 0, next_hop = [], nlri_data = drop 3 data, nlri_len = nlri_len\<rparr> pi pd)
               (\<lambda>pd. Inr (pi, pd))))"

section \<open>Reference: plain prefixes\<close>

datatype nlri_entry = Entry (e_pid: nat) (e_bits: nat) (e_addr: bytes)

definition encode_entry :: "bool \<Rightarrow> nlri_entry \<Rightarrow> bytes" where
  "encode_entry ap e = (if ap then be_bytes 4 (e_pid e) else []) @ [of_nat (e_bits e)] @ e_addr e"

definition entry_ok :: "bool \<Rightarrow> nlri_entry \<Rightarrow> bool" where
  "entry_ok v4 e \<longleftrightarrow> e_pid e < 2 ^ 32 \<and> e_bits e \<le> (if v4 then 32 else 128) \<and>
     length (e_addr e) = (e_bits e + 7) div 8"

definition entry_tuple :: "(bytes \<Rightarrow> string) \<Rightarrow> bool \<Rightarrow> bool \<Rightarrow> nlri_entry \<Rightarrow> prefix_tuple" where
  "entry_tuple ntop6 v4 ap e =
     nlri_prefix ntop6 v4 (of_nat (e_bits e)) (if ap then of_nat (e_pid e) else 0) (pad16 (e_addr e))"

lemma addr_bytes_ceil: "addr_bytes l = (unat l + 7) div 8"
  by (simp add: addr_bytes_def) presburger

lemma addr_bytes_le: "addr_bytes l \<le> 32"
  using unat_u8_le [of l] by (simp add: addr_bytes_ceil)

lemma unat_bits: "entry_ok v4 e \<Longrightarrow> unat (of_nat (e_bits e) :: u8) = e_bits e"
  by (simp add: entry_ok_def unat_of_nat split: if_splits)

lemma entry_addr_length: "entry_ok v4 e \<Longrightarrow> length (e_addr e) \<le> 16"
  using div_le_mono [of "e_bits e + 7" "128 + 7" 8] by (simp add: entry_ok_def split: if_splits)

lemma read_path_id_run:
  assumes "e_pid e < 2 ^ 32" "ap \<longrightarrow> 4 \<le> len - r"
  shows "read_path_id ap len r (encode_entry ap e @ rest) =
    Inr (if ap then of_nat (e_pid e) else 0, r + (if ap then 4 else 0), [of_nat (e_bits e)] @ e_addr e @ rest)"
  using assms by (simp add: read_path_id_def encode_entry_def length_be_bytes be_val_be_bytes del: be_bytes_numeral)

interpretation ip_stream: record_stream "entry_ok v4" "encode_entry ap"
  "\<lambda>acc e. acc @ [entry_tuple ntop6 v4 ap e]" "nlri_ip_loop ntop6 v4 ap" for ntop6 v4 ap
proof
  show "nlri_ip_loop ntop6 v4 ap len len d acc = Inr acc" for len d acc
    by (simp add: nlri_ip_loop.simps)
  fix e r len rest acc
  assume ok: "entry_ok v4 e" and fits: "r + length (encode_entry ap e) \<le> len"
  have len: "length (encode_entry ap e) = (if ap then 4 else 0) + 1 + length (e_addr e)"
    by (simp add: encode_entry_def length_be_bytes del: be_bytes_numeral)
  have "e_pid e < 2 ^ 32" "ap \<longrightarrow> 4 \<le> len - r" using ok fits len by (auto simp: entry_ok_def)
  note pid = read_path_id_run [OF this, of rest]
  have ab: "addr_bytes (of_nat (e_bits e)) = length (e_addr e)"
    using ok unat_bits [OF ok] by (simp add: addr_bytes_ceil entry_ok_def)
  have "copy16 (e_addr e) = Inr (pad16 (e_addr e))"
    using entry_addr_length [OF ok] by (simp add: copy16_def)
  with pid ab fits len show "nlri_ip_loop ntop6 v4 ap len r (encode_entry ap e @ rest) acc =
      nlri_ip_loop ntop6 v4 ap len (r + length (encode_entry ap e)) rest (acc @ [entry_tuple ntop6 v4 ap e])"
    by (subst nlri_ip_loop.simps) (simp add: entry_tuple_def add.assoc add.commute)
qed

lemmas nlri_ip_run = ip_stream.loop_run_0 [unfolded foldl_snoc_map]

section \<open>How far the parser reads\<close>

lemma nlri_ip_loop_no_overread:
  "len + 36 \<le> length d + r \<Longrightarrow> nlri_ip_loop ntop6 v4 ap len r d acc \<noteq> Inl OutOfBounds"
proof (induction ntop6 v4 ap len r d acc rule: nlri_ip_loop.induct)
  case (1 ntop6 v4 ap len r d acc)
  show ?case
  proof (cases "r < len")
    case True
    have "tot (read_path_id ap len r d) (\<lambda>(_, r', d'). len + 32 < length d' + r' \<and> length d' + r' = length d + r \<and> r' \<le> len)"
      using 1(2) True by (auto simp: read_path_id_def wp)
    then obtain pid r' d' where pid: "read_path_id ap len r d = Inr (pid, r', d')"
      and d': "length d' + r' = length d + r" "r' \<le> len"
      by (auto simp: tot_iff)
    with 1(2) have "33 \<le> length d'" by simp
    then obtain l ds where l: "d' = l # ds" "32 \<le> length ds" by (cases d') auto
    have ab: "addr_bytes l \<le> length ds" using addr_bytes_le [of l] l(2) by simp
    show ?thesis
    proof (cases "addr_bytes l \<le> 16")
      case small: True
      let ?raw = "pad16 (take (addr_bytes l) ds)"
      have c: "copy16 (take (addr_bytes l) ds) = Inr ?raw"
        using small ab by (simp add: copy16_def)
      have "nlri_ip_loop ntop6 v4 ap len (r' + addr_bytes l + 1) (drop (1 + addr_bytes l) d')
          (acc @ [nlri_prefix ntop6 v4 l pid ?raw]) \<noteq> Inl OutOfBounds"
        by (rule 1(1) [OF True pid refl refl]) (use l ab c d' 1(2) in \<open>simp_all add: rd_enough\<close>)
      with True pid l ab c show ?thesis
        by (subst nlri_ip_loop.simps) (simp add: rd_enough)
    next
      case False
      with True pid l ab show ?thesis
        by (subst nlri_ip_loop.simps) (simp add: rd_enough copy16_def)
    qed
  qed (simp add: nlri_ip_loop.simps)
qed

section \<open>Reference: labels and labelled prefixes\<close>

fun encode_labels :: "nat list \<Rightarrow> bytes" where
  "encode_labels [] = []"
| "encode_labels [l] = be_bytes 3 (l * 16 + 1)"
| "encode_labels (l # m # ls) = be_bytes 3 (l * 16) @ encode_labels (m # ls)"

fun join_comma :: "string list \<Rightarrow> string" where
  "join_comma [] = []"
| "join_comma [s] = s"
| "join_comma (s # t # ss) = s @ '','' @ join_comma (t # ss)"

definition labels_ok :: "nat list \<Rightarrow> bool" where
  "labels_ok ls \<longleftrightarrow> ls \<noteq> [] \<and> list_all (\<lambda>l. l < 2 ^ 20) ls \<and> list_all (\<lambda>l. l \<noteq> 0 \<and> l \<noteq> 0x80000) (butlast ls)"

lemma label_data_be: "v < 2 ^ 24 \<Longrightarrow> label_data (be_bytes 3 v) = v * 256"
  by (simp add: label_data_def be_val_snoc be_val_be_bytes length_be_bytes del: be_bytes_numeral)

lemma length_encode_labels: "length (encode_labels ls) = 3 * length ls"
  by (induction ls rule: encode_labels.induct) (simp_all add: length_be_bytes del: be_bytes_numeral)

lemma decode_label_step:
  assumes "v < 2 ^ 24" "r \<le> len"
  shows "decode_label_loop r len (be_bytes 3 v @ rest) acc =
    (if v mod 2 = 1 \<or> v = 0x800000 \<or> v = 0 then Inr (r + 3, acc @ dec_of_nat (v div 16))
     else decode_label_loop (r + 3) len rest (acc @ dec_of_nat (v div 16) @ '',''))"
  using assms
  by (subst decode_label_loop.simps)
    (auto simp: label_data_be length_be_bytes label_bos_def label_value_def Let_def simp del: be_bytes_numeral)

lemma decode_labels_run:
  "labels_ok ls \<Longrightarrow> r + 3 * (length ls - 1) \<le> len \<Longrightarrow>
   decode_label_loop r len (encode_labels ls @ rest) acc =
     Inr (r + 3 * length ls, acc @ join_comma (map dec_of_nat ls))"
proof (induction ls arbitrary: r acc rule: encode_labels.induct)
  case (2 l)
  then have "l * 16 + 1 < 2 ^ 24" "r \<le> len" by (auto simp: labels_ok_def)
  note step = decode_label_step [OF this, of rest acc]
  have "(l * 16 + 1) mod 2 = 1" "(l * 16 + 1) div 16 = l" by presburger+
  with step show ?case by (simp del: be_bytes_numeral One_nat_def add_Suc_right)
next
  case (3 l m ls)
  then have "labels_ok (m # ls)" "l < 2 ^ 20" "l \<noteq> 0" "l \<noteq> 0x80000" by (auto simp: labels_ok_def)
  with 3 show ?case
    by (simp add: decode_label_step del: be_bytes_numeral)
qed (simp add: labels_ok_def)

lemma decodeLabel_run:
  "labels_ok ls \<Longrightarrow> 3 * (length ls - 1) \<le> len \<Longrightarrow>
   decodeLabel (encode_labels ls @ rest) len = Inr (3 * length ls, join_comma (map dec_of_nat ls))"
  by (simp add: decodeLabel_def decode_labels_run)

datatype label_nlri = LEntry (l_pid: nat) (l_labels: "nat list") (l_rd: bytes) (l_bits: nat) (l_addr: bytes)

definition label_bits :: "label_nlri \<Rightarrow> nat" where
  "label_bits e = 24 * length (l_labels e) + 8 * length (l_rd e) + l_bits e"

definition encode_label_entry :: "bool \<Rightarrow> label_nlri \<Rightarrow> bytes" where
  "encode_label_entry ap e = (if ap then be_bytes 4 (l_pid e) else []) @ [of_nat (label_bits e)] @
     encode_labels (l_labels e) @ l_rd e @ l_addr e"

definition label_entry_ok :: "bool \<Rightarrow> bool \<Rightarrow> label_nlri \<Rightarrow> bool" where
  "label_entry_ok v4 isVPN e \<longleftrightarrow> l_pid e < 2 ^ 32 \<and> labels_ok (l_labels e) \<and>
     length (l_rd e) = (if isVPN then 8 else 0) \<and> l_bits e \<le> (if v4 then 32 else 128) \<and>
     length (l_addr e) = (l_bits e + 7) div 8 \<and> label_bits e < 256"

definition next_label_tuple :: "(bytes \<Rightarrow> string) \<Rightarrow> bool \<Rightarrow> bool \<Rightarrow> bool \<Rightarrow> label_tuple \<Rightarrow> label_nlri \<Rightarrow> label_tuple" where
  "next_label_tuple ntop6 v4 isVPN ap t e =
     ((fst t)\<lparr>path_id := (if ap then of_nat (l_pid e) else 0), plen := of_nat (l_bits e),
        labels := join_comma (map dec_of_nat (l_labels e)),
        prefix := (if l_addr e = [] then (if v4 then ''0.0.0.0'' else ''::'') else print_ip ntop6 v4 (pad16 (l_addr e))),
        prefix_bin := (if l_addr e = [] then prefix_bin (fst t) else pad16 (l_addr e))\<rparr>,
      if isVPN then the_result (snd t) (parseRouteDistinguisher (l_rd e) (snd t)) else snd t)"

definition add_label :: "(bytes \<Rightarrow> string) \<Rightarrow> bool \<Rightarrow> bool \<Rightarrow> bool \<Rightarrow> label_tuple \<times> label_tuple list \<Rightarrow> label_nlri \<Rightarrow> label_tuple \<times> label_tuple list" where
  "add_label ntop6 v4 isVPN ap s e =
     (let t = next_label_tuple ntop6 v4 isVPN ap (fst s) e in (t, snd s @ [t]))"

lemma label_entry_run:
  assumes "label_entry_ok v4 isVPN e"
  shows "label_entry ntop6 v4 isVPN (if ap then of_nat (l_pid e) else 0)
      ([of_nat (label_bits e)] @ encode_labels (l_labels e) @ l_rd e @ l_addr e @ rest) t =
    Inr (next_label_tuple ntop6 v4 isVPN ap t e, 3 * length (l_labels e) + length (l_rd e) + length (l_addr e))"
proof -
  let ?k = "length (l_labels e)"
  have k: "1 \<le> ?k" using assms by (cases "l_labels e") (auto simp: label_entry_ok_def labels_ok_def)
  have bits: "unat (of_nat (label_bits e) :: u8) = label_bits e"
    using assms by (simp add: label_entry_ok_def unat_of_nat)
  have ab: "addr_bytes (of_nat (label_bits e)) = 3 * ?k + length (l_rd e) + length (l_addr e)"
  proof -
    have "label_bits e + 7 = l_bits e + 7 + 8 * (3 * ?k + length (l_rd e))" by (simp add: label_bits_def)
    then have "(label_bits e + 7) div 8 = (l_bits e + 7) div 8 + (3 * ?k + length (l_rd e))" by simp
    with assms show ?thesis unfolding addr_bytes_ceil bits by (simp add: label_entry_ok_def)
  qed
  have dl: "decodeLabel (encode_labels (l_labels e) @ (l_rd e @ l_addr e @ rest)) (3 * ?k + length (l_rd e) + length (l_addr e)) =
      Inr (3 * ?k, join_comma (map dec_of_nat (l_labels e)))"
    by (rule decodeLabel_run) (use assms in \<open>simp_all add: label_entry_ok_def\<close>)
  have plen: "(of_nat (label_bits e) :: u8) - of_nat (8 * (3 * ?k)) = of_nat (8 * length (l_rd e) + l_bits e)"
    by (simp add: label_bits_def)
  have short: "length (l_addr e) \<le> 16"
    using assms div_le_mono [of "l_bits e + 7" "128 + 7" 8] by (simp add: label_entry_ok_def split: if_splits)
  show ?thesis
  proof (cases isVPN)
    case True
    then have r8: "length (l_rd e) = 8" using assms by (simp add: label_entry_ok_def)
    note rd_run = RD_run [OF r8, of "l_addr e @ rest" "snd t"]
    show ?thesis
      using True dl ab plen r8 rd_run short
      by (simp add: label_entry_def label_rd_def label_addr_def next_label_tuple_def copy16_def Let_def
          length_encode_labels)
  next
    case False
    then have "l_rd e = []" using assms by (simp add: label_entry_ok_def)
    with False dl ab plen short show ?thesis
      by (simp add: label_entry_def label_rd_def label_addr_def next_label_tuple_def copy16_def Let_def
          length_encode_labels)
  qed
qed

interpretation label_stream: record_stream "label_entry_ok v4 isVPN" "encode_label_entry (\<not> isVPN \<and> ap)"
  "add_label ntop6 v4 isVPN (\<not> isVPN \<and> ap)" "nlri_label_loop ntop6 v4 isVPN ap" for ntop6 v4 isVPN ap
proof
  show "nlri_label_loop ntop6 v4 isVPN ap len len d acc = Inr acc" for len d acc
    by (cases acc) (simp add: nlri_label_loop.simps)
  fix e r len rest and acc :: "label_tuple \<times> label_tuple list"
  let ?ap = "\<not> isVPN \<and> ap"
  assume ok: "label_entry_ok v4 isVPN e" and fits: "r + length (encode_label_entry ?ap e) \<le> len"
  obtain t ts where acc: "acc = (t, ts)" by (cases acc)
  let ?tl = "[of_nat (label_bits e)] @ encode_labels (l_labels e) @ l_rd e @ l_addr e @ rest"
  have len: "length (encode_label_entry ?ap e) =
      (if ?ap then 4 else 0) + 1 + 3 * length (l_labels e) + length (l_rd e) + length (l_addr e)"
    by (simp add: encode_label_entry_def length_be_bytes length_encode_labels del: be_bytes_numeral)
  have "read_path_id ?ap len r (encode_label_entry ?ap e @ rest) =
      Inr (if ?ap then of_nat (l_pid e) else 0, r + (if ?ap then 4 else 0), ?tl)"
    using ok fits len
    by (auto simp: read_path_id_def encode_label_entry_def length_be_bytes label_entry_ok_def be_val_be_bytes
        simp del: be_bytes_numeral)
  moreover note label_entry_run [OF ok, of ntop6 ?ap rest t]
  moreover have "drop (1 + (3 * length (l_labels e) + length (l_rd e) + length (l_addr e))) ?tl = rest"
    by (simp add: length_encode_labels)
  ultimately show "nlri_label_loop ntop6 v4 isVPN ap len r (encode_label_entry ?ap e @ rest) acc =
      nlri_label_loop ntop6 v4 isVPN ap len (r + length (encode_label_entry ?ap e)) rest
        (add_label ntop6 v4 isVPN ?ap acc e)"
    using fits len unfolding acc
    by (subst nlri_label_loop.simps) (simp add: add_label_def Let_def add.assoc add.commute del: append_Cons)
qed

section \<open>Properties\<close>

definition mp_reach_bytes :: "nat \<Rightarrow> u8 \<Rightarrow> bytes \<Rightarrow> bytes \<Rightarrow> bytes" where
  "mp_reach_bytes a s nh nlri = be_bytes 2 a @ [s, of_nat (length nh)] @ nh @ [0] @ nlri"

lemma parseReach_header:
  assumes "a < 2 ^ 16" "length nh < 256" "length (mp_reach_bytes a s nh nlri) < 2 ^ 16"
  shows "parseReachNlriAttr ntop6 ls_reach (length (mp_reach_bytes a s nh nlri)) (mp_reach_bytes a s nh nlri @ rest) pi pd =
    reach_parseAfi ntop6 ls_reach
      \<lparr>afi = a, safi = unat s, nh_len = of_nat (length nh), next_hop = nh @ [0] @ nlri @ rest,
       nlri_data = nlri @ rest, nlri_len = length nlri\<rparr> pi pd"
proof -
  have l: "unat (of_nat (length nh) :: u8) = length nh" using assms(2) by (simp add: unat_of_nat)
  have lu: "uint (of_nat (length nh) :: u8) = int (length nh)" using arg_cong [OF l, of int] by simp
  have len: "length (mp_reach_bytes a s nh nlri) = 5 + length nh + length nlri"
    by (simp add: mp_reach_bytes_def length_be_bytes)
  then have "nat (int (length (mp_reach_bytes a s nh nlri)) - 5 - int (length nh)) mod 2 ^ 16 = length nlri"
    using assms(3) by simp
  moreover have "ntoh 2 (mp_reach_bytes a s nh nlri @ rest) = Inr a"
    using assms(1) by (simp add: mp_reach_bytes_def length_be_bytes be_val_be_bytes del: be_bytes_numeral)
  moreover have d: "drop 2 (mp_reach_bytes a s nh nlri @ rest) = s # of_nat (length nh) # nh @ 0 # nlri @ rest"
      "drop 3 (mp_reach_bytes a s nh nlri @ rest) = of_nat (length nh) # nh @ 0 # nlri @ rest"
      "drop 4 (mp_reach_bytes a s nh nlri @ rest) = nh @ 0 # nlri @ rest"
    by (simp_all add: mp_reach_bytes_def)
  moreover have "4 + length nh = length nh + 4" "5 + length nh = Suc (length nh) + 4" by simp_all
  then have "drop (4 + length nh) (mp_reach_bytes a s nh nlri @ rest) = 0 # nlri @ rest"
      "drop (5 + length nh) (mp_reach_bytes a s nh nlri @ rest) = nlri @ rest"
    by (simp_all only: drop_drop [symmetric] d(3)) simp_all
  ultimately show ?thesis
    unfolding parseReachNlriAttr_def Let_def using len by (simp add: l lu)
qed

text \<open>
  C12. Round trip of MP\_REACH\_NLRI for IPv4 and IPv6 unicast: an attribute with a next hop of at most 16
  bytes and a list of prefixes, with path identifiers exactly when ADD-PATH is enabled for the family,
  sets the next hop attribute to the printed next hop and appends exactly these prefixes, in order,
  whatever bytes follow the attribute.
\<close>

theorem mp_reach_roundtrip:
  assumes "isAddPathEnabled (pi_add_path_capability pi) (afi_of v4) 1 = Inr ap"
    and "list_all (entry_ok v4) es" "length nh \<le> 16"
    and "bs = mp_reach_bytes (if v4 then 1 else 2) 1 nh (concat (map (encode_entry ap) es))" "length bs < 2 ^ 16"
  shows "parseReachNlriAttr ntop6 ls_reach (length bs) (bs @ rest) pi pd =
    Inr ((set_next_hop (print_ip ntop6 v4 (pad16 nh)) pd)
          \<lparr>advertised := advertised pd @ map (entry_tuple ntop6 v4 ap) es\<rparr>)"
proof -
  let ?nlri = "concat (map (encode_entry ap) es)"
  have "es = [] \<longleftrightarrow> length ?nlri = 0" by (cases es) (auto simp: encode_entry_def)
  then have "parseNlriData_IPv4IPv6 ntop6 v4 (?nlri @ rest) (length ?nlri) pi (advertised pd) =
      Inr (advertised pd @ map (entry_tuple ntop6 v4 ap) es)"
    using nlri_ip_run [OF assms(2), where ap = ap and rest = rest and acc = "advertised pd"] assms(1)
    by (auto simp: parseNlriData_IPv4IPv6_def BGP_SAFI_UNICAST_def)
  moreover have "next_hop_text ntop6 v4 (of_nat (length nh)) (nh @ [0] @ ?nlri @ rest) =
      Inr (print_ip ntop6 v4 (pad16 nh))"
    using assms(3) by (simp add: next_hop_text_def unat_of_nat min_def)
  ultimately show ?thesis
    using parseReach_header [of "if v4 then 1 else 2" nh 1 ?nlri ntop6 ls_reach rest pi pd] assms(3,4,5)
    by (cases v4) (simp_all add: reach_parseAfi_def reach_parseAfi_IPv4IPv6_def afi_safi_defs)
qed

definition example_entries :: "nlri_entry list" where
  "example_entries = [Entry 0 24 [192, 0, 2], Entry 0 0 []]"

lemma example_entries_ok: "list_all (entry_ok True) example_entries"
  by (simp add: example_entries_def entry_ok_def)

lemmas example_eval = example_entries_def entry_tuple_def encode_entry_def nlri_prefix_def print_ip_def pad16_def
  inet_ntop4_def dec_of_nat.simps empty_update_def set_next_hop_def

theorem mp_reach_roundtrip_witness:
  "\<exists>pd. parseReachNlriAttr (\<lambda>_. []) (\<lambda>_. Inr) (length (mp_reach_bytes 1 1 [10, 0, 0, 1] [24, 192, 0, 2, 0]))
      (mp_reach_bytes 1 1 [10, 0, 0, 1] [24, 192, 0, 2, 0] @ [255]) plain_peer (empty_update ()) = Inr pd \<and>
     map prefix (advertised pd) = [''192.0.2.0'', ''0.0.0.0''] \<and> attrs pd 3 = Some ''10.0.0.1''"
  using mp_reach_roundtrip [OF plain_peer_add_path example_entries_ok _ refl, of "[10, 0, 0, 1]" "\<lambda>_. []" "\<lambda>_. Inr" "[255]" "empty_update ()"]
  by (simp add: example_eval mp_reach_bytes_def)

text \<open>
  MP\_UNREACH\_NLRI: withdrawn prefixes are decoded the same way and appended to the withdrawn list, and
  an attribute without NLRI is the End-of-RIB marker of its family: it sets \<open>endOfRIB\<close> and adds nothing.
\<close>

theorem mp_unreach_roundtrip:
  assumes "isAddPathEnabled (pi_add_path_capability pi) (afi_of v4) 1 = Inr ap"
    and "list_all (entry_ok v4) es"
    and "bs = be_bytes 2 (if v4 then 1 else 2) @ [1] @ concat (map (encode_entry ap) es)" "length bs < 2 ^ 16"
  shows "parseUnReachNlriAttr ntop6 ls_unreach (length bs) (bs @ rest) pi pd =
    Inr (if es = [] then (pi\<lparr>endOfRIB := True\<rparr>, pd)
         else (pi, pd\<lparr>withdrawn := withdrawn pd @ map (entry_tuple ntop6 v4 ap) es\<rparr>))"
proof -
  let ?nlri = "concat (map (encode_entry ap) es)"
  have nil: "es = [] \<longleftrightarrow> length ?nlri = 0" by (cases es) (auto simp: encode_entry_def)
  then have run: "es \<noteq> [] \<Longrightarrow> parseNlriData_IPv4IPv6 ntop6 v4 (?nlri @ rest) (length ?nlri) pi (withdrawn pd) =
      Inr (withdrawn pd @ map (entry_tuple ntop6 v4 ap) es)"
    using nlri_ip_run [OF assms(2), where ap = ap and rest = rest and acc = "withdrawn pd"] assms(1)
    by (auto simp: parseNlriData_IPv4IPv6_def BGP_SAFI_UNICAST_def)
  have len: "length bs = 3 + length ?nlri" using assms(3) by (simp add: length_be_bytes)
  then have "nat (int (length bs) - 3) mod 2 ^ 16 = length ?nlri" using assms(4) by simp
  moreover have "ntoh 2 (bs @ rest) = Inr (if v4 then 1 else 2)" "rd_u8 (drop 2 (bs @ rest)) = Inr 1"
      "drop 3 (bs @ rest) = ?nlri @ rest"
    using assms(3) by (simp_all add: rd_u8_def ntoh_be rd_def be_val_def)
  ultimately show ?thesis
    using run nil len
    by (cases "es = []") (auto simp: parseUnReachNlriAttr_def unreach_parseAfi_def unreach_parseAfi_IPv4IPv6_def
        afi_safi_defs Let_def)
qed

theorem mp_unreach_roundtrip_example:
  "\<exists>r. parseUnReachNlriAttr (\<lambda>_. []) (\<lambda>_. Inr) (length (be_bytes 2 1 @ [1, 24, 192, 0, 2, 0]))
      (be_bytes 2 1 @ [1, 24, 192, 0, 2, 0]) plain_peer (empty_update ()) = Inr r \<and>
     map prefix (withdrawn (snd r)) = [''192.0.2.0'', ''0.0.0.0''] \<and> fst r = plain_peer"
  using mp_unreach_roundtrip [OF plain_peer_add_path example_entries_ok refl, of "\<lambda>_. []" "\<lambda>_. Inr" "[]" "empty_update ()"]
  by (simp add: example_eval)


definition example_vpn :: "label_nlri list" where
  "example_vpn = [LEntry 0 [16, 17] [0, 1, 10, 0, 0, 1, 0, 100] 24 [192, 0, 2]]"


text \<open>
  C35. A prefix length above 128 overflows the 16-byte stack buffer: the address is copied without a check of
  its length.
\<close>

theorem nlri_prefix_overflow:
  assumes "isAddPathEnabled (pi_add_path_capability pi) (afi_of v4) 1 = Inr False"
    and "128 < unat l" "addr_bytes l \<le> length addr" "0 < len"
  shows "parseNlriData_IPv4IPv6 ntop6 v4 (l # addr) len pi acc = Inl BufferOverflow"
proof -
  have "17 \<le> addr_bytes l" using assms(2) by (simp add: addr_bytes_ceil)
  with assms show ?thesis
    by (simp add: parseNlriData_IPv4IPv6_def BGP_SAFI_UNICAST_def nlri_ip_loop.simps [of ntop6 v4 False len 0]
        read_path_id_def rd_enough copy16_def)
qed

theorem nlri_prefix_overflow_witness:
  "parseNlriData_IPv4IPv6 (\<lambda>_. []) False (136 # replicate 17 1) 18 plain_peer [] = Inl BufferOverflow"
  by (rule nlri_prefix_overflow) (simp_all add: plain_peer_add_path addr_bytes_def)

text \<open>
  On any bytes, the unicast parser reads at most 36 bytes past the announced length.
\<close>

theorem nlri_ip_reads_bounded:
  assumes "isAddPathEnabled (pi_add_path_capability pi) (afi_of v4) 1 = Inr ap" "len + 36 \<le> length data"
  shows "parseNlriData_IPv4IPv6 ntop6 v4 data len pi acc \<noteq> Inl OutOfBounds"
  using assms nlri_ip_loop_no_overread [of len data 0]
  by (simp add: parseNlriData_IPv4IPv6_def BGP_SAFI_UNICAST_def)

theorem nlri_ip_reads_bounded_example:
  "parseNlriData_IPv4IPv6 (\<lambda>_. []) False (replicate 100 255) 64 plain_peer [] \<noteq> Inl OutOfBounds"
  by (rule nlri_ip_reads_bounded [OF plain_peer_add_path]) simp

end
