(* ===== verification/UpdateMsg.thy ===== *)
theory UpdateMsg
  imports MpReach
begin

text \<open>
  \<open>bgp/UpdateMsg.cpp\<close>: the parser of BGP UPDATE messages: header, IPv4 NLRI, path attributes. Sizes of
  type \<open>size_t\<close> in the message header are 64-bit words, because the code subtracts without checking;
  lengths passed as \<open>uint16_t\<close> are reduced modulo \<open>2 ^ 16\<close>.

  \<open>ext\<close> collects the code the parser calls that is outside this model: the printer of IPv6 addresses and
  the link-state parsers of \<open>bgp/linkstate\<close>.
\<close>

record 'ls ext =
  ntop6 :: "bytes \<Rightarrow> string"
  ls_reach :: "'ls ls_parser"
  ls_unreach :: "'ls ls_parser"
  ls_attr :: "nat \<Rightarrow> bytes \<Rightarrow> 'ls parsed_update_data \<Rightarrow> 'ls parsed_update_data result"

section \<open>IPv4 NLRI\<close>

definition v4_prefix :: "u8 \<Rightarrow> u32 \<Rightarrow> bytes \<Rightarrow> prefix_tuple" where
  "v4_prefix l pid b =
     \<lparr>ptype = PREFIX_UNICAST_V4, plen = l, prefix = inet_ntop4 (take 4 (pad16 b)), prefix_bin = pad16 b,
      path_id = pid, isIPv4 = True, labels = []\<rparr>"

function nlri_v4_loop :: "AddPathMap \<Rightarrow> nat \<Rightarrow> nat \<Rightarrow> bytes \<Rightarrow> prefix_tuple list \<Rightarrow> prefix_tuple list result" where
  "nlri_v4_loop ap_map len read_size data prefixes =
     (if read_size < len
      then andThen (isAddPathEnabled ap_map (int BGP_AFI_IPV4) (int BGP_SAFI_UNICAST)) (\<lambda>enabled.
           andThen (read_path_id enabled len read_size data) (\<lambda>(pid, read_size, data).
           andThen (rd_u8 data) (\<lambda>l.
             if addr_bytes l \<le> 4
             then andThen (rd (addr_bytes l) (drop 1 data)) (\<lambda>b.
                    nlri_v4_loop ap_map len (read_size + addr_bytes l + 1) (drop (1 + addr_bytes l) data)
                      (prefixes @ [v4_prefix l pid b]))
             else nlri_v4_loop ap_map len (read_size + 1) (drop 1 data) prefixes)))
      else Inr prefixes)"
  by pat_completeness auto
termination
  by (relation "measure (\<lambda>(_, len, r, _, _). len - r)") (auto dest!: retD [OF read_path_id_mono])

declare nlri_v4_loop.simps [simp del]

definition parseNlriData_v4 :: "peer_info \<Rightarrow> bytes \<Rightarrow> nat \<Rightarrow> prefix_tuple list \<Rightarrow> prefix_tuple list result" where
  "parseNlriData_v4 pi data len prefixes = nlri_v4_loop (pi_add_path_capability pi) len 0 data prefixes"

section \<open>AS path\<close>

text \<open>The accumulated path: text, number of AS numbers (\<open>uint16_t\<close>), last AS number.\<close>

type_synonym as_acc = "string \<times> u16 \<times> nat"

fun segment_loop :: "nat \<Rightarrow> nat \<Rightarrow> bytes \<Rightarrow> as_acc \<Rightarrow> (bytes \<times> as_acc) result" where
  "segment_loop octets 0 data acc = Inr (data, acc)"
| "segment_loop octets (Suc n) data (path, cnt, asn) =
     andThen (ntoh octets data) (\<lambda>a. segment_loop octets n (drop octets data) (path @ '' '' @ dec_of_nat a, cnt + 1, a))"

function as_path_loop :: "nat \<Rightarrow> int \<Rightarrow> bytes \<Rightarrow> as_acc \<Rightarrow> as_acc option result" where
  "as_path_loop octets path_len data acc =
     (if path_len > 0
      then andThen (rd 2 data) (\<lambda>h.
             let seg_len = unat (h ! 1); path_len = path_len - 2;
                 acc = (if h ! 0 = 1 then (fst acc @ '' {'', snd acc) else acc)
             in if int (seg_len * octets) > path_len then Inr None
                else andThen (segment_loop octets seg_len (drop 2 data) acc) (\<lambda>(data, acc).
                       as_path_loop octets (path_len - int (seg_len * octets)) data
                         (if h ! 0 = 1 then (fst acc @ '' }'', snd acc) else acc)))
      else Inr (Some acc))"
  by pat_completeness auto
termination
proof (relation "measure (\<lambda>(_, n, _, _). nat n)", goal_cases)
  case (2 octets path_len data acc h y ya yb z a b)
  have "0 \<le> int (y * octets)" by simp
  then show ?case using 2 by (simp del: of_nat_mult)
qed simp

declare as_path_loop.simps [simp del]

definition as_path_attrs :: "as_acc \<Rightarrow> attrs_map \<Rightarrow> attrs_map" where
  "as_path_attrs acc m = (case acc of (path, cnt, asn) \<Rightarrow>
     m(2 \<mapsto> path, 9000 \<mapsto> dec_of_nat (unat cnt), 9001 \<mapsto> dec_of_nat asn))"

text \<open>
  One call of \<open>parseAttr_AsPath\<close>: \<open>None\<close> when the path is too short for the octet size, where the source
  either switches the peer to 2-octet numbers and calls itself once more, or gives up.
\<close>

definition as_path_try :: "bool \<Rightarrow> nat \<Rightarrow> bytes \<Rightarrow> attrs_map \<Rightarrow> attrs_map option result" where
  "as_path_try two attr_len data m =
     (let octets = (if two then 2 else 4)
      in if attr_len < octets then Inr (Some m)
         else andThen (as_path_loop octets (int attr_len) data ([], 0, 0)) (\<lambda>r. case r of
                None \<Rightarrow> Inr None
              | Some acc \<Rightarrow> Inr (Some (as_path_attrs acc m))))"

definition parseAttr_AsPath :: "nat \<Rightarrow> bytes \<Rightarrow> peer_info \<Rightarrow> attrs_map \<Rightarrow> (peer_info \<times> attrs_map) result" where
  "parseAttr_AsPath attr_len data pi m =
     andThen (as_path_try (using_2_octet_asn pi) attr_len data m) (\<lambda>r. case r of
       Some m' \<Rightarrow> Inr (pi, m')
     | None \<Rightarrow>
         if using_2_octet_asn pi then Inr (pi, m)
         else let pi = pi\<lparr>using_2_octet_asn := True\<rparr>
              in andThen (as_path_try True attr_len data m) (\<lambda>r. case r of
                   Some m' \<Rightarrow> Inr (pi, m')
                 | None \<Rightarrow> Inr (pi, m)))"

section \<open>Other attributes\<close>

definition parseAttr_Aggegator :: "nat \<Rightarrow> bytes \<Rightarrow> attrs_map \<Rightarrow> attrs_map result" where
  "parseAttr_Aggegator attr_len data m =
     (if attr_len = 8 then
        andThen (ntoh 4 data) (\<lambda>v. andThen (rd 4 (drop 4 data)) (\<lambda>i.
          Inr (m(7 \<mapsto> dec_of_nat v @ '' '' @ inet_ntop4 i))))
      else if attr_len = 6 then
        andThen (ntoh 2 data) (\<lambda>v. andThen (rd 4 (drop 2 data)) (\<lambda>i.
          Inr (m(7 \<mapsto> dec_of_nat v @ '' '' @ inet_ntop4 i))))
      else Inr m)"

text \<open>The loops over fixed-size entries: \<open>for (int i = 0; i < attr_len; i += k)\<close>.\<close>

function chunk_loop :: "nat \<Rightarrow> (nat \<Rightarrow> bytes \<Rightarrow> string) \<Rightarrow> nat \<Rightarrow> nat \<Rightarrow> bytes \<Rightarrow> string \<Rightarrow> string result" where
  "chunk_loop k f i n data acc =
     (if i < n \<and> 0 < k
      then andThen (rd k data) (\<lambda>b. chunk_loop k f (i + k) n (drop k data) (acc @ f i b))
      else Inr acc)"
  by pat_completeness auto
termination by (relation "measure (\<lambda>(_, _, i, n, _, _). n - i)") auto

declare chunk_loop.simps [simp del]

definition cluster_text :: "nat \<Rightarrow> bytes \<Rightarrow> string" where
  "cluster_text i b = inet_ntop4 b @ '' ''"

definition community_text :: "nat \<Rightarrow> bytes \<Rightarrow> string" where
  "community_text i b = (if i \<noteq> 0 then '' '' else []) @
     dec_of_nat (le_val (SWAP_BYTES (take 2 b) 2)) @ '':'' @ dec_of_nat (le_val (SWAP_BYTES (drop 2 b) 2))"

definition large_community_text :: "nat \<Rightarrow> bytes \<Rightarrow> string" where
  "large_community_text i b = (if i \<noteq> 0 then '' '' else []) @
     dec_of_nat (le_val (SWAP_BYTES (take 4 b) 4)) @ '':'' @
     dec_of_nat (le_val (SWAP_BYTES (take 4 (drop 4 b)) 4)) @ '':'' @
     dec_of_nat (le_val (SWAP_BYTES (drop 8 b) 4))"

definition origin_text :: "u8 \<Rightarrow> string" where
  "origin_text b = (if b = 0 then ''igp'' else if b = 1 then ''egp'' else if b = 2 then ''incomplete'' else [])"

type_synonym 'ls update_state = "peer_info \<times> 'ls parsed_update_data"

definition set_attr :: "nat \<Rightarrow> string \<Rightarrow> 'ls update_state \<Rightarrow> 'ls update_state" where
  "set_attr k s st = (fst st, (snd st)\<lparr>attrs := (attrs (snd st))(k \<mapsto> s)\<rparr>)"

definition put_attrs :: "'ls update_state \<Rightarrow> attrs_map \<Rightarrow> 'ls update_state" where
  "put_attrs st m = (fst st, (snd st)\<lparr>attrs := m\<rparr>)"

definition parseAttrData :: "'ls ext \<Rightarrow> u8 \<Rightarrow> nat \<Rightarrow> bytes \<Rightarrow> 'ls update_state \<Rightarrow> 'ls update_state result" where
  "parseAttrData x attr_type attr_len data st =
     (let pi = fst st; pd = snd st in
      if attr_type = 1 then andThen (rd_u8 data) (\<lambda>b. Inr (set_attr 1 (origin_text b) st))
      else if attr_type = 2 then
        andThen (parseAttr_AsPath attr_len data pi (attrs pd)) (\<lambda>(pi, m). Inr (pi, pd\<lparr>attrs := m\<rparr>))
      else if attr_type = 3 then andThen (rd 4 data) (\<lambda>b. Inr (set_attr 3 (inet_ntop4 b) st))
      else if attr_type = 4 then andThen (ntoh 4 data) (\<lambda>v. Inr (set_attr 4 (dec_of_nat v) st))
      else if attr_type = 5 then andThen (ntoh 4 data) (\<lambda>v. Inr (set_attr 5 (dec_of_nat v) st))
      else if attr_type = 6 then Inr (set_attr 6 ''1'' st)
      else if attr_type = 7 then andThen (parseAttr_Aggegator attr_len data (attrs pd)) (\<lambda>m. Inr (put_attrs st m))
      else if attr_type = 9 then andThen (rd 4 data) (\<lambda>b. Inr (set_attr 9 (inet_ntop4 b) st))
      else if attr_type = 10 then
        andThen (chunk_loop 4 cluster_text 0 attr_len data []) (\<lambda>s. Inr (set_attr 10 s st))
      else if attr_type = 8 then
        andThen (chunk_loop 4 community_text 0 attr_len data []) (\<lambda>s. Inr (set_attr 8 s st))
      else if attr_type = 16 then andThen (parseExtCommunities attr_len data (attrs pd)) (\<lambda>m. Inr (put_attrs st m))
      else if attr_type = 25 then
        andThen (parsev6ExtCommunities (ntop6 x) attr_len data (attrs pd)) (\<lambda>m. Inr (put_attrs st m))
      else if attr_type = 14 then
        andThen (parseReachNlriAttr (ntop6 x) (ls_reach x) attr_len data pi pd) (\<lambda>pd. Inr (pi, pd))
      else if attr_type = 15 then parseUnReachNlriAttr (ntop6 x) (ls_unreach x) attr_len data pi pd
      else if attr_type = 29 then andThen (ls_attr x attr_len data pd) (\<lambda>pd. Inr (pi, pd))
      else if attr_type = 32 then
        if attr_len \<ge> 12
        then andThen (chunk_loop 12 large_community_text 0 attr_len data []) (\<lambda>s. Inr (set_attr 32 s st))
        else Inr st
      else Inr st)"

section \<open>The attribute list\<close>

text \<open>The length field: its value, the bytes up to its end from the start of the attribute, and its size.\<close>

definition attr_length :: "u8 \<Rightarrow> bytes \<Rightarrow> (nat \<times> nat \<times> nat) result" where
  "attr_length flags data =
     (if ATTR_FLAG_EXTENDED flags then andThen (ntoh 2 (drop 2 data)) (\<lambda>l. Inr (l, 4, 2))
      else andThen (rd_u8 (drop 2 data)) (\<lambda>l. Inr (unat l, 3, 1)))"

function attr_loop :: "'ls ext \<Rightarrow> nat \<Rightarrow> nat \<Rightarrow> bytes \<Rightarrow> 'ls update_state \<Rightarrow> 'ls update_state result" where
  "attr_loop x len read_size data st =
     (if read_size < len
      then andThen (rd 2 data) (\<lambda>h.
           andThen (attr_length (h ! 0) data) (\<lambda>(attr_len, off, n).
             let data = drop off data; read_size = read_size + n
             in if attr_len > 0 \<and> read_size + attr_len \<le> len
                then andThen (parseAttrData x (h ! 1) attr_len data st) (\<lambda>st.
                       attr_loop x len (read_size + attr_len + 2) (drop attr_len data) st)
                else if attr_len > 0 then Inr st
                else attr_loop x len (read_size + 2) data st))
      else Inr st)"
  by pat_completeness auto
termination by (relation "measure (\<lambda>(_, len, r, _, _). len - r)") auto

declare attr_loop.simps [simp del]

definition parseAttributes :: "'ls ext \<Rightarrow> bytes \<Rightarrow> nat \<Rightarrow> 'ls update_state \<Rightarrow> 'ls update_state result" where
  "parseAttributes x data len st =
     (if len = 0 then Inr st else if len < 3 then Inr st else attr_loop x len 0 data st)"

section \<open>The message\<close>

definition parseUpdateMsg :: "'ls ext \<Rightarrow> bytes \<Rightarrow> u64 \<Rightarrow> 'ls update_state \<Rightarrow> (u64 \<times> 'ls update_state) result" where
  "parseUpdateMsg x data siz st =
     (let st = (fst st, (snd st)\<lparr>advertised := [], attrs := (\<lambda>_. None), withdrawn := []\<rparr>)
      in if siz < 2 then Inr (0, st)
      else andThen (ntoh 2 data) (\<lambda>withdrawn_len.
        let read_size = 2 in
        if siz - read_size < of_nat withdrawn_len then Inr (0, st)
        else
          let withdrawnPtr = drop 2 data;
              bufPtr = drop (2 + withdrawn_len) data;
              read_size = read_size + of_nat withdrawn_len
          in andThen (ntoh 2 bufPtr) (\<lambda>attr_len.
            let bufPtr = drop 2 bufPtr; read_size = read_size + 2 in
            if siz - read_size < of_nat attr_len then Inr (0, st)
            else
              let attrPtr = bufPtr; nlriPtr = drop attr_len bufPtr; read_size = read_size + of_nat attr_len
              in if withdrawn_len = 0 \<and> siz - read_size = 0 \<and> attr_len = 0
                 then Inr (read_size, ((fst st)\<lparr>endOfRIB := True\<rparr>, snd st))
                 else
                   andThen (if withdrawn_len > 0
                            then andThen (parseNlriData_v4 (fst st) withdrawnPtr withdrawn_len (withdrawn (snd st))) (\<lambda>ps.
                                   Inr (fst st, (snd st)\<lparr>withdrawn := ps\<rparr>))
                            else Inr st) (\<lambda>st.
                   andThen (if attr_len > 0 then parseAttributes x attrPtr attr_len st else Inr st) (\<lambda>st.
                     if siz - read_size > 0
                     then andThen (parseNlriData_v4 (fst st) nlriPtr (unat (siz - read_size) mod 2 ^ 16) (advertised (snd st))) (\<lambda>ps.
                            Inr (siz, (fst st, (snd st)\<lparr>advertised := ps\<rparr>)))
                     else Inr (read_size, st))))))"

section \<open>Reference: AS paths\<close>

datatype as_segment = Segment (is_set: bool) (asns: "nat list")

definition encode_segment :: "nat \<Rightarrow> as_segment \<Rightarrow> bytes" where
  "encode_segment octets s =
     [if is_set s then 1 else 2, of_nat (length (asns s))] @ concat (map (be_bytes octets) (asns s))"

definition segment_ok :: "nat \<Rightarrow> as_segment \<Rightarrow> bool" where
  "segment_ok octets s \<longleftrightarrow> length (asns s) < 256 \<and> list_all (\<lambda>a. a < 256 ^ octets) (asns s)"

definition segment_text :: "as_segment \<Rightarrow> string" where
  "segment_text s = (if is_set s then '' {'' else []) @ concat (map (\<lambda>a. '' '' @ dec_of_nat a) (asns s)) @
     (if is_set s then '' }'' else [])"

definition all_asns :: "as_segment list \<Rightarrow> nat list" where
  "all_asns segs = concat (map asns segs)"

definition path_acc :: "as_acc \<Rightarrow> as_segment list \<Rightarrow> as_acc" where
  "path_acc acc segs = (case acc of (path, cnt, asn) \<Rightarrow>
     (path @ concat (map segment_text segs), cnt + of_nat (length (all_asns segs)), last (asn # all_asns segs)))"

lemma length_concat_be: "length (concat (map (be_bytes k) xs)) = k * length xs"
  by (induction xs) (simp_all add: length_be_bytes)

lemma segment_loop_run:
  "list_all (\<lambda>a. a < 256 ^ octets) xs \<Longrightarrow>
   segment_loop octets (length xs) (concat (map (be_bytes octets) xs) @ rest) (path, cnt, asn) =
     Inr (rest, path @ concat (map (\<lambda>a. '' '' @ dec_of_nat a) xs), cnt + of_nat (length xs), last (asn # xs))"
  by (induction xs arbitrary: path cnt asn) (simp_all add: be_val_be_bytes add.assoc)

lemma length_encode_segment: "length (encode_segment octets s) = 2 + octets * length (asns s)"
  by (simp add: encode_segment_def length_concat_be)

lemma as_path_step:
  assumes ok: "segment_ok octets s" and fits: "int (length (encode_segment octets s)) \<le> n"
  shows "as_path_loop octets n (encode_segment octets s @ rest) acc =
    as_path_loop octets (n - int (length (encode_segment octets s))) rest (path_acc acc [s])"
proof -
  obtain path cnt asn where acc: "acc = (path, cnt, asn)" by (cases acc)
  have cnt: "unat (of_nat (length (asns s)) :: u8) = length (asns s)"
    using ok by (simp add: segment_ok_def unat_of_nat)
  have lu: "uint (of_nat (length (asns s)) :: u8) = int (length (asns s))"
    using cnt by (metis uint_nat)
  have run: "segment_loop octets (length (asns s)) (concat (map (be_bytes octets) (asns s)) @ rest) (t, c, a) =
      Inr (rest, t @ concat (map (\<lambda>a. '' '' @ dec_of_nat a) (asns s)), c + of_nat (length (asns s)), last (a # asns s))"
    for t c a using ok by (intro segment_loop_run) (simp add: segment_ok_def)
  have len: "int (length (encode_segment octets s)) = 2 + int octets * int (length (asns s))"
    by (simp add: length_encode_segment)
  have "0 \<le> int octets * int (length (asns s))" by simp
  with fits len have "0 < n" "2 + int octets * int (length (asns s)) \<le> n" by linarith+
  then have pos: "0 < n" "\<not> n - 2 < int (length (asns s)) * int octets"
    by (simp_all add: mult.commute)
  show ?thesis
    unfolding acc
    by (subst as_path_loop.simps)
      (use pos in \<open>simp add: encode_segment_def Let_def cnt lu run path_acc_def all_asns_def segment_text_def
        rd_def length_concat_be algebra_simps del: last.simps\<close>)
qed

lemma path_acc_Cons: "path_acc (path_acc acc [s]) segs = path_acc acc (s # segs)"
  by (cases acc) (simp add: path_acc_def all_asns_def last_append)

lemma as_path_run:
  "list_all (segment_ok octets) segs \<Longrightarrow> n = int (length (concat (map (encode_segment octets) segs))) \<Longrightarrow>
   as_path_loop octets n (concat (map (encode_segment octets) segs) @ rest) acc = Inr (Some (path_acc acc segs))"
proof (induction segs arbitrary: n acc)
  case Nil
  then show ?case by (cases acc) (simp add: as_path_loop.simps path_acc_def all_asns_def)
next
  case (Cons s segs)
  then show ?case by (simp add: as_path_step path_acc_Cons)
qed

lemma as_path_try_run:
  assumes "list_all (segment_ok octets) segs" "octets = (if two then 2 else 4)" "all_asns segs \<noteq> []"
    "enc = concat (map (encode_segment octets) segs)"
  shows "as_path_try two (length enc) (enc @ rest) m = Inr (Some (as_path_attrs (path_acc ([], 0, 0) segs) m))"
proof -
  obtain s where s: "s \<in> set segs" "asns s \<noteq> []" using assms(3) by (auto simp: all_asns_def)
  have "length (encode_segment octets s) \<le> length enc"
    unfolding assms(4) length_concat using s(1) by (intro member_le_sum_list) auto
  moreover have "octets * 1 \<le> octets * length (asns s)"
    using s(2) by (intro mult_le_mono2) (cases "asns s"; simp)
  ultimately have "octets \<le> length enc" unfolding length_encode_segment by linarith
  with assms show ?thesis by (auto simp: as_path_try_def Let_def as_path_run)
qed

section \<open>Reference: path attributes\<close>

datatype path_attr =
    Origin u8
  | AsPath "as_segment list"
  | NextHop bytes
  | Med nat
  | LocalPref nat
  | AtomicAggregate
  | Aggregator nat bytes
  | Communities "(nat \<times> nat) list"
  | OriginatorId bytes
  | ClusterList "bytes list"
  | LargeCommunities "(nat \<times> nat \<times> nat) list"
  | Ignored u8 bytes

fun attr_code :: "path_attr \<Rightarrow> u8" where
  "attr_code (Origin _) = 1"
| "attr_code (AsPath _) = 2"
| "attr_code (NextHop _) = 3"
| "attr_code (Med _) = 4"
| "attr_code (LocalPref _) = 5"
| "attr_code AtomicAggregate = 6"
| "attr_code (Aggregator _ _) = 7"
| "attr_code (Communities _) = 8"
| "attr_code (OriginatorId _) = 9"
| "attr_code (ClusterList _) = 10"
| "attr_code (LargeCommunities _) = 32"
| "attr_code (Ignored t _) = t"

fun attr_value :: "nat \<Rightarrow> path_attr \<Rightarrow> bytes" where
  "attr_value octets (Origin b) = [b]"
| "attr_value octets (AsPath segs) = concat (map (encode_segment octets) segs)"
| "attr_value octets (NextHop b) = b"
| "attr_value octets (Med v) = be_bytes 4 v"
| "attr_value octets (LocalPref v) = be_bytes 4 v"
| "attr_value octets AtomicAggregate = []"
| "attr_value octets (Aggregator a i) = be_bytes octets a @ i"
| "attr_value octets (Communities cs) = concat (map (\<lambda>(a, b). be_bytes 2 a @ be_bytes 2 b) cs)"
| "attr_value octets (OriginatorId b) = b"
| "attr_value octets (ClusterList cs) = concat cs"
| "attr_value octets (LargeCommunities cs) = concat (map (\<lambda>(a, b, c). be_bytes 4 a @ be_bytes 4 b @ be_bytes 4 c) cs)"
| "attr_value octets (Ignored t v) = v"

text \<open>The attributes with these codes are logged and skipped, or have an empty case.\<close>

definition skipped_code :: "u8 \<Rightarrow> bool" where
  "skipped_code t \<longleftrightarrow> t \<notin> {1, 2, 3, 4, 5, 6, 7, 8, 9, 10, 14, 15, 16, 25, 29, 32}"

fun attr_fields_ok :: "nat \<Rightarrow> path_attr \<Rightarrow> bool" where
  "attr_fields_ok octets (Origin b) \<longleftrightarrow> True"
| "attr_fields_ok octets (AsPath segs) \<longleftrightarrow> list_all (segment_ok octets) segs \<and> (segs = [] \<or> all_asns segs \<noteq> [])"
| "attr_fields_ok octets (NextHop b) \<longleftrightarrow> length b = 4"
| "attr_fields_ok octets (Med v) \<longleftrightarrow> v < 2 ^ 32"
| "attr_fields_ok octets (LocalPref v) \<longleftrightarrow> v < 2 ^ 32"
| "attr_fields_ok octets AtomicAggregate \<longleftrightarrow> True"
| "attr_fields_ok octets (Aggregator a i) \<longleftrightarrow> a < 256 ^ octets \<and> length i = 4"
| "attr_fields_ok octets (Communities cs) \<longleftrightarrow> list_all (\<lambda>(a, b). a < 2 ^ 16 \<and> b < 2 ^ 16) cs"
| "attr_fields_ok octets (OriginatorId b) \<longleftrightarrow> length b = 4"
| "attr_fields_ok octets (ClusterList cs) \<longleftrightarrow> list_all (\<lambda>c. length c = 4) cs"
| "attr_fields_ok octets (LargeCommunities cs) \<longleftrightarrow> list_all (\<lambda>(a, b, c). a < 2 ^ 32 \<and> b < 2 ^ 32 \<and> c < 2 ^ 32) cs"
| "attr_fields_ok octets (Ignored t v) \<longleftrightarrow> skipped_code t"

fun attr_map :: "path_attr \<Rightarrow> attrs_map \<Rightarrow> attrs_map" where
  "attr_map (Origin b) m = m(1 \<mapsto> origin_text b)"
| "attr_map (AsPath segs) m =
     (if segs = [] then m
      else m(2 \<mapsto> concat (map segment_text segs), 9000 \<mapsto> dec_of_nat (length (all_asns segs) mod 2 ^ 16),
             9001 \<mapsto> dec_of_nat (last (all_asns segs))))"
| "attr_map (NextHop b) m = m(3 \<mapsto> inet_ntop4 b)"
| "attr_map (Med v) m = m(4 \<mapsto> dec_of_nat v)"
| "attr_map (LocalPref v) m = m(5 \<mapsto> dec_of_nat v)"
| "attr_map AtomicAggregate m = m"
| "attr_map (Aggregator a i) m = m(7 \<mapsto> dec_of_nat a @ '' '' @ inet_ntop4 i)"
| "attr_map (Communities cs) m =
     (if cs = [] then m else m(8 \<mapsto> join_space (map (\<lambda>(a, b). dec_of_nat a @ '':'' @ dec_of_nat b) cs)))"
| "attr_map (OriginatorId b) m = m(9 \<mapsto> inet_ntop4 b)"
| "attr_map (ClusterList cs) m = (if cs = [] then m else m(10 \<mapsto> concat (map (\<lambda>c. inet_ntop4 c @ '' '') cs)))"
| "attr_map (LargeCommunities cs) m =
     (if cs = [] then m
      else m(32 \<mapsto> join_space (map (\<lambda>(a, b, c). dec_of_nat a @ '':'' @ dec_of_nat b @ '':'' @ dec_of_nat c) cs)))"
| "attr_map (Ignored t v) m = m"

text \<open>An attribute on the wire: its flags octet and its content.\<close>

definition encode_attr :: "nat \<Rightarrow> u8 \<times> path_attr \<Rightarrow> bytes" where
  "encode_attr octets fa = (case fa of (flags, a) \<Rightarrow>
     [flags, attr_code a] @
     (if ATTR_FLAG_EXTENDED flags then be_bytes 2 (length (attr_value octets a))
      else [of_nat (length (attr_value octets a))]) @ attr_value octets a)"

definition attr_ok :: "nat \<Rightarrow> u8 \<times> path_attr \<Rightarrow> bool" where
  "attr_ok octets fa \<longleftrightarrow> attr_fields_ok octets (snd fa) \<and>
     length (attr_value octets (snd fa)) < (if ATTR_FLAG_EXTENDED (fst fa) then 2 ^ 16 else 2 ^ 8)"

definition add_attr :: "'ls update_state \<Rightarrow> u8 \<times> path_attr \<Rightarrow> 'ls update_state" where
  "add_attr st fa = put_attrs st (attr_map (snd fa) (attrs (snd st)))"

subsection \<open>Fixed-size entries\<close>

lemma chunk_loop_run:
  assumes "0 < k"
  shows "list_all (\<lambda>c. length c = k) cs \<Longrightarrow> n = i + length (concat cs) \<Longrightarrow>
   chunk_loop k f i n (concat cs @ rest) acc =
     Inr (acc @ concat (map (\<lambda>j. f (i + j * k) (cs ! j)) [0..<length cs]))"
proof (induction cs arbitrary: i acc)
  case Nil
  then show ?case by (simp add: chunk_loop.simps)
next
  case (Cons c cs)
  have "map (\<lambda>j. f (i + j * k) ((c # cs) ! j)) [0..<length (c # cs)] =
      f i c # map (\<lambda>j. f (i + k + j * k) (cs ! j)) [0..<length cs]"
    by (simp add: upt_conv_Cons map_Suc_upt [symmetric] add.assoc del: upt_Suc)
  with Cons assms show ?case by (subst chunk_loop.simps) simp
qed

lemma join_space_Cons: "join_space (s # ss) = s @ concat (map (\<lambda>t. '' '' @ t) ss)"
  by (induction ss arbitrary: s) simp_all

lemma spaced_chunks:
  assumes "\<And>i c. c \<in> set cs \<Longrightarrow> f i c = (if i \<noteq> 0 then '' '' else []) @ g c" "0 < k"
  shows "concat (map (\<lambda>j. f (0 + j * k) (cs ! j)) [0..<length cs]) = join_space (map g cs)"
proof (cases cs)
  case (Cons c ds)
  have "map (\<lambda>j. f (0 + j * k) (cs ! j)) [0..<length cs] = g c # map (\<lambda>d. '' '' @ g d) ds"
  proof (rule nth_equalityI)
    fix i assume "i < length (map (\<lambda>j. f (0 + j * k) (cs ! j)) [0..<length cs])"
    then have i: "i < length cs" by simp
    have "f (0 + i * k) (cs ! i) = (if i \<noteq> 0 then '' '' else []) @ g (cs ! i)"
      using assms(1) [OF nth_mem [OF i], of "0 + i * k"] assms(2) by simp
    with i show "map (\<lambda>j. f (0 + j * k) (cs ! j)) [0..<length cs] ! i = (g c # map (\<lambda>d. '' '' @ g d) ds) ! i"
      by (cases i) (simp_all add: Cons del: upt_Suc)
  qed (simp add: Cons)
  then show ?thesis by (simp add: Cons join_space_Cons comp_def)
qed simp

lemma community_text_run:
  "a < 2 ^ 16 \<Longrightarrow> b < 2 ^ 16 \<Longrightarrow> community_text i (be_bytes 2 a @ be_bytes 2 b) =
     (if i \<noteq> 0 then '' '' else []) @ dec_of_nat a @ '':'' @ dec_of_nat b"
  by (simp add: community_text_def be_val_be_bytes length_be_bytes del: be_bytes_numeral)

lemma large_community_text_run:
  "a < 2 ^ 32 \<Longrightarrow> b < 2 ^ 32 \<Longrightarrow> c < 2 ^ 32 \<Longrightarrow>
   large_community_text i (be_bytes 4 a @ be_bytes 4 b @ be_bytes 4 c) =
     (if i \<noteq> 0 then '' '' else []) @ dec_of_nat a @ '':'' @ dec_of_nat b @ '':'' @ dec_of_nat c"
  by (simp add: large_community_text_def be_val_be_bytes length_be_bytes del: be_bytes_numeral)

lemma mapped_chunks:
  assumes "0 < k" "\<And>e. e \<in> set es \<Longrightarrow> length (enc e) = k"
    and "\<And>i e. e \<in> set es \<Longrightarrow> f i (enc e) = (if i \<noteq> 0 then '' '' else []) @ g e"
    and "n = length (concat (map enc es))"
  shows "chunk_loop k f 0 n (concat (map enc es) @ rest) [] = Inr (join_space (map g es))"
proof -
  have "chunk_loop k f 0 n (concat (map enc es) @ rest) [] =
      Inr ([] @ concat (map (\<lambda>j. f (0 + j * k) (map enc es ! j)) [0..<length (map enc es)]))"
    using assms by (intro chunk_loop_run) (auto simp: list_all_iff)
  also have "map (\<lambda>j. f (0 + j * k) (map enc es ! j)) [0..<length (map enc es)] =
      map (\<lambda>j. (\<lambda>i e. f i (enc e)) (0 + j * k) (es ! j)) [0..<length es]"
    by (simp cong: map_cong)
  also have "concat \<dots> = join_space (map g es)"
    using assms by (intro spaced_chunks) auto
  finally show ?thesis by simp
qed

lemma communities_run:
  assumes "list_all (\<lambda>(a, b). a < 2 ^ 16 \<and> b < 2 ^ 16) cs" "v = attr_value octets (Communities cs)"
  shows "chunk_loop 4 community_text 0 (length v) (v @ rest) [] =
    Inr (join_space (map (\<lambda>(a, b). dec_of_nat a @ '':'' @ dec_of_nat b) cs))"
  unfolding assms(2) attr_value.simps using assms(1)
  by (intro mapped_chunks)
    (auto simp: list_all_iff length_be_bytes community_text_run simp del: be_bytes_numeral)

lemma large_communities_run:
  assumes "list_all (\<lambda>(a, b, c). a < 2 ^ 32 \<and> b < 2 ^ 32 \<and> c < 2 ^ 32) cs" "v = attr_value octets (LargeCommunities cs)"
  shows "chunk_loop 12 large_community_text 0 (length v) (v @ rest) [] =
    Inr (join_space (map (\<lambda>(a, b, c). dec_of_nat a @ '':'' @ dec_of_nat b @ '':'' @ dec_of_nat c) cs))"
  unfolding assms(2) attr_value.simps using assms(1)
  by (intro mapped_chunks)
    (auto simp: list_all_iff length_be_bytes large_community_text_run simp del: be_bytes_numeral)

lemma cluster_list_run:
  assumes "list_all (\<lambda>c. length c = 4) cs"
  shows "chunk_loop 4 cluster_text 0 (length (concat cs)) (concat cs @ rest) [] =
    Inr (concat (map (\<lambda>c. inet_ntop4 c @ '' '') cs))"
proof -
  have "chunk_loop 4 cluster_text 0 (length (concat cs)) (concat cs @ rest) [] =
      Inr ([] @ concat (map (\<lambda>j. cluster_text (0 + j * 4) (cs ! j)) [0..<length cs]))"
    using assms by (intro chunk_loop_run) auto
  also have "map (\<lambda>j. cluster_text (0 + j * 4) (cs ! j)) [0..<length cs] = map (\<lambda>c. inet_ntop4 c @ '' '') cs"
    by (intro nth_equalityI) (simp_all add: cluster_text_def)
  finally show ?thesis by simp
qed

lemma large_value_length: "cs \<noteq> [] \<Longrightarrow> 12 \<le> length (attr_value octets (LargeCommunities cs))"
  by (cases cs) (auto simp: length_be_bytes split: prod.split simp del: be_bytes_numeral)

subsection \<open>One attribute\<close>

lemma as_path_attr_run:
  assumes "attr_fields_ok octets (AsPath segs)" "octets = (if using_2_octet_asn pi then 2 else 4)" "segs \<noteq> []"
    "v = attr_value octets (AsPath segs)"
  shows "parseAttr_AsPath (length v) (v @ rest) pi m = Inr (pi, attr_map (AsPath segs) m)"
proof -
  have ne: "all_asns segs \<noteq> []" and ok: "list_all (segment_ok octets) segs" using assms by auto
  have v: "v = concat (map (encode_segment octets) segs)" using assms(4) by simp
  have "as_path_attrs (path_acc ([], 0, 0) segs) m = attr_map (AsPath segs) m"
    using ne assms(3) by (simp add: as_path_attrs_def path_acc_def unat_of_nat)
  with as_path_try_run [OF ok assms(2) ne v, of rest m] show ?thesis
    by (simp add: parseAttr_AsPath_def)
qed

lemma attr_data_run:
  assumes ok: "attr_fields_ok octets a" and oct: "octets = (if using_2_octet_asn (fst st) then 2 else 4)"
    and ne: "attr_value octets a \<noteq> []" and v: "v = attr_value octets a"
  shows "parseAttrData x (attr_code a) (length v) (v @ rest) st = Inr (put_attrs st (attr_map a (attrs (snd st))))"
proof (cases a)
  case (AsPath segs)
  with ne have "segs \<noteq> []" by auto
  with as_path_attr_run [of octets segs "fst st" v rest "attrs (snd st)"] ok oct v AsPath show ?thesis
    by (simp add: parseAttrData_def Let_def put_attrs_def)
next
  case (Communities cs)
  with ne have "cs \<noteq> []" by auto
  with communities_run [of cs v octets rest] ok v Communities show ?thesis
    by (simp add: parseAttrData_def Let_def put_attrs_def set_attr_def)
next
  case (ClusterList cs)
  with ne have "cs \<noteq> []" by auto
  with cluster_list_run [of cs rest] ok v ClusterList show ?thesis
    by (simp add: parseAttrData_def Let_def put_attrs_def set_attr_def)
next
  case (LargeCommunities cs)
  with ne have "cs \<noteq> []" by auto
  with large_communities_run [of cs v octets rest] large_value_length [of cs octets] ok v LargeCommunities
  show ?thesis
    by (simp add: parseAttrData_def Let_def put_attrs_def set_attr_def)
next
  case (Aggregator n i)
  then show ?thesis
    using ok oct v
    by (auto simp: parseAttrData_def Let_def parseAttr_Aggegator_def be_val_be_bytes length_be_bytes simp del: be_bytes_numeral)
next
  case (Ignored t bs)
  then show ?thesis
    using ok v by (simp add: parseAttrData_def Let_def skipped_code_def put_attrs_def)
qed (use ok v ne in \<open>auto simp: parseAttrData_def Let_def set_attr_def put_attrs_def be_val_be_bytes length_be_bytes simp del: be_bytes_numeral\<close>)

subsection \<open>Attribute lists\<close>

lemma attr_length_run:
  assumes "attr_ok octets (flags, a)" "v = attr_value octets a"
  shows "attr_length flags (encode_attr octets (flags, a) @ rest) =
    Inr (length v, if ATTR_FLAG_EXTENDED flags then 4 else 3, if ATTR_FLAG_EXTENDED flags then 2 else 1)"
  using assms
  by (auto simp: attr_length_def encode_attr_def attr_ok_def be_val_be_bytes length_be_bytes unat_of_nat
      simp del: be_bytes_numeral)

lemma empty_value_skipped: "attr_fields_ok octets a \<Longrightarrow> attr_value octets a = [] \<Longrightarrow> attr_map a m = m"
  by (cases a) (auto simp: neq_Nil_conv encode_segment_def split: prod.splits, blast)

lemma attr_loop_step:
  assumes "rd 2 d = Inr [flags, t]" "attr_length flags d = Inr (length v, off, k)" "drop off d = v @ rest"
    and "0 < k" "r + k + length v \<le> len"
    and "if v = [] then st' = st else parseAttrData x t (length v) (v @ rest) st = Inr st'"
  shows "attr_loop x len r d st = attr_loop x len (r + (2 + k) + length v) rest st'"
  using assms by (subst attr_loop.simps) (auto simp: Let_def algebra_simps)

interpretation attr_stream: state_stream
  "\<lambda>st. octets = (if using_2_octet_asn (fst st) then 2 else 4)" "attr_ok octets" "encode_attr octets"
  "add_attr :: 'ls update_state \<Rightarrow> _ \<Rightarrow> _" "attr_loop x" for octets and x :: "'ls ext"
proof
  show "attr_loop x len len d st = Inr st" for len d and st :: "'ls update_state"
    by (simp add: attr_loop.simps)
  show "octets = (if using_2_octet_asn (fst (add_attr st e)) then 2 else 4)"
    if "octets = (if using_2_octet_asn (fst st) then 2 else 4)" for st :: "'ls update_state" and e
    using that by (simp add: add_attr_def put_attrs_def)
  fix st :: "'ls update_state" and e r len rest
  assume oct: "octets = (if using_2_octet_asn (fst st) then 2 else 4)" and ok: "attr_ok octets e"
    and fits: "r + length (encode_attr octets e) \<le> len"
  obtain flags a where e: "e = (flags, a)" by (cases e)
  define v where "v = attr_value octets a"
  let ?k = "if ATTR_FLAG_EXTENDED flags then 2 else 1 :: nat"
  let ?off = "if ATTR_FLAG_EXTENDED flags then 4 else 3 :: nat"
  have len: "length (encode_attr octets e) = 2 + ?k + length v"
    by (simp add: encode_attr_def e v_def length_be_bytes del: be_bytes_numeral)
  have hdr: "rd 2 (encode_attr octets e @ rest) = Inr [flags, attr_code a]"
    by (simp add: encode_attr_def e rd_def)
  have data: "drop ?off (encode_attr octets e @ rest) = v @ rest"
    by (simp add: encode_attr_def e v_def length_be_bytes del: be_bytes_numeral)
  have fields: "attr_fields_ok octets a" using ok by (simp add: attr_ok_def e)
  have eff: "if v = [] then add_attr st e = st
      else parseAttrData x (attr_code a) (length v) (v @ rest) st = Inr (add_attr st e)"
    using attr_data_run [OF fields oct _ v_def] empty_value_skipped [OF fields, of "attrs (snd st)"]
    by (simp add: v_def add_attr_def put_attrs_def e)
  have "attr_loop x len r (encode_attr octets e @ rest) st =
      attr_loop x len (r + (2 + ?k) + length v) rest (add_attr st e)"
    using fits len
    by (intro attr_loop_step [OF hdr attr_length_run [OF ok [unfolded e] v_def, folded e] data _ _ eff]) simp_all
  then show "attr_loop x len r (encode_attr octets e @ rest) st =
      attr_loop x len (r + length (encode_attr octets e)) rest (add_attr st e)"
    by (simp only: len add.assoc)
qed

section \<open>Reference: UPDATE messages\<close>

lemma v4_stream:
  assumes "isAddPathEnabled m (int BGP_AFI_IPV4) (int BGP_SAFI_UNICAST) = Inr ap"
  shows "record_stream (entry_ok True) (encode_entry ap) (\<lambda>acc e. acc @ [entry_tuple f6 True ap e]) (nlri_v4_loop m)"
proof
  show "nlri_v4_loop m len len d acc = Inr acc" for len d acc
    by (simp add: nlri_v4_loop.simps)
  fix e r len rest acc
  assume ok: "entry_ok True e" and fits: "r + length (encode_entry ap e) \<le> len"
  have len: "length (encode_entry ap e) = (if ap then 4 else 0) + 1 + length (e_addr e)"
    by (simp add: encode_entry_def length_be_bytes del: be_bytes_numeral)
  have "e_pid e < 2 ^ 32" "ap \<longrightarrow> 4 \<le> len - r" using ok fits len by (auto simp: entry_ok_def)
  note pid = read_path_id_run [OF this, of rest]
  have ab: "addr_bytes (of_nat (e_bits e)) = length (e_addr e)"
    using ok unat_bits [OF ok] by (simp add: addr_bytes_ceil entry_ok_def)
  have small: "length (e_addr e) \<le> 4"
    using ok div_le_mono [of "e_bits e + 7" 39 8] by (simp add: entry_ok_def)
  from pid ab small fits len assms show "nlri_v4_loop m len r (encode_entry ap e @ rest) acc =
      nlri_v4_loop m len (r + length (encode_entry ap e)) rest (acc @ [entry_tuple f6 True ap e])"
    by (subst nlri_v4_loop.simps)
      (simp add: entry_tuple_def nlri_prefix_def v4_prefix_def print_ip_def add.assoc add.commute)
qed

lemma nlri_v4_run:
  assumes "isAddPathEnabled (pi_add_path_capability pi) (int BGP_AFI_IPV4) (int BGP_SAFI_UNICAST) = Inr ap"
    "list_all (entry_ok True) es"
  shows "parseNlriData_v4 pi (concat (map (encode_entry ap) es) @ rest) (length (concat (map (encode_entry ap) es))) acc =
    Inr (acc @ map (entry_tuple f6 True ap) es)"
  unfolding parseNlriData_v4_def
  by (simp only: record_stream.loop_run_0 [OF v4_stream [OF assms(1), of f6] assms(2)] foldl_snoc_map)

lemma parseAttributes_run:
  assumes "octets = (if using_2_octet_asn (fst st) then 2 else 4)" "list_all (attr_ok octets) fas"
  shows "parseAttributes x (concat (map (encode_attr octets) fas) @ rest) (length (concat (map (encode_attr octets) fas))) st =
    Inr (foldl add_attr st fas)"
proof (cases fas)
  case Nil
  then show ?thesis by (simp add: parseAttributes_def)
next
  case (Cons fa fas')
  have "3 \<le> length (concat (map (encode_attr octets) fas))"
    by (simp add: Cons encode_attr_def split: prod.split)
  then have "length (concat (map (encode_attr octets) fas)) \<noteq> 0" "\<not> length (concat (map (encode_attr octets) fas)) < 3"
    by linarith+
  then show ?thesis
    by (simp only: parseAttributes_def if_False attr_stream.run_0 [OF assms])
qed

text \<open>The body of an UPDATE message: withdrawn routes, path attributes, announced routes.\<close>

definition encode_update :: "nat \<Rightarrow> bool \<Rightarrow> nlri_entry list \<Rightarrow> (u8 \<times> path_attr) list \<Rightarrow> nlri_entry list \<Rightarrow> bytes" where
  "encode_update octets ap wd fas adv =
     (let w = concat (map (encode_entry ap) wd); a = concat (map (encode_attr octets) fas)
      in be_bytes 2 (length w) @ w @ be_bytes 2 (length a) @ a @ concat (map (encode_entry ap) adv))"

lemma u64_of_nat_less:
  "m < 2 ^ 64 \<Longrightarrow> n < 2 ^ 64 \<Longrightarrow> (of_nat m :: u64) < of_nat n \<longleftrightarrow> m < n"
  by (simp add: word_less_nat_alt unat_of_nat)

lemma u64_of_nat_diff: "n \<le> m \<Longrightarrow> (of_nat m :: u64) - of_nat n = of_nat (m - n)"
  by (simp add: of_nat_diff)

lemma add_attr_simps [simp]:
  "fst (foldl add_attr st fas) = fst st"
  "withdrawn (snd (foldl add_attr st fas)) = withdrawn (snd st)"
  "advertised (snd (foldl add_attr st fas)) = advertised (snd st)"
  by (induction fas arbitrary: st) (simp_all add: add_attr_def put_attrs_def)

lemma foldl_add_attr:
  "foldl add_attr (pi, pd) fas = (pi, pd\<lparr>attrs := foldl (\<lambda>m fa. attr_map (snd fa) m) (attrs pd) fas\<rparr>)"
  by (induction fas arbitrary: pd) (simp_all add: add_attr_def put_attrs_def)

lemma update_split:
  assumes len: "length w = wl" "length a = al" "4 + wl + al + n < 2 ^ 16"
    and data: "data = be_bytes 2 wl @ w @ be_bytes 2 al @ a @ nl" and siz: "siz = of_nat (4 + wl + al + n)"
    and st: "st = (pi, pd\<lparr>advertised := [], attrs := (\<lambda>_. None), withdrawn := []\<rparr>)"
  shows "parseUpdateMsg x data siz (pi, pd) =
    (if wl = 0 \<and> n = 0 \<and> al = 0 then Inr (siz, (pi\<lparr>endOfRIB := True\<rparr>, snd st))
     else andThen (if wl > 0 then andThen (parseNlriData_v4 pi (w @ be_bytes 2 al @ a @ nl) wl [])
                                (\<lambda>ps. Inr (pi, (snd st)\<lparr>withdrawn := ps\<rparr>)) else Inr st) (\<lambda>st.
          andThen (if al > 0 then parseAttributes x (a @ nl) al st else Inr st) (\<lambda>st.
            if n > 0 then andThen (parseNlriData_v4 (fst st) nl n (advertised (snd st)))
                            (\<lambda>ps. Inr (siz, (fst st, (snd st)\<lparr>advertised := ps\<rparr>)))
            else Inr (siz, st))))"
proof -
  have r2: "siz - 2 = of_nat (2 + wl + al + n)" and r4: "siz - (2 + of_nat wl + 2) = of_nat (al + n)"
    and r: "siz - (2 + of_nat wl + 2 + of_nat al) = of_nat n"
    by (simp_all add: siz)
  have sz: "\<not> siz < 2"
    unfolding siz word_less_nat_alt unat_of_nat using len(3) by (simp del: of_nat_add)
  have c2: "\<not> siz - 2 < of_nat wl" and c4: "\<not> siz - (2 + of_nat wl + 2) < of_nat al"
    unfolding r2 r4 using len(3) by (subst u64_of_nat_less; simp)+
  have c: "(siz - (2 + of_nat wl + 2 + of_nat al) = 0) = (n = 0)"
    "(siz - (2 + of_nat wl + 2 + of_nat al) > 0) = (n > 0)" "unat (siz - (2 + of_nat wl + 2 + of_nat al)) mod 2 ^ 16 = n"
    unfolding r using len(3) by (simp_all add: unat_of_nat word_greater_zero_iff flip: unat_eq_zero)
  have ends: "2 + of_nat wl + 2 + of_nat al = siz" if "n = 0" using that by (simp add: siz)
  have four: "siz = 4" if "wl = 0 \<and> n = 0 \<and> al = 0" using that by (simp add: siz)
  have n1: "ntoh 2 data = Inr wl" "ntoh 2 (drop (2 + wl) data) = Inr al"
    "drop 2 data = w @ be_bytes 2 al @ a @ nl" "drop 2 (drop (2 + wl) data) = a @ nl" "drop al (a @ nl) = nl"
    unfolding data using len by (simp_all add: be_val_be_bytes length_be_bytes del: be_bytes_numeral)
  show ?thesis
    unfolding parseUpdateMsg_def Let_def fst_conv snd_conv n1 andThen_Inr c
    using sz c2 c4 ends four by (simp add: n1 st cong: if_cong)
qed

lemma parseUpdateMsg_run:
  assumes enabled: "isAddPathEnabled (pi_add_path_capability pi) (int BGP_AFI_IPV4) (int BGP_SAFI_UNICAST) = Inr ap"
    and oct: "octets = (if using_2_octet_asn pi then 2 else 4)"
    and ok: "list_all (entry_ok True) wd" "list_all (attr_ok octets) fas" "list_all (entry_ok True) adv"
    and len: "length (encode_update octets ap wd fas adv) < 2 ^ 16"
  shows "parseUpdateMsg x (encode_update octets ap wd fas adv @ rest) (of_nat (length (encode_update octets ap wd fas adv))) (pi, pd) =
    Inr (of_nat (length (encode_update octets ap wd fas adv)),
      pi\<lparr>endOfRIB := endOfRIB pi \<or> (wd = [] \<and> fas = [] \<and> adv = [])\<rparr>,
      pd\<lparr>withdrawn := map (entry_tuple (ntop6 x) True ap) wd,
         advertised := map (entry_tuple (ntop6 x) True ap) adv,
         attrs := foldl (\<lambda>m fa. attr_map (snd fa) m) (\<lambda>_. None) fas\<rparr>)"
proof -
  let ?enc = "encode_entry ap"
  define w a nl where "w = concat (map ?enc wd)" "a = concat (map (encode_attr octets) fas)" "nl = concat (map ?enc adv)"
  note defs = w_a_nl_def
  have e: "encode_update octets ap wd fas adv @ rest = be_bytes 2 (length w) @ w @ be_bytes 2 (length a) @ a @ nl @ rest"
    by (simp add: encode_update_def defs Let_def del: be_bytes_numeral)
  have el: "length (encode_update octets ap wd fas adv) = 4 + length w + length a + length nl"
    by (simp add: encode_update_def defs Let_def length_be_bytes del: be_bytes_numeral)
  have nil: "w = [] \<longleftrightarrow> wd = []" "a = [] \<longleftrightarrow> fas = []" "nl = [] \<longleftrightarrow> adv = []"
    unfolding defs by (cases wd; cases fas; cases adv; simp add: encode_entry_def encode_attr_def split: prod.split)+
  have upd: "pi\<lparr>endOfRIB := endOfRIB pi\<rparr> = pi" by simp
  have run_w: "parseNlriData_v4 pi (w @ rest) (length w) [] = Inr (map (entry_tuple (ntop6 x) True ap) wd)" for rest
    using nlri_v4_run [OF enabled ok(1), of rest "[]"] by (simp add: defs)
  have run_n: "parseNlriData_v4 pi (nl @ rest) (length nl) [] = Inr (map (entry_tuple (ntop6 x) True ap) adv)"
    using nlri_v4_run [OF enabled ok(3), of rest "[]"] by (simp add: defs)
  have run_a: "parseAttributes x (a @ nl @ rest) (length a) (pi, pd') =
      Inr (pi, pd'\<lparr>attrs := foldl (\<lambda>m fa. attr_map (snd fa) m) (attrs pd') fas\<rparr>)" for pd'
    using parseAttributes_run [OF _ ok(2), of "(pi, pd')" x "nl @ rest"] oct by (simp add: defs foldl_add_attr)
  show ?thesis
    unfolding el update_split [OF refl refl len [unfolded el] e refl refl]
    using nil by (auto simp: run_w run_n run_a)
qed


definition sample_attrs :: "(u8 \<times> path_attr) list" where
  "sample_attrs = [(0x40, Origin 0), (0x50, AsPath [Segment False [65001, 70000], Segment True [3]]),
     (0x40, NextHop [10, 0, 0, 1]), (0x40, AtomicAggregate), (0xC0, Communities [(1, 2), (3, 4)])]"

definition sample_withdrawn :: "nlri_entry list" where
  "sample_withdrawn = [Entry 0 24 [10, 1, 2], Entry 0 0 []]"

definition sample_announced :: "nlri_entry list" where
  "sample_announced = [Entry 0 17 [10, 1, 128]]"

definition plain_ext :: "unit ext" where
  "plain_ext = \<lparr>ntop6 = (\<lambda>_. []), ls_reach = (\<lambda>_. Inr), ls_unreach = (\<lambda>_. Inr),
     ls_attr = (\<lambda>_ _. Inr)\<rparr>"

lemma sample_ok:
  "list_all (entry_ok True) sample_withdrawn" "list_all (attr_ok 4) sample_attrs"
  "list_all (entry_ok True) sample_announced"
  "length (encode_update 4 False sample_withdrawn sample_attrs sample_announced) < 2 ^ 16"
  by (simp_all add: sample_withdrawn_def sample_attrs_def sample_announced_def entry_ok_def attr_ok_def
      ATTR_FLAG_EXTENDED_def segment_ok_def all_asns_def encode_segment_def encode_update_def encode_attr_def
      encode_entry_def)


text \<open>
  An AS path of a peer with 2-octet AS numbers is recognised without its capabilities: on a
  non-empty segment of 2-octet numbers the 4-octet reading does not fit, the peer is switched to 2-octet
  numbers, and the second reading decodes the path.
\<close>

theorem as_path_two_octet:
  assumes ok: "segment_ok 2 s" "asns s \<noteq> []" and four: "\<not> using_2_octet_asn pi"
    and v: "v = encode_segment 2 s"
  shows "parseAttr_AsPath (length v) (v @ rest) pi m =
    Inr (pi\<lparr>using_2_octet_asn := True\<rparr>,
      m(2 \<mapsto> segment_text s, 9000 \<mapsto> dec_of_nat (length (asns s)), 9001 \<mapsto> dec_of_nat (last (asns s))))"
proof -
  have cnt: "unat (of_nat (length (asns s)) :: u8) = length (asns s)"
    using ok by (simp add: segment_ok_def unat_of_nat)
  then have lu: "uint (of_nat (length (asns s)) :: u8) = int (length (asns s))"
    by (metis uint_nat)
  have pos: "0 < length (asns s)" using ok(2) by simp
  have small: "length (asns s) mod 65536 = length (asns s)" using ok(1) by (simp add: segment_ok_def)
  have len: "length v = 2 + 2 * length (asns s)" by (simp add: v length_encode_segment)
  have "as_path_loop 4 (int (length v)) (v @ rest) ([], 0, 0) = Inr None"
    using pos by (subst as_path_loop.simps) (simp add: len, simp add: v encode_segment_def rd_def lu)
  then have first: "as_path_try False (length v) (v @ rest) m = Inr None"
    using pos len by (simp add: as_path_try_def)
  have "as_path_try True (length v) (v @ rest) m = Inr (Some (as_path_attrs (path_acc ([], 0, 0) [s]) m))"
    using ok by (intro as_path_try_run) (simp_all add: v all_asns_def)
  with first four ok(2) small show ?thesis
    by (simp add: parseAttr_AsPath_def as_path_attrs_def path_acc_def all_asns_def unat_of_nat)
qed

theorem as_path_two_octet_example:
  "parseAttr_AsPath (length [2, 2, 0xFD, 0xE9, 0, 7 :: u8]) ([2, 2, 0xFD, 0xE9, 0, 7] @ []) plain_peer (\<lambda>_. None) =
   Inr (plain_peer\<lparr>using_2_octet_asn := True\<rparr>, [2 \<mapsto> '' 65001 7'', 9000 \<mapsto> ''2'', 9001 \<mapsto> ''7''])"
proof -
  have "segment_ok 2 (Segment False [65001, 7])" "asns (Segment False [65001, 7]) \<noteq> []" "\<not> using_2_octet_asn plain_peer"
    by (simp_all add: segment_ok_def plain_peer_def)
  moreover have "digit_char (Suc (Suc 0)) = CHR ''2''"
    using digit_char_simps(3) by (simp add: numeral_2_eq_2)
  ultimately show ?thesis
    using as_path_two_octet [of "Segment False [65001, 7]" plain_peer _ "[]" "\<lambda>_. None"]
    by (simp add: encode_segment_def segment_text_def dec_of_nat.simps)
qed

text \<open>
  The check of an attribute's length leaves out the flags and type octets: an attribute list declared
  two bytes too short is accepted, and the value of its last attribute, here a next hop, is completed
  from the bytes that follow the list.
\<close>

theorem attribute_list_overrun:
  "parseAttributes x ([0x40, 3, 4, a, b] @ [c, d] @ rest) (length [0x40, 3, 4, a, b]) st =
   Inr (set_attr 3 (inet_ntop4 [a, b, c, d]) st)"
  by (simp add: parseAttributes_def attr_loop.simps [of _ "Suc (Suc (Suc (Suc (Suc 0))))"] rd_def attr_length_def ATTR_FLAG_EXTENDED_def Let_def
      parseAttrData_def)

text \<open>
  The remaining size is an unsigned subtraction that is not guarded: a message that ends after the
  withdrawn length makes the parser read on behind it.
\<close>

lemma truncated_update_run:
  "parseUpdateMsg x ([0, 0] @ [0, 0] @ mem) 2 (pi, pd) =
   andThen (parseNlriData_v4 pi mem 65534 []) (\<lambda>ps.
     Inr (2, pi, pd\<lparr>attrs := (\<lambda>_. None), withdrawn := [], advertised := ps\<rparr>))"
proof -
  have cmp: "(0 :: u64) < - 2" by (simp add: word_less_nat_alt)
  show ?thesis
    by (simp add: parseUpdateMsg_def Let_def ntoh_be rd_def be_val_def cmp)
qed

end
