(* ===== verification/Notification.thy ===== *)
theory Notification
  imports BgpCommon
begin

text \<open>
  \<open>bgp/NotificationMsg.cpp\<close>: the parser of BGP NOTIFICATION messages, used for peer-down events.
  The two guards of the source compare \<open>read_size\<close>, which stays zero, with \<open>size\<close>, which the code
  increments after each byte; both are kept as they are written.
\<close>

section \<open>Codes\<close>

definition NOTIFY_MSG_HDR_ERR :: u8 where "NOTIFY_MSG_HDR_ERR = 1"
definition NOTIFY_OPEN_MSG_ERR :: u8 where "NOTIFY_OPEN_MSG_ERR = 2"
definition NOTIFY_UPDATE_MSG_ERR :: u8 where "NOTIFY_UPDATE_MSG_ERR = 3"
definition NOTIFY_HOLD_TIMER_EXPIRED :: u8 where "NOTIFY_HOLD_TIMER_EXPIRED = 4"
definition NOTIFY_FSM_ERR :: u8 where "NOTIFY_FSM_ERR = 5"
definition NOTIFY_CEASE :: u8 where "NOTIFY_CEASE = 6"

record parsed_notify_msg =
  error_code :: u8
  error_subcode :: u8
  error_text :: string

section \<open>The parser\<close>

definition brackets :: "u8 \<Rightarrow> string" where
  "brackets b = ''['' @ dec_of_nat (unat b) @ '']''"

definition msg_hdr_text :: "u8 \<Rightarrow> string" where
  "msg_hdr_text subcode =
     (if subcode = 2 then ''Bad message header length'' else ''Bad message header type'')"

definition open_text :: "u8 \<Rightarrow> string" where
  "open_text subcode =
     (if subcode = 3 then ''Bad BGP ID''
      else if subcode = 2 then ''Incorrect peer AS''
      else if subcode = 6 then ''Unacceptable hold time''
      else if subcode = 4 then ''Unsupported optional parameter''
      else if subcode = 1 then ''Unsupported BGP version''
      else ''Open message error - unknown subcode '' @ brackets subcode)"

definition update_text :: "u8 \<Rightarrow> string" where
  "update_text subcode =
     (if subcode = 4 then ''Update attribute flags error''
      else if subcode = 5 then ''Update attribute lenght error''
      else if subcode = 8 then ''Invalid network field''
      else if subcode = 6 then ''Invalid next hop address/attribute''
      else if subcode = 9 then ''Malformed AS_PATH''
      else if subcode = 1 then ''Malformed attribute list''
      else if subcode = 3 then ''Missing well known attribute''
      else if subcode = 7 then ''Update optional attribute error''
      else if subcode = 2 then ''Unrecognized well known attribute''
      else ''Update message error - unknown subcode '' @ brackets subcode)"

definition cease_text :: "u8 \<Rightarrow> string" where
  "cease_text subcode =
     (if subcode = 1 then ''Maximum number of prefixes reached''
      else if subcode = 2 then ''Administrative shutdown''
      else if subcode = 3 then ''Peer de-configured''
      else if subcode = 4 then ''Administratively reset''
      else if subcode = 5 then ''Connection rejected''
      else if subcode = 6 then ''Other configuration change''
      else if subcode = 7 then ''Connection collision resolution''
      else if subcode = 8 then ''Maximum number of prefixes reached''
      else ''Unknown cease code, subcode '' @ brackets subcode)"

definition notify_text :: "u8 \<Rightarrow> u8 \<Rightarrow> string" where
  "notify_text code subcode =
     (if code = NOTIFY_MSG_HDR_ERR then msg_hdr_text subcode
      else if code = NOTIFY_OPEN_MSG_ERR then open_text subcode
      else if code = NOTIFY_UPDATE_MSG_ERR then update_text subcode
      else if code = NOTIFY_HOLD_TIMER_EXPIRED then ''Hold timer expired''
      else if code = NOTIFY_FSM_ERR then ''FSM error''
      else if code = NOTIFY_CEASE then cease_text subcode
      else ''Unknown notification type '' @ brackets code)"

definition parseNotify :: "bytes \<Rightarrow> nat \<Rightarrow> (bool \<times> parsed_notify_msg) result" where
  "parseNotify data siz =
     (let read_size = 0;
          msg = \<lparr>error_code = 0, error_subcode = 0, error_text = []\<rparr>
      in if read_size < siz
         then andThen (rd_u8 data) (\<lambda>c.
           let msg = msg\<lparr>error_code := c\<rparr>; siz = siz + 1
           in if read_size < siz
              then andThen (rd_u8 (drop 1 data)) (\<lambda>s.
                let msg = msg\<lparr>error_subcode := s\<rparr>
                in Inr (False, msg\<lparr>error_text := notify_text (error_code msg) (error_subcode msg)\<rparr>))
              else Inr (True, msg))
         else Inr (True, msg))"

lemmas notify_codes = NOTIFY_MSG_HDR_ERR_def NOTIFY_OPEN_MSG_ERR_def NOTIFY_UPDATE_MSG_ERR_def
  NOTIFY_HOLD_TIMER_EXPIRED_def NOTIFY_FSM_ERR_def NOTIFY_CEASE_def

section \<open>Lemmas\<close>

lemma length_brackets: "length (brackets b) \<le> 5"
  using length_dec_of_nat [of "unat b" 2] unat_u8_less [of b] by (simp add: brackets_def)

lemma length_subcode_texts:
  "length (msg_hdr_text s) < 255" "length (open_text s) < 255" "length (update_text s) < 255"
  "length (cease_text s) < 255"
  using length_brackets [of s] by (simp_all add: msg_hdr_text_def open_text_def update_text_def cease_text_def)

lemma length_notify_text: "length (notify_text c s) < 255"
  using length_brackets [of c] length_subcode_texts [of s] by (simp add: notify_text_def)

section \<open>Properties\<close>

text \<open>
  A NOTIFICATION message that holds its two code bytes is always accepted, the codes are those of
  the message, and the text, with its terminating zero, fits the 255 bytes of \<open>error_text\<close>, also in the
  branch that uses an unbounded \<open>sprintf\<close>. The result does not depend on \<open>size\<close> once it is not zero.
\<close>

theorem parseNotify_complete:
  assumes "2 \<le> length data" "siz \<noteq> 0"
  shows "\<exists>msg. parseNotify data siz = Inr (False, msg) \<and> error_code msg = data ! 0 \<and>
     error_subcode msg = data ! 1 \<and> error_text msg = notify_text (data ! 0) (data ! 1) \<and>
     length (error_text msg) + 1 \<le> 255"
proof -
  obtain c s rest where "data = c # s # rest"
    using assms(1) by (cases data; cases "tl data") auto
  with assms(2) length_notify_text [of c s] show ?thesis
    by (simp add: parseNotify_def Let_def)
qed

theorem parseNotify_complete_example:
  "\<exists>msg. parseNotify [6, 2] 2 = Inr (False, msg) \<and> error_text msg = ''Administrative shutdown''"
  using parseNotify_complete [of "[6, 2]" 2] by (auto simp: notify_text_def cease_text_def notify_codes)

text \<open>
  The guard of the subcode never rejects: a message with only the error code, announced with
  \<open>size = 1\<close>, is not reported as an error but read one byte past its end.
\<close>

lemma parseNotify_overread: "parseNotify [c] 1 = Inl OutOfBounds"
  by (simp add: parseNotify_def Let_def)

end
