(* ===== verification/OpenMsg.thy ===== *)
theory OpenMsg
  imports AddPath
begin

text \<open>
  \<open>bgp/OpenMsg.cpp\<close>: the parser of BGP OPEN messages. The pointer \<open>cap_ptr\<close> into the capabilities
  and the counter \<open>c\<close> that ends the loop are separate, as in the source; the ADD-PATH case advances the
  pointer on its own, and the end of the loop body advances it again.
\<close>

section \<open>Codes and state\<close>

definition BGP_CAP_MPBGP :: u8 where "BGP_CAP_MPBGP = 1"
definition BGP_CAP_ROUTE_REFRESH :: u8 where "BGP_CAP_ROUTE_REFRESH = 2"
definition BGP_CAP_OUTBOUND_FILTER :: u8 where "BGP_CAP_OUTBOUND_FILTER = 3"
definition BGP_CAP_GRACEFUL_RESTART :: u8 where "BGP_CAP_GRACEFUL_RESTART = 64"
definition BGP_CAP_4OCTET_ASN :: u8 where "BGP_CAP_4OCTET_ASN = 65"
definition BGP_CAP_MULTI_SESSION :: u8 where "BGP_CAP_MULTI_SESSION = 68"
definition BGP_CAP_ADD_PATH :: u8 where "BGP_CAP_ADD_PATH = 69"
definition BGP_CAP_ROUTE_REFRESH_ENHANCED :: u8 where "BGP_CAP_ROUTE_REFRESH_ENHANCED = 70"
definition BGP_CAP_ROUTE_REFRESH_OLD :: u8 where "BGP_CAP_ROUTE_REFRESH_OLD = 128"

lemmas cap_codes = BGP_CAP_MPBGP_def BGP_CAP_ROUTE_REFRESH_def BGP_CAP_OUTBOUND_FILTER_def
  BGP_CAP_GRACEFUL_RESTART_def BGP_CAP_4OCTET_ASN_def BGP_CAP_MULTI_SESSION_def BGP_CAP_ADD_PATH_def
  BGP_CAP_ROUTE_REFRESH_ENHANCED_def BGP_CAP_ROUTE_REFRESH_OLD_def

record open_state =
  asn :: u32
  capabilities :: "string list"
  add_path_capability :: AddPathMap

definition push_cap :: "string \<Rightarrow> open_state \<Rightarrow> open_state" where
  "push_cap s st = st\<lparr>capabilities := capabilities st @ [s]\<rparr>"

section \<open>Capabilities\<close>

definition send_receive_text :: "nat \<Rightarrow> string" where
  "send_receive_text v =
     (if int v = BGP_CAP_ADD_PATH_SEND then ''Send''
      else if int v = BGP_CAP_ADD_PATH_RECEIVE then ''Receive''
      else if int v = BGP_CAP_ADD_PATH_SEND_RECEIVE then ''Send/Receive''
      else ''unknown'')"

definition add_path_text :: "nat \<Rightarrow> nat \<Rightarrow> nat \<Rightarrow> string" where
  "add_path_text afi safi sr =
     ''ADD Path (69) : afi='' @ dec_of_nat afi @ '' safi='' @ dec_of_nat safi @ '' send/receive='' @
     dec_of_nat sr @ '' : '' @ GET_SAFI_STRING_BY_CODE safi @ '' '' @ GET_AFI_STRING_BY_CODE afi @ '' '' @
     send_receive_text sr"

definition mpbgp_text :: "nat \<Rightarrow> nat \<Rightarrow> string" where
  "mpbgp_text afi safi =
     ''MPBGP (1) : afi='' @ dec_of_nat afi @ '' safi='' @ dec_of_nat safi @ '' : '' @
     GET_SAFI_STRING_BY_CODE safi @ '' '' @ GET_AFI_STRING_BY_CODE afi"

definition add_path_entry :: "bool \<Rightarrow> bytes \<Rightarrow> open_state \<Rightarrow> open_state result" where
  "add_path_entry sent p st =
     andThen (rd 4 p) (\<lambda>data.
       let afi = le_val (SWAP_BYTES (take 2 data) 2); safi = unat (data ! 2); sr = unat (data ! 3)
       in Inr (push_cap (add_path_text afi safi sr)
            (st\<lparr>add_path_capability := addAddPath (int afi) (int safi) (int sr) sent (add_path_capability st)\<rparr>)))"

function add_path_loop :: "bool \<Rightarrow> nat \<Rightarrow> nat \<Rightarrow> bytes \<Rightarrow> open_state \<Rightarrow> (bytes \<times> open_state) result" where
  "add_path_loop sent l len cap_ptr st =
     (if l < len
      then andThen (add_path_entry sent cap_ptr st) (\<lambda>st. add_path_loop sent (l + 4) len (drop 4 cap_ptr) st)
      else Inr (cap_ptr, st))"
  by pat_completeness auto
termination by (relation "measure (\<lambda>(_, l, len, _, _). len - l)") auto

declare add_path_loop.simps [simp del]

text \<open>
  One capability: whether the loop goes on (\<open>False\<close> is \<open>return 0\<close>), the pointer before the common
  advance, and the state.
\<close>

definition parse_cap :: "bool \<Rightarrow> u8 \<Rightarrow> nat \<Rightarrow> bytes \<Rightarrow> open_state \<Rightarrow> (bool \<times> bytes \<times> open_state) result" where
  "parse_cap sent code len cap_ptr st =
     (if code = BGP_CAP_4OCTET_ASN then
        if len = 4
        then andThen (ntoh 4 (drop 2 cap_ptr)) (\<lambda>v.
               Inr (True, cap_ptr, push_cap ''4 Octet ASN (65)'' (st\<lparr>asn := of_nat v\<rparr>)))
        else Inr (True, cap_ptr, st)
      else if code = BGP_CAP_ROUTE_REFRESH then
        Inr (True, cap_ptr, push_cap ''Route Refresh (2)'' st)
      else if code = BGP_CAP_ROUTE_REFRESH_ENHANCED then
        Inr (True, cap_ptr, push_cap ''Route Refresh Enhanced (70)'' st)
      else if code = BGP_CAP_ROUTE_REFRESH_OLD then
        Inr (True, cap_ptr, push_cap ''Route Refresh Old (128)'' st)
      else if code = BGP_CAP_ADD_PATH then
        let cap_ptr = drop 2 cap_ptr
        in if len \<ge> 4
           then andThen (add_path_loop sent 0 len cap_ptr st) (\<lambda>(cap_ptr, st). Inr (True, cap_ptr, st))
           else Inr (True, cap_ptr, st)
      else if code = BGP_CAP_GRACEFUL_RESTART then
        Inr (True, cap_ptr, push_cap ''Graceful Restart (64)'' st)
      else if code = BGP_CAP_OUTBOUND_FILTER then
        Inr (True, cap_ptr, push_cap ''Outbound Filter (3)'' st)
      else if code = BGP_CAP_MULTI_SESSION then
        Inr (True, cap_ptr, push_cap ''Multi-session (68)'' st)
      else if code = BGP_CAP_MPBGP then
        if len = 4
        then andThen (rd 4 (drop 2 cap_ptr)) (\<lambda>data.
               Inr (True, cap_ptr, push_cap (mpbgp_text (le_val (SWAP_BYTES (take 2 data) 2)) (unat (data ! 3))) st))
        else Inr (False, cap_ptr, st)
      else Inr (True, cap_ptr, push_cap (dec_of_nat (unat code)) st))"

function cap_loop :: "bool \<Rightarrow> nat \<Rightarrow> nat \<Rightarrow> bytes \<Rightarrow> open_state \<Rightarrow> (bool \<times> open_state) result" where
  "cap_loop sent c par_len cap_ptr st =
     (if c < par_len
      then andThen (rd 2 cap_ptr) (\<lambda>cap.
             let code = cap ! 0; len = unat (cap ! 1)
             in andThen (parse_cap sent code len cap_ptr st) (\<lambda>(go_on, cap_ptr, st).
                  if go_on then cap_loop sent (c + 2 + len) par_len (drop (2 + len) cap_ptr) st
                  else Inr (False, st)))
      else Inr (True, st))"
  by pat_completeness auto
termination by (relation "measure (\<lambda>(_, c, par_len, _, _). par_len - c)") auto

declare cap_loop.simps [simp del]

text \<open>
  \<open>parseCapabilities\<close>. The loop index \<open>i\<close> and \<open>read_size\<close> take the same values; the result is the
  returned size (zero is the error of the source) and the out parameters.
\<close>

function param_loop :: "bool \<Rightarrow> nat \<Rightarrow> bytes \<Rightarrow> nat \<Rightarrow> open_state \<Rightarrow> (nat \<times> open_state) result" where
  "param_loop sent siz bufPtr read_size st =
     (if read_size < siz
      then andThen (rd 2 bufPtr) (\<lambda>param.
             let len = unat (param ! 1);
                 next = param_loop sent siz (drop (2 + len) bufPtr) (read_size + 2 + len)
             in if param ! 0 \<noteq> BGP_CAP_PARAM_TYPE then next st
                else if len \<ge> 2 \<and> read_size + 2 + len \<le> siz
                     then andThen (cap_loop sent 0 len (drop 2 bufPtr) st) (\<lambda>(ok, st).
                            if ok then next st else Inr (0, st))
                     else next st)
      else Inr (read_size, st))"
  by pat_completeness auto
termination by (relation "measure (\<lambda>(_, siz, _, r, _). siz - r)") auto

declare param_loop.simps [simp del]

definition parseCapabilities :: "bytes \<Rightarrow> nat \<Rightarrow> bool \<Rightarrow> open_state \<Rightarrow> (nat \<times> open_state) result" where
  "parseCapabilities data siz openMessageIsSent st = param_loop openMessageIsSent siz data 0 st"

section \<open>The message\<close>

record open_msg = open_state +
  read_bytes :: nat
  holdTime :: nat
  bgp_id :: string

definition open_of :: "open_state \<Rightarrow> nat \<Rightarrow> nat \<Rightarrow> string \<Rightarrow> open_msg" where
  "open_of st n hold i = \<lparr>asn = asn st, capabilities = capabilities st,
     add_path_capability = add_path_capability st, read_bytes = n, holdTime = hold, bgp_id = i\<rparr>"

definition parseOpenMsg :: "bytes \<Rightarrow> nat \<Rightarrow> bool \<Rightarrow> open_msg \<Rightarrow> open_msg result" where
  "parseOpenMsg data siz openMessageIsSent out =
     (let out = out\<lparr>capabilities := []\<rparr>
      in if siz < 10 then Inr (out\<lparr>read_bytes := 0\<rparr>)
         else andThen (rd 10 data) (\<lambda>h.
           let hold = le_val (SWAP_BYTES (take 2 (drop 3 h)) 2);
               as2 = le_val (SWAP_BYTES (take 2 (drop 1 h)) 2);
               ident = inet_ntop4 (take 4 (drop 5 h));
               param_len = unat (h ! 9);
               bufPtr = drop 10 data;
               st = \<lparr>asn = of_nat as2, capabilities = [], add_path_capability = add_path_capability out\<rparr>
           in if param_len = 0 then Inr (open_of st 10 hold ident)
              else if param_len > siz - 10
                   then andThen (parseCapabilities bufPtr (siz - 10) openMessageIsSent st) (\<lambda>(_, st).
                          Inr (open_of st (10 + (siz - 10)) hold ident))
                   else andThen (parseCapabilities bufPtr param_len openMessageIsSent st) (\<lambda>(n, st).
                          if n = 0 then Inr (open_of st 0 hold ident)
                          else Inr (open_of st (10 + param_len) hold ident))))"

section \<open>Reference: capabilities as data\<close>

datatype capability = Cap (cap_code: u8) (cap_value: bytes)

definition encode_cap :: "capability \<Rightarrow> bytes" where
  "encode_cap c = cap_code c # of_nat (length (cap_value c)) # cap_value c"

definition encode_caps :: "capability list \<Rightarrow> bytes" where
  "encode_caps cs = concat (map encode_cap cs)"

definition encode_param :: "capability list \<Rightarrow> bytes" where
  "encode_param cs = BGP_CAP_PARAM_TYPE # of_nat (length (encode_caps cs)) # encode_caps cs"

definition encode_params :: "capability list list \<Rightarrow> bytes" where
  "encode_params ps = concat (map encode_param ps)"

fun add_path_entries :: "bytes \<Rightarrow> (nat \<times> nat \<times> nat) list" where
  "add_path_entries (a # b # c # d # bs) = (be_val [a, b], unat c, unat d) # add_path_entries bs"
| "add_path_entries _ = []"

definition apply_entry :: "bool \<Rightarrow> open_state \<Rightarrow> nat \<times> nat \<times> nat \<Rightarrow> open_state" where
  "apply_entry sent st e = (case e of (afi, safi, sr) \<Rightarrow>
     push_cap (add_path_text afi safi sr)
       (st\<lparr>add_path_capability := addAddPath (int afi) (int safi) (int sr) sent (add_path_capability st)\<rparr>))"

definition apply_cap :: "bool \<Rightarrow> open_state \<Rightarrow> capability \<Rightarrow> open_state" where
  "apply_cap sent st c =
     (let code = cap_code c; v = cap_value c in
      if code = BGP_CAP_4OCTET_ASN
      then if length v = 4 then push_cap ''4 Octet ASN (65)'' (st\<lparr>asn := of_nat (be_val v)\<rparr>) else st
      else if code = BGP_CAP_ADD_PATH then foldl (apply_entry sent) st (add_path_entries v)
      else if code = BGP_CAP_MPBGP then push_cap (mpbgp_text (be_val (take 2 v)) (unat (v ! 3))) st
      else push_cap
        (if code = BGP_CAP_ROUTE_REFRESH then ''Route Refresh (2)''
         else if code = BGP_CAP_ROUTE_REFRESH_ENHANCED then ''Route Refresh Enhanced (70)''
         else if code = BGP_CAP_ROUTE_REFRESH_OLD then ''Route Refresh Old (128)''
         else if code = BGP_CAP_GRACEFUL_RESTART then ''Graceful Restart (64)''
         else if code = BGP_CAP_OUTBOUND_FILTER then ''Outbound Filter (3)''
         else if code = BGP_CAP_MULTI_SESSION then ''Multi-session (68)''
         else dec_of_nat (unat code)) st)"

definition cap_ok :: "capability \<Rightarrow> bool" where
  "cap_ok c \<longleftrightarrow> length (cap_value c) < 256 \<and>
     (cap_code c = BGP_CAP_MPBGP \<longrightarrow> length (cap_value c) = 4) \<and>
     (cap_code c = BGP_CAP_ADD_PATH \<longrightarrow> length (cap_value c) mod 4 = 0)"

definition param_ok :: "capability list \<Rightarrow> bool" where
  "param_ok cs \<longleftrightarrow> cs \<noteq> [] \<and> length (encode_caps cs) < 256 \<and> list_all cap_ok cs \<and>
     list_all (\<lambda>c. cap_code c \<noteq> BGP_CAP_ADD_PATH) (butlast cs)"

section \<open>Lemmas\<close>

lemma add_path_entry_run:
  "add_path_entry sent (a # b # c # d # bs) st = Inr (apply_entry sent st (be_val [a, b], unat c, unat d))"
  by (simp add: add_path_entry_def rd_def apply_entry_def Let_def)

lemma add_path_loop_run:
  "length v mod 4 = 0 \<Longrightarrow> len = l + length v \<Longrightarrow>
   add_path_loop sent l len (v @ rest) st = Inr (rest, foldl (apply_entry sent) st (add_path_entries v))"
proof (induction v arbitrary: l st rule: add_path_entries.induct)
  case (1 a b c d bs)
  then show ?case
    by (subst add_path_loop.simps) (simp add: add_path_entry_run)
qed (auto simp: add_path_loop.simps)

lemma parse_cap_run:
  assumes "cap_ok c" "cap_code c \<noteq> BGP_CAP_ADD_PATH"
  shows "parse_cap sent (cap_code c) (length (cap_value c)) (encode_cap c @ rest) st =
    Inr (True, encode_cap c @ rest, apply_cap sent st c)"
proof -
  let ?v = "cap_value c"
  consider "cap_code c = 65 \<or> cap_code c = 1" | "cap_code c \<noteq> 65" "cap_code c \<noteq> 1" by blast
  then show ?thesis
  proof cases
    case 1
    with assms show ?thesis
      by (elim disjE) (simp_all add: parse_cap_def encode_cap_def apply_cap_def cap_ok_def cap_codes Let_def)
  next
    case 2
    with assms(2) show ?thesis
      by (simp add: parse_cap_def apply_cap_def cap_codes)
  qed
qed

lemma parse_cap_add_path:
  assumes "cap_ok c" "cap_code c = BGP_CAP_ADD_PATH"
  shows "\<exists>p. parse_cap sent (cap_code c) (length (cap_value c)) (encode_cap c @ rest) st =
    Inr (True, p, apply_cap sent st c)"
proof (cases "length (cap_value c) \<ge> 4")
  case True
  with assms show ?thesis
    by (cases c) (auto simp: parse_cap_def encode_cap_def apply_cap_def cap_ok_def Let_def cap_codes
        add_path_loop_run)
next
  case False
  with assms have "cap_value c = []" by (cases "cap_value c") (auto simp: cap_ok_def)
  with assms show ?thesis
    by (simp add: parse_cap_def apply_cap_def cap_codes Let_def)
qed

lemma encode_caps_simps [simp]:
  "encode_caps [] = []" "encode_caps (c # cs) = encode_cap c @ encode_caps cs"
  by (simp_all add: encode_caps_def)

lemma length_encode_cap: "length (encode_cap c) = 2 + length (cap_value c)"
  by (simp add: encode_cap_def)

lemma cap_header:
  "cap_ok c \<Longrightarrow> rd 2 (encode_cap c @ rest) = Inr [cap_code c, of_nat (length (cap_value c))]"
  "cap_ok c \<Longrightarrow> unat (of_nat (length (cap_value c)) :: u8) = length (cap_value c)"
  by (simp_all add: encode_cap_def rd_def cap_ok_def unat_of_nat)

lemma cap_loop_run:
  "list_all cap_ok cs \<Longrightarrow> list_all (\<lambda>c. cap_code c \<noteq> BGP_CAP_ADD_PATH) (butlast cs) \<Longrightarrow>
   par_len = k + length (encode_caps cs) \<Longrightarrow>
   cap_loop sent k par_len (encode_caps cs @ rest) st = Inr (True, foldl (apply_cap sent) st cs)"
proof (induction cs arbitrary: k st)
  case Nil
  then show ?case by (simp add: cap_loop.simps)
next
  case (Cons c cs)
  have ok: "cap_ok c" and more: "k < par_len" using Cons.prems by (simp_all add: length_encode_cap)
  show ?case
  proof (cases "cap_code c = BGP_CAP_ADD_PATH")
    case False
    have "list_all (\<lambda>c. cap_code c \<noteq> BGP_CAP_ADD_PATH) (butlast cs)"
      using Cons.prems(2) by (cases cs) auto
    with Cons False ok more show ?thesis
      by (subst cap_loop.simps)
        (simp add: cap_header parse_cap_run length_encode_cap add.assoc)
  next
    case True
    with Cons.prems(2) have "cs = []" by (cases cs) auto
    moreover obtain p where "parse_cap sent (cap_code c) (length (cap_value c)) (encode_cap c @ rest) st =
        Inr (True, p, apply_cap sent st c)"
      using parse_cap_add_path [OF ok True] by blast
    ultimately show ?thesis
      using Cons.prems ok more
      by (subst cap_loop.simps) (simp add: cap_header length_encode_cap cap_loop.simps)
  qed
qed

lemma param_header:
  assumes "param_ok cs"
  shows "rd 2 (encode_param cs @ rest) = Inr [BGP_CAP_PARAM_TYPE, of_nat (length (encode_caps cs))]"
    and "unat (of_nat (length (encode_caps cs)) :: u8) = length (encode_caps cs)"
    and "2 \<le> length (encode_caps cs)"
proof -
  show "2 \<le> length (encode_caps cs)"
    using assms by (cases cs) (auto simp: param_ok_def length_encode_cap)
qed (use assms in \<open>simp_all add: encode_param_def rd_def param_ok_def unat_of_nat\<close>)

lemma encode_params_simps [simp]:
  "encode_params [] = []" "encode_params (p # ps) = encode_param p @ encode_params ps"
  by (simp_all add: encode_params_def)

lemma length_encode_param: "length (encode_param cs) = 2 + length (encode_caps cs)"
  by (simp add: encode_param_def)

lemma param_loop_run:
  "list_all param_ok ps \<Longrightarrow> siz = r + length (encode_params ps) \<Longrightarrow>
   param_loop sent siz (encode_params ps @ rest) r st = Inr (siz, foldl (apply_cap sent) st (concat ps))"
proof (induction ps arbitrary: r st)
  case Nil
  then show ?case by (simp add: param_loop.simps)
next
  case (Cons cs ps)
  have ok: "param_ok cs" using Cons.prems by simp
  note hd = param_header [OF ok]
  let ?tl = "encode_params ps @ rest"
  have caps: "cap_loop sent 0 (length (encode_caps cs)) (encode_caps cs @ ?tl) st =
      Inr (True, foldl (apply_cap sent) st cs)"
    by (rule cap_loop_run) (use ok in \<open>simp_all add: param_ok_def\<close>)
  have "drop 2 (encode_param cs @ ?tl) = encode_caps cs @ ?tl"
       "drop (2 + length (encode_caps cs)) (encode_param cs @ ?tl) = ?tl"
    by (simp_all add: encode_param_def)
  moreover have "param_loop sent siz ?tl (r + 2 + length (encode_caps cs)) (foldl (apply_cap sent) st cs) =
      Inr (siz, foldl (apply_cap sent) (foldl (apply_cap sent) st cs) (concat ps))"
    by (rule Cons.IH) (use Cons.prems in \<open>simp_all add: length_encode_param\<close>)
  ultimately show ?case
    using Cons.prems hd caps
    by (subst param_loop.simps) (simp add: length_encode_param Let_def)
qed

section \<open>How far the parser reads\<close>

lemma add_path_loop_okay:
  "len - l + 3 \<le> length p \<Longrightarrow>
   \<exists>q st'. add_path_loop sent l len p st = Inr (q, st') \<and> length p \<le> length q + (len - l) + 3"
proof (induction sent l len p st rule: add_path_loop.induct)
  case (1 sent l len p st)
  show ?case
  proof (cases "l < len")
    case True
    with 1(2) have "4 \<le> length p" by simp
    then obtain st' where e: "add_path_entry sent p st = Inr st'"
      by (simp add: add_path_entry_def rd_enough Let_def)
    show ?thesis
    proof (cases "l + 4 < len")
      case more: True
      from 1(1) [OF True, of st'] 1(2) more obtain q st'' where
        "add_path_loop sent (l + 4) len (drop 4 p) st' = Inr (q, st'')"
        "length (drop 4 p) \<le> length q + (len - (l + 4)) + 3"
        by fastforce
      with True e more show ?thesis by (simp add: add_path_loop.simps [of sent l])
    next
      case False
      with True e show ?thesis by (simp add: add_path_loop.simps [of sent l] add_path_loop.simps [of sent "l + 4"])
    qed
  qed (simp add: add_path_loop.simps)
qed

lemma parse_cap_okay:
  assumes len: "len \<le> 255" and mem: "260 \<le> length p"
  shows "\<exists>b q st'. parse_cap sent code len p st = Inr (b, q, st') \<and> length p \<le> length (drop (2 + len) q) + 3 * (2 + len)"
proof -
  have "4 \<le> length (drop 2 p)" using mem by simp
  then have ntoh: "\<exists>v. ntoh 4 (drop 2 p) = Inr v" and r4: "\<exists>d. rd 4 (drop 2 p) = Inr d"
    by (auto simp: ntoh_enough rd_enough)
  have "len - 0 + 3 \<le> length (drop 2 p)" using len mem by simp
  from add_path_loop_okay [OF this, of sent st] obtain q st' where
    q: "add_path_loop sent 0 len (drop 2 p) st = Inr (q, st')" "length (drop 2 p) \<le> length q + len + 3"
    by auto
  consider "code = BGP_CAP_4OCTET_ASN" | "code = BGP_CAP_MPBGP" | "code = BGP_CAP_ADD_PATH"
    | "code \<noteq> BGP_CAP_4OCTET_ASN" "code \<noteq> BGP_CAP_MPBGP" "code \<noteq> BGP_CAP_ADD_PATH" by blast
  then show ?thesis
  proof cases
    case 3
    with q len mem show ?thesis
      by (cases "4 \<le> len") (auto simp: parse_cap_def cap_codes Let_def)
  qed (use ntoh r4 mem in \<open>auto simp: parse_cap_def cap_codes\<close>)
qed

lemma cap_loop_okay:
  "3 * (par_len - c) + 260 \<le> length p \<Longrightarrow> okay (cap_loop sent c par_len p st)"
proof (induction sent c par_len p st rule: cap_loop.induct)
  case (1 sent c par_len p st)
  show ?case
  proof (cases "c < par_len")
    case True
    have "2 \<le> length p" using 1(2) by simp
    then obtain cap where cap: "rd 2 p = Inr cap" by (simp add: rd_enough)
    let ?len = "unat (cap ! 1)"
    have "?len \<le> 255" by (rule unat_u8_le)
    from parse_cap_okay [OF this, of p sent "cap ! 0" st] 1(2) obtain b q st' where
      q: "parse_cap sent (cap ! 0) ?len p st = Inr (b, q, st')"
        "length p \<le> length (drop (2 + ?len) q) + 3 * (2 + ?len)" by auto
    have "okay (cap_loop sent (c + 2 + ?len) par_len (drop (2 + ?len) q) st')" if b
    proof (cases "c + 2 + ?len < par_len")
      case more: True
      with q(2) 1(2) have "3 * (par_len - (c + 2 + ?len)) + 260 \<le> length (drop (2 + ?len) q)" by simp
      from 1(1) [OF True refl refl that this] show ?thesis .
    qed (simp add: cap_loop.simps)
    with True cap q(1) show ?thesis
      by (subst cap_loop.simps) (simp add: Let_def)
  qed (simp add: cap_loop.simps)
qed

lemma param_loop_okay:
  "siz + 1024 \<le> length p + r \<Longrightarrow> okay (param_loop sent siz p r st)"
proof (induction sent siz p r st rule: param_loop.induct)
  case (1 sent siz p r st)
  show ?case
  proof (cases "r < siz")
    case True
    have "2 \<le> length p" using 1 True by simp
    then obtain param where par: "rd 2 p = Inr param" by (simp add: rd_enough)
    let ?len = "unat (param ! 1)"
    have len: "?len \<le> 255" by (rule unat_u8_le)
    have rest: "okay (param_loop sent siz (drop (2 + ?len) p) (r + 2 + ?len) st')" for st'
      using 1(1) [OF True refl, of param st'] 1(2) len True by simp
    have "okay (cap_loop sent 0 ?len (drop 2 p) st)" if "r + 2 + ?len \<le> siz"
      by (rule cap_loop_okay) (use that 1 len in simp)
    with True par rest show ?thesis
      by (subst param_loop.simps) (auto simp: Let_def okay_iff)
  qed (simp add: param_loop.simps)
qed

section \<open>Properties\<close>

text \<open>A well formed OPEN message.\<close>

definition open_bytes :: "u8 \<Rightarrow> nat \<Rightarrow> nat \<Rightarrow> bytes \<Rightarrow> capability list list \<Rightarrow> bytes" where
  "open_bytes ver as2 hold ident ps =
     [ver] @ be_bytes 2 as2 @ be_bytes 2 hold @ ident @ [of_nat (length (encode_params ps))] @ encode_params ps"

lemma open_header:
  assumes "as2 < 65536" "hold < 65536" "length ident = 4" "length (encode_params ps) < 256"
  shows "\<exists>h. rd 10 (open_bytes ver as2 hold ident ps @ rest) = Inr h \<and>
     be_val (take 2 (drop 3 h)) = hold \<and> be_val (take 2 (drop 1 h)) = as2 \<and> take 4 (drop 5 h) = ident \<and>
     unat (h ! 9) = length (encode_params ps) \<and> length h = 10 \<and>
     drop 10 (open_bytes ver as2 hold ident ps @ rest) = encode_params ps @ rest"
proof -
  obtain a b c d where "ident = [a, b, c, d]"
    using assms(3) by (auto simp: numeral_eq_Suc length_Suc_conv)
  with assms be_val_be_bytes [of 2 as2] be_val_be_bytes [of 2 hold] show ?thesis
    by (simp add: open_bytes_def rd_def unat_of_nat)
qed

lemma parseOpenMsg_run:
  assumes "as2 < 65536" "hold < 65536" "length ident = 4" "length (encode_params ps) < 256"
    and "list_all param_ok ps" and "length (open_bytes ver as2 hold ident ps) \<le> siz"
  shows "parseOpenMsg (open_bytes ver as2 hold ident ps @ rest) siz sent out =
    Inr (open_of (foldl (apply_cap sent)
           \<lparr>asn = of_nat as2, capabilities = [], add_path_capability = add_path_capability out\<rparr> (concat ps))
         (length (open_bytes ver as2 hold ident ps)) hold (inet_ntop4 ident))"
proof -
  from open_header [OF assms(1-4), of ver rest] obtain h where
    h: "rd 10 (open_bytes ver as2 hold ident ps @ rest) = Inr h"
      "be_val (take 2 (drop 3 h)) = hold" "be_val (take 2 (drop 1 h)) = as2" "take 4 (drop 5 h) = ident"
      "unat (h ! 9) = length (encode_params ps)" "length h = 10"
      "drop 10 (open_bytes ver as2 hold ident ps @ rest) = encode_params ps @ rest" by auto
  have len: "length (open_bytes ver as2 hold ident ps) = 10 + length (encode_params ps)"
    using assms(3) by (simp add: open_bytes_def)
  have "ps = [] \<longleftrightarrow> length (encode_params ps) = 0" by (cases ps) (simp_all add: length_encode_param)
  moreover note param_loop_run [OF assms(5) add_0 [symmetric], of sent rest]
  ultimately show ?thesis
    using h len assms(6)
    by (cases "ps = []") (auto simp: parseOpenMsg_def parseCapabilities_def Let_def)
qed


definition example_open :: "capability list list" where
  "example_open = [[Cap BGP_CAP_MPBGP [0, 1, 0, 1]], [Cap BGP_CAP_ROUTE_REFRESH [], Cap BGP_CAP_4OCTET_ASN [0, 1, 0, 0]],
     [Cap BGP_CAP_ADD_PATH [0, 1, 1, 3]]]"


text \<open>
  Memory safety of OPEN parsing on any input: the parser never reads more than 1024 bytes past the
  size it was given.
\<close>

theorem parseOpenMsg_reads_bounded:
  assumes "siz + 1024 \<le> length data"
  shows "okay (parseOpenMsg data siz sent out)"
proof -
  have "okay (parseCapabilities (drop 10 data) n sent st)" if "n \<le> siz - 10" "10 \<le> siz" for n st
    unfolding parseCapabilities_def by (rule param_loop_okay) (use that assms in simp)
  then show ?thesis
    using assms unfolding parseOpenMsg_def Let_def
    by (auto simp: rd_enough intro!: okay_andThenI)
qed

theorem parseOpenMsg_reads_bounded_example:
  "okay (parseOpenMsg (replicate 1053 255) 29 True (open_of \<lparr>asn = 0, capabilities = [], add_path_capability = (\<lambda>_. None)\<rparr> 0 0 []))"
  by (rule parseOpenMsg_reads_bounded) simp

text \<open>
  Capabilities that follow ADD-PATH in the same parameter are not read where they are: after an
  ADD-PATH capability with one entry the loop continues behind the six bytes of the next capability,
  so a 4-octet AS number that follows is never looked at and the loop leaves the parameter.
\<close>

theorem add_path_hides_next:
  "cap_loop sent 0 12 (encode_caps [Cap BGP_CAP_ADD_PATH [a, b, c, d], Cap BGP_CAP_4OCTET_ASN [w, x, y, z]] @ rest) st =
     cap_loop sent 6 12 rest (apply_entry sent st (be_val [a, b], unat c, unat d))"
  by (subst cap_loop.simps)
    (simp add: encode_cap_def rd_def parse_cap_def cap_codes Let_def add_path_loop_run [of "[a, b, c, d]" 4 0, simplified])

end
