(* ===== verification/ParseBgp.thy ===== *)
theory ParseBgp
  imports UpdateMsg Notification OpenMsg MsgBus
begin

text \<open>
  \<open>bgp/parseBGP.cpp\<close>: the handler of BGP messages. It reads the BGP header, calls the parser of the message
  type and hands the decoded data to the message bus. \<open>redis\<close> is the build option \<open>REDIS_ENABLED\<close>; without it
  the path attributes, the link-state data and the VPN routes are sent as well. \<open>ls_db\<close> stands for
  \<open>UpdateDbBgpLs\<close>.
\<close>

section \<open>State\<close>

definition BGP_MSG_OPEN :: u8 where "BGP_MSG_OPEN = 1"
definition BGP_MSG_UPDATE :: u8 where "BGP_MSG_UPDATE = 2"
definition BGP_MSG_NOTIFICATION :: u8 where "BGP_MSG_NOTIFICATION = 3"

lemmas bgp_msg_types = BGP_MSG_OPEN_def BGP_MSG_UPDATE_def BGP_MSG_NOTIFICATION_def

record parse_bgp =
  hdr_len :: nat
  hdr_type :: u8
  data_bytes_remaining :: u32
  base_attr :: obj_path_attr
  path_hash_id :: "bytes option"
  p_entry :: obj_bgp_peer
  p_info :: peer_info

definition new_parseBGP :: "obj_bgp_peer \<Rightarrow> peer_info \<Rightarrow> parse_bgp" where
  "new_parseBGP peer_entry pi = \<lparr>hdr_len = 0, hdr_type = 0, data_bytes_remaining = 0, base_attr = new_path_attr,
     path_hash_id = None, p_entry = peer_entry, p_info = pi\<rparr>"

section \<open>The header\<close>

definition parseBgpHeader :: "bytes \<Rightarrow> nat \<Rightarrow> parse_bgp \<Rightarrow> (u8 \<times> parse_bgp) result" where
  "parseBgpHeader data siz pb =
     (let pb = pb\<lparr>hdr_len := 0, hdr_type := 0\<rparr>
      in if siz < BGP_MSG_HDR_LEN then Inr (0, pb)
         else andThen (rd BGP_MSG_HDR_LEN data) (\<lambda>h.
           let len = le_val (SWAP_BYTES (take 2 (drop 16 h)) 2)
           in Inr (h ! 18, pb\<lparr>hdr_len := len, hdr_type := h ! 18,
                data_bytes_remaining := of_int (int len - int BGP_MSG_HDR_LEN)\<rparr>)))"

section \<open>Path attributes\<close>

definition attr_str :: "attrs_map \<Rightarrow> nat \<Rightarrow> string" where
  "attr_str m k = (case m k of None \<Rightarrow> [] | Some s \<Rightarrow> s)"

definition stoul :: "string \<Rightarrow> nat result" where
  "stoul s = (if s \<noteq> [] \<and> list_all (\<lambda>c. (of_char c :: nat) \<in> {48..57}) s then Inr (nat_of_dec s)
     else Inl Uncaught)"

definition attr_num :: "attrs_map \<Rightarrow> nat \<Rightarrow> nat result" where
  "attr_num m k = (if length (attr_str m k) > 0 then stoul (attr_str m k) else Inr 0)"

definition UpdateDBAttrs :: "'b msg_bus \<Rightarrow> attrs_map \<Rightarrow> parse_bgp \<Rightarrow> 'b \<Rightarrow> (parse_bgp \<times> 'b) result" where
  "UpdateDBAttrs bus m pb b =
     andThen (attr_num m 5) (\<lambda>lp.
     andThen (attr_num m 4) (\<lambda>md.
     andThen (attr_num m 9000) (\<lambda>cnt.
     andThen (attr_num m 9001) (\<lambda>oas.
       let nh = attr_str m 3;
           a = (base_attr pb)\<lparr>
             as_path := attr_str m 2, cluster_list := attr_str m 10, community_list := attr_str m 8,
             ext_community_list := attr_str m 16, large_community_list := attr_str m 32,
             atomic_agg := Some (attr_str m 6 = ''1''),
             local_pref := Some (of_nat lp), med := Some (of_nat md), as_path_count := Some (of_nat cnt),
             origin_as := Some (of_nat oas),
             originator_id := Some (strncpy 16 (attr_str m 9)),
             nexthop_isIPv4 := Some (CHR '':'' \<notin> set nh),
             aggregator := Some (strncpy 40 (attr_str m 7)),
             origin := Some (strncpy 16 (attr_str m 1)),
             attr_next_hop := Some (strncpy 40 nh)\<rparr>
       in if nh = [] then Inr (pb\<lparr>base_attr := a, path_hash_id := Some (replicate 16 0)\<rparr>, b)
          else andThen (update_baseAttribute bus (p_entry pb) a b) (\<lambda>(a, b).
                 Inr (pb\<lparr>base_attr := a, path_hash_id := attr_hash_id a\<rparr>, b))))))"

section \<open>The last address of a prefix\<close>

definition host_bytes :: "nat \<Rightarrow> nat \<Rightarrow> bytes" where
  "host_bytes n v = SWAP_BYTES (rev (be_bytes n v)) n"

definition bcast_u32 :: "u8 \<Rightarrow> bytes \<Rightarrow> bytes" where
  "bcast_u32 l bin =
     (let v = of_nat (le_val (SWAP_BYTES (take 4 bin) 4)) :: u32
      in host_bytes 4 (unat (v OR drop_bit (unat l) 0xFFFFFFFF)))"

definition bcast_u64 :: "nat \<Rightarrow> bytes \<Rightarrow> bytes" where
  "bcast_u64 l bin =
     (let v = of_nat (le_val (SWAP_BYTES (take 8 bin) 8)) :: u64
      in host_bytes 8 (unat (v OR drop_bit l 0xFFFFFFFFFFFFFFFF)))"

text \<open>What is written to \<open>prefix_bcast_bin\<close>, which keeps the other bytes of the previous route.\<close>

definition bcast_bin :: "prefix_tuple \<Rightarrow> u8 option list \<Rightarrow> u8 option list" where
  "bcast_bin t old =
     (let l = unat (plen t); bin = prefix_bin t; unset = (\<lambda>n bs. if bin = [] then replicate n None else map Some bs)
      in if isIPv4 t then
           if l < 32 then poke 0 (unset 4 (bcast_u32 (plen t) bin)) old
           else poke 0 (unset 16 bin) old
         else if l < 128 then
           if l \<ge> 64 then poke 8 (unset 8 (bcast_u64 (l - 64) (drop 8 bin))) (poke 0 (unset 8 (take 8 bin)) old)
           else poke 0 (unset 8 (bcast_u64 l bin)) (poke 8 (map Some (replicate 8 0xFF)) old)
         else poke 0 (unset 16 bin) old)"

section \<open>Routes\<close>

definition rib_of :: "parse_bgp \<Rightarrow> prefix_tuple \<Rightarrow> u8 option list \<Rightarrow> obj_rib" where
  "rib_of pb t bcast =
     \<lparr>path_attr_hash_id = path_hash_id pb, rib_peer_hash_id = peer_hash (p_entry pb), rib_isIPv4 = isIPv4 t,
      rib_prefix = strncpy 46 (prefix t), rib_prefix_len = plen t, rib_prefix_bin = prefix_bin t,
      prefix_bcast_bin = bcast, rib_path_id = path_id t, rib_labels = snprintf 255 (labels t)\<rparr>"

fun adv_ribs :: "parse_bgp \<Rightarrow> u8 option list \<Rightarrow> prefix_tuple list \<Rightarrow> obj_rib list" where
  "adv_ribs pb bcast [] = []"
| "adv_ribs pb bcast (t # ts) = (let bcast = bcast_bin t bcast in rib_of pb t bcast # adv_ribs pb bcast ts)"

definition UpdateDBAdvPrefixes :: "'b msg_bus \<Rightarrow> prefix_tuple list \<Rightarrow> parse_bgp \<Rightarrow> 'b \<Rightarrow> 'b result" where
  "UpdateDBAdvPrefixes bus adv_prefixes pb b =
     (let rib_list = adv_ribs pb (prefix_bcast_bin new_rib) adv_prefixes
      in if length rib_list > 0
         then update_unicastPrefix bus (p_entry pb) rib_list (Some (base_attr pb)) UNICAST_PREFIX_ACTION_ADD b
         else Inr b)"

definition UpdateDBWdrawnPrefixes :: "'b msg_bus \<Rightarrow> prefix_tuple list \<Rightarrow> parse_bgp \<Rightarrow> 'b \<Rightarrow> 'b result" where
  "UpdateDBWdrawnPrefixes bus wdrawn_prefixes pb b =
     (let rib_list = map (\<lambda>t. rib_of pb t (prefix_bcast_bin new_rib)) wdrawn_prefixes
      in if length rib_list > 0
         then update_unicastPrefix bus (p_entry pb) rib_list None UNICAST_PREFIX_ACTION_DEL b
         else Inr b)"

fun vpn_ribs :: "parse_bgp \<Rightarrow> u8 option list \<Rightarrow> vpn_tuple list \<Rightarrow> obj_vpn list" where
  "vpn_ribs pb bcast [] = []"
| "vpn_ribs pb bcast (t # ts) =
     (let bcast = bcast_bin (vpn_prefix t) bcast
      in obj_rib.extend (rib_of pb (vpn_prefix t) bcast) (obj_vpn.fields (vpn_rd t)) # vpn_ribs pb bcast ts)"

definition UpdateDBL3Vpn :: "'b msg_bus \<Rightarrow> bool \<Rightarrow> vpn_tuple list \<Rightarrow> parse_bgp \<Rightarrow> 'b \<Rightarrow> 'b result" where
  "UpdateDBL3Vpn bus remove prefixes pb b =
     (let rib_list = vpn_ribs pb (prefix_bcast_bin new_rib) prefixes
      in if length rib_list > 0
         then update_L3Vpn bus (p_entry pb) rib_list (base_attr pb) (if remove then VPN_ACTION_DEL else VPN_ACTION_ADD) b
         else Inr b)"

definition evpn_rib :: "parse_bgp \<Rightarrow> evpn_tuple \<Rightarrow> obj_evpn" where
  "evpn_rib pb t = \<lparr>evpn_path_attr_hash_id = path_hash_id pb, evpn_peer_hash_id = peer_hash (p_entry pb), evpn_fields = t\<rparr>"

definition UpdateDBeVPN :: "'b msg_bus \<Rightarrow> bool \<Rightarrow> evpn_tuple list \<Rightarrow> parse_bgp \<Rightarrow> 'b \<Rightarrow> 'b result" where
  "UpdateDBeVPN bus remove nlris pb b =
     (let rib_list = map (evpn_rib pb) nlris
      in if length rib_list > 0
         then update_eVPN bus (p_entry pb) rib_list (base_attr pb) (if remove then VPN_ACTION_DEL else VPN_ACTION_ADD) b
         else Inr b)"

type_synonym ('ls, 'b) ls_db = "bool \<Rightarrow> 'ls \<Rightarrow> parse_bgp \<Rightarrow> 'b \<Rightarrow> ('ls \<times> 'b) result"

definition UpdateDB :: "bool \<Rightarrow> ('ls, 'b) ls_db \<Rightarrow> 'b msg_bus \<Rightarrow> 'ls parsed_update_data \<Rightarrow> parse_bgp \<Rightarrow> 'b \<Rightarrow> (parse_bgp \<times> 'b) result" where
  "UpdateDB redis ls_db bus pd pb b =
     andThen (if redis then Inr (pb, b) else UpdateDBAttrs bus (attrs pd) pb b) (\<lambda>(pb, b).
     andThen (if redis then Inr b
              else andThen (ls_db False (ls_part pd) pb b) (\<lambda>(l, b).
                   andThen (ls_db True l pb b) (\<lambda>(l, b). Inr b))) (\<lambda>b.
     andThen (UpdateDBAdvPrefixes bus (advertised pd) pb b) (\<lambda>b.
     andThen (if redis then Inr b
              else andThen (UpdateDBL3Vpn bus False (vpn pd) pb b) (\<lambda>b.
                   andThen (UpdateDBL3Vpn bus True (vpn_withdrawn pd) pb b) (\<lambda>b.
                   andThen (UpdateDBeVPN bus False (evpn pd) pb b) (\<lambda>b.
                     UpdateDBeVPN bus True (evpn_withdrawn pd) pb b)))) (\<lambda>b.
     andThen (UpdateDBWdrawnPrefixes bus (withdrawn pd) pb b) (\<lambda>b. Inr (pb, b))))))"

section \<open>Messages\<close>

text \<open>The result is the returned flag, \<open>True\<close> for an error.\<close>

definition handleUpdate :: "bool \<Rightarrow> 'ls ext \<Rightarrow> ('ls, 'b) ls_db \<Rightarrow> 'ls \<Rightarrow> 'b msg_bus \<Rightarrow> bytes \<Rightarrow> nat \<Rightarrow> parse_bgp \<Rightarrow> 'b \<Rightarrow> (bool \<times> parse_bgp \<times> 'b) result" where
  "handleUpdate redis x ls_db ls0 bus data siz pb b =
     andThen (parseBgpHeader data siz pb) (\<lambda>(t, pb).
       if t = BGP_MSG_UPDATE
       then andThen (parseUpdateMsg x (drop BGP_MSG_HDR_LEN data) (ucast (data_bytes_remaining pb)) (p_info pb, empty_update ls0))
              (\<lambda>(n, pi, pd).
                let read_size = scast (ucast n :: 32 word) :: u64; pb = pb\<lparr>p_info := pi\<rparr>
                in if read_size \<noteq> of_nat siz - of_nat BGP_MSG_HDR_LEN then Inr (True, pb, b)
                   else andThen (UpdateDB redis ls_db bus pd
                              (pb\<lparr>data_bytes_remaining := data_bytes_remaining pb - ucast n\<rparr>) b) (\<lambda>(pb, b).
                          Inr (False, pb, b)))
       else Inr (False, pb, b))"

definition handleDownEvent :: "bytes \<Rightarrow> nat \<Rightarrow> obj_peer_down_event \<Rightarrow> parse_bgp \<Rightarrow> (bool \<times> obj_peer_down_event \<times> parse_bgp) result" where
  "handleDownEvent data siz down_event pb =
     andThen (parseBgpHeader data siz pb) (\<lambda>(t, pb).
       if t = BGP_MSG_NOTIFICATION
       then andThen (parseNotify (drop BGP_MSG_HDR_LEN data) (unat (data_bytes_remaining pb))) (\<lambda>(rval, msg).
              if rval then Inr (rval, down_event, pb)
              else Inr (rval,
                down_event\<lparr>bgp_err_code := error_code msg, bgp_err_subcode := error_subcode msg,
                  down_error_text := strncpy 255 (error_text msg)\<rparr>,
                pb\<lparr>data_bytes_remaining := data_bytes_remaining pb - 2\<rparr>))
       else Inl (Throw ''ERROR: Invalid BGP MSG for BMP down event, expected NOTIFICATION message.''))"

definition contains :: "string \<Rightarrow> string \<Rightarrow> bool" where
  "contains needle s = list_ex (\<lambda>i. take (length needle) (drop i s) = needle) [0..<Suc (length s)]"

fun join_caps :: "string list \<Rightarrow> string" where
  "join_caps [] = []"
| "join_caps [s] = s"
| "join_caps (s # t # ss) = s @ '', '' @ join_caps (t # ss)"

definition four_octet :: "string list \<Rightarrow> bool" where
  "four_octet cap_list = list_ex (contains ''4 Octet ASN'') cap_list"

text \<open>
  One of the two OPEN messages of a peer up event: the pointer behind it, the decoded message and the
  parser. \<open>asn0\<close> and \<open>hold0\<close> are the out parameters before the call.
\<close>

definition handleOpen :: "bool \<Rightarrow> bytes \<Rightarrow> nat \<Rightarrow> u32 \<Rightarrow> nat \<Rightarrow> string \<Rightarrow> parse_bgp \<Rightarrow> (bytes \<times> open_msg \<times> parse_bgp) result" where
  "handleOpen sent data siz asn0 hold0 err pb =
     andThen (parseBgpHeader data siz pb) (\<lambda>(t, pb).
       if t = BGP_MSG_OPEN
       then let data = drop BGP_MSG_HDR_LEN data
            in andThen (parseOpenMsg data (unat (data_bytes_remaining pb)) sent
                      (open_of \<lparr>asn = asn0, capabilities = [], add_path_capability = pi_add_path_capability (p_info pb)\<rparr> 0 hold0 [])) (\<lambda>m.
                 if read_bytes m = 0 then Inl (Throw ''Failed to read open message'')
                 else Inr (drop (read_bytes m) data, m,
                   pb\<lparr>data_bytes_remaining := data_bytes_remaining pb - of_nat (read_bytes m),
                      p_info := (p_info pb)\<lparr>pi_add_path_capability := add_path_capability m\<rparr>\<rparr>))
       else Inl (Throw err))"

definition handleUpEvent :: "bytes \<Rightarrow> nat \<Rightarrow> obj_peer_up_event \<Rightarrow> parse_bgp \<Rightarrow> (int \<times> obj_peer_up_event \<times> parse_bgp) result" where
  "handleUpEvent data siz up_event pb =
     (let pb = pb\<lparr>p_info := (p_info pb)\<lparr>recv_four_octet_asn := False, sent_four_octet_asn := False, using_2_octet_asn := False\<rparr>\<rparr>
      in andThen (handleOpen True data siz (local_asn up_event) (local_hold_time up_event)
                    ''ERROR: Invalid BGP MSG for BMP Sent OPEN message, expected OPEN message.'' pb) (\<lambda>(data, m, pb).
           let total_read_size = int (hdr_len pb);
               up_event = up_event\<lparr>local_asn := asn m, local_hold_time := holdTime m, local_bgp_id := strncpy 16 (bgp_id m),
                 sent_cap := strncpy 4096 (join_caps (capabilities m))\<rparr>;
               pb = pb\<lparr>p_info := (p_info pb)\<lparr>sent_four_octet_asn := four_octet (capabilities m)\<rparr>\<rparr>
           in andThen (handleOpen False data siz (remote_asn up_event) (remote_hold_time up_event)
                    ''ERROR: Invalid BGP MSG for BMP Received OPEN message, expected OPEN message.'' pb) (\<lambda>(data, m, pb).
                Inr (total_read_size + int (hdr_len pb),
                  up_event\<lparr>remote_asn := asn m, remote_hold_time := holdTime m, remote_bgp_id := strncpy 16 (bgp_id m),
                    recv_cap := strncpy 4096 (join_caps (capabilities m))\<rparr>,
                  pb\<lparr>p_info := (p_info pb)\<lparr>recv_four_octet_asn := four_octet (capabilities m)\<rparr>\<rparr>))))"

section \<open>Lemmas\<close>

subsection \<open>The header\<close>

definition bgp_bytes :: "bytes \<Rightarrow> u8 \<Rightarrow> bytes \<Rightarrow> bytes" where
  "bgp_bytes marker t body = marker @ be_bytes 2 (19 + length body) @ [t] @ body"

lemma length_bgp_bytes: "length marker = 16 \<Longrightarrow> length (bgp_bytes marker t body) = 19 + length body"
  by (simp add: bgp_bytes_def length_be_bytes del: be_bytes_numeral)

lemma drop_bgp_bytes: "length marker = 16 \<Longrightarrow> drop 19 (bgp_bytes marker t body @ rest) = body @ rest"
  by (simp add: bgp_bytes_def length_be_bytes del: be_bytes_numeral)

lemma of_int_remaining: "(of_int (int (19 + n) - 19) :: u32) = of_nat n"
  by simp

lemma parseBgpHeader_run:
  assumes "length marker = 16" "19 + length body < 2 ^ 16" "19 \<le> siz"
  shows "parseBgpHeader (bgp_bytes marker t body @ rest) siz pb =
    Inr (t, pb\<lparr>hdr_len := 19 + length body, hdr_type := t, data_bytes_remaining := of_nat (length body)\<rparr>)"
proof -
  have "take 19 (bgp_bytes marker t body @ rest) = marker @ be_bytes 2 (19 + length body) @ [t]"
    using assms(1) by (simp add: bgp_bytes_def length_be_bytes del: be_bytes_numeral)
  moreover have "(marker @ be_bytes 2 (19 + length body) @ [t]) ! 18 = t"
    using assms(1) by (simp add: nth_append length_be_bytes del: be_bytes_numeral)
  moreover have "19 \<le> length (bgp_bytes marker t body @ rest)"
    using assms(1) by (simp add: length_bgp_bytes)
  ultimately show ?thesis
    using assms of_int_remaining [of "length body"]
    by (simp add: parseBgpHeader_def BGP_MSG_HDR_LEN_def rd_enough Let_def be_val_be_bytes length_be_bytes
        del: be_bytes_numeral)
qed

subsection \<open>The last address\<close>

lemma or_split:
  fixes x y :: nat
  shows "or x y div 2 ^ k = or (x div 2 ^ k) (y div 2 ^ k)" "or x y mod 2 ^ k = or (x mod 2 ^ k) (y mod 2 ^ k)"
  using drop_bit_or [of k x y] take_bit_or [of k x y] by (simp_all add: drop_bit_eq_div take_bit_eq_mod)

lemma mask_split:
  "mask (k + m) div (2 :: nat) ^ k = mask m" "mask (k + m) mod (2 :: nat) ^ k = mask k"
  using drop_bit_mask_eq [of k "k + m", where 'a = nat] take_bit_of_mask [of k "k + m", where 'a = nat]
  by (simp_all add: drop_bit_eq_div take_bit_eq_mod min_def)

lemma or_mask_full: "x < 2 ^ k \<Longrightarrow> or x (mask k) = (mask k :: nat)"
  by (simp add: bit_eq_iff bit_or_iff bit_mask_iff)
    (metis bit_take_bit_iff take_bit_nat_eq_self)

lemma host_bytes_be: "host_bytes n v = be_bytes n v"
  by (simp add: host_bytes_def SWAP_BYTES_rev length_be_bytes)

lemma mask_less: "m \<le> k \<Longrightarrow> mask m < (2 :: nat) ^ k"
proof -
  assume "m \<le> k"
  then have "(2 :: nat) ^ m \<le> 2 ^ k" by (rule power_increasing) simp
  moreover have "0 < (2 :: nat) ^ m" by simp
  ultimately show ?thesis unfolding mask_eq_exp_minus_1 by linarith
qed

lemma unat_or_ones:
  fixes v :: "'a :: len word"
  assumes "ones = mask LENGTH('a)" "k \<le> LENGTH('a)"
  shows "unat (v OR drop_bit k ones) = or (unat v) (mask (LENGTH('a) - k))"
proof -
  have "drop_bit k ones = (mask (LENGTH('a) - k) :: 'a word)"
    using assms by (simp add: drop_bit_mask_eq)
  moreover have "unat (mask m :: 'a word) = mask m" if "m \<le> LENGTH('a)" for m
  proof -
    have "unat (mask m :: 'a word) = unat (of_nat (mask m) :: 'a word)" by (simp only: of_nat_mask_eq)
    also have "\<dots> = mask m" using mask_less [OF that] by (simp only: unat_of_nat mod_less)
    finally show ?thesis .
  qed
  ultimately show ?thesis by (simp add: unsigned_or_eq)
qed

lemma or_bound: "x < 2 ^ k \<Longrightarrow> y < 2 ^ k \<Longrightarrow> or x y < (2 :: nat) ^ k"
  using or_split(1) [of x y k] by (simp add: div_eq_0_iff)

lemma be_val_bcast_u32:
  assumes "4 \<le> length bin" "unat l \<le> 32"
  shows "be_val (bcast_u32 l bin) = or (be_val (take 4 bin)) (mask (32 - unat l))"
proof -
  have v: "be_val (take 4 bin) < 2 ^ 32" using be_val_bound [of "take 4 bin"] assms(1) by simp
  then have "unat (of_nat (be_val (take 4 bin)) :: u32) = be_val (take 4 bin)" by (simp add: unat_of_nat)
  moreover have "or (be_val (take 4 bin)) (mask (32 - unat l)) < 2 ^ 32"
    by (rule or_bound [OF v mask_less]) simp
  ultimately show ?thesis
    using assms unat_or_ones [of "0xFFFFFFFF :: u32" "unat l"]
    by (simp add: bcast_u32_def host_bytes_be be_val_be_bytes mask_eq_exp_minus_1 del: be_bytes_numeral)
qed

lemma be_val_bcast_u64:
  assumes "8 \<le> length bin" "l \<le> 64"
  shows "be_val (bcast_u64 l bin) = or (be_val (take 8 bin)) (mask (64 - l))"
proof -
  have v: "be_val (take 8 bin) < 2 ^ 64" using be_val_bound [of "take 8 bin"] assms(1) by simp
  then have "unat (of_nat (be_val (take 8 bin)) :: u64) = be_val (take 8 bin)" by (simp add: unat_of_nat)
  moreover have "or (be_val (take 8 bin)) (mask (64 - l)) < 2 ^ 64"
    by (rule or_bound [OF v mask_less]) simp
  ultimately show ?thesis
    using assms unat_or_ones [of "0xFFFFFFFFFFFFFFFF :: u64" l]
    by (simp add: bcast_u64_def host_bytes_be be_val_be_bytes mask_eq_exp_minus_1 del: be_bytes_numeral)
qed

lemma length_bcast [simp]: "length (bcast_u32 l bin) = 4" "length (bcast_u64 k bin) = 8"
  by (simp_all add: bcast_u32_def bcast_u64_def host_bytes_be Let_def length_be_bytes del: be_bytes_numeral)

lemma be_val_append: "be_val (xs @ ys) = be_val xs * 256 ^ length ys + be_val ys"
  by (simp add: be_val_def le_val_append)

lemma be_val_ones: "be_val (replicate n 0xFF) = mask (8 * n)"
proof (induction n)
  case (Suc n)
  have "be_val (replicate (Suc n) 0xFF) = be_val (replicate n 0xFF @ [0xFF])"
    by (simp add: replicate_append_same)
  also have "\<dots> = 256 * mask (8 * n) + 255" using Suc by (simp add: be_val_snoc)
  also have "\<dots> = mask (8 * Suc n)" by (simp add: mask_eq_exp_minus_1 power_add diff_mult_distrib2)
  finally show ?case .
qed simp

lemma or_mask_block: "or x (mask k) = x div 2 ^ k * 2 ^ k + mask k" for x :: nat
proof -
  have "or x (mask k) div 2 ^ k = x div 2 ^ k"
    using or_split(1) [of x "mask k" k] mask_split(1) [of k 0] by simp
  moreover have "or x (mask k) mod 2 ^ k = mask k"
    using or_split(2) [of x "mask k" k] mask_split(2) [of k 0] or_mask_full [of "x mod 2 ^ k" k] by simp
  ultimately show ?thesis using div_mult_mod_eq [of "or x (mask k)" "2 ^ k"] by simp
qed

lemma bcast_v6_high:
  assumes len: "length bin = 16" and l: "l < 64"
  shows "be_val (bcast_u64 l bin @ replicate 8 0xFF) = or (be_val bin) (mask (128 - l))"
proof -
  let ?h = "be_val (take 8 bin)" and ?lo = "be_val (drop 8 bin)"
  have bin: "be_val bin = ?h * 2 ^ 64 + ?lo"
    using be_val_append [of "take 8 bin" "drop 8 bin"] len by simp
  have lo: "?lo < 2 ^ 64" using be_val_bound [of "drop 8 bin"] len by simp
  have m: "128 - l = 64 + (64 - l)" using l by simp
  have "or (be_val bin) (mask (128 - l)) div 2 ^ 64 = or ?h (mask (64 - l))"
    unfolding or_split(1) m mask_split(1) bin using lo by simp
  moreover have "or (be_val bin) (mask (128 - l)) mod 2 ^ 64 = mask 64"
    unfolding or_split(2) m mask_split(2) bin using lo or_mask_full [OF lo] by simp
  ultimately have "or (be_val bin) (mask (128 - l)) = or ?h (mask (64 - l)) * 2 ^ 64 + mask 64"
    using div_mult_mod_eq [of "or (be_val bin) (mask (128 - l))" "2 ^ 64"] by simp
  then show ?thesis
    using len l be_val_ones [of 8] by (simp add: be_val_append be_val_bcast_u64)
qed

lemma bcast_v6_low:
  assumes len: "length bin = 16" and l: "64 \<le> l" "l \<le> 128"
  shows "be_val (take 8 bin @ bcast_u64 (l - 64) (drop 8 bin)) = or (be_val bin) (mask (128 - l))"
proof -
  let ?h = "be_val (take 8 bin)" and ?lo = "be_val (drop 8 bin)"
  have bin: "be_val bin = ?h * 2 ^ 64 + ?lo"
    using be_val_append [of "take 8 bin" "drop 8 bin"] len by simp
  have lo: "?lo < 2 ^ 64" using be_val_bound [of "drop 8 bin"] len by simp
  have m: "mask (128 - l) < (2 :: nat) ^ 64" by (rule mask_less) (use l in simp)
  have "or (be_val bin) (mask (128 - l)) div 2 ^ 64 = ?h"
    unfolding or_split(1) bin using lo m by simp
  moreover have "or (be_val bin) (mask (128 - l)) mod 2 ^ 64 = or ?lo (mask (128 - l))"
    unfolding or_split(2) bin using lo m by simp
  ultimately have "or (be_val bin) (mask (128 - l)) = ?h * 2 ^ 64 + or ?lo (mask (128 - l))"
    using div_mult_mod_eq [of "or (be_val bin) (mask (128 - l))" "2 ^ 64"] by simp
  then show ?thesis
    using len l by (simp add: be_val_append be_val_bcast_u64)
qed

lemma bcast_bin_bytes:
  assumes "length (prefix_bin t) = 16" "length old = 16" "n = (if isIPv4 t then 4 else 16)" "unat (plen t) \<le> 8 * n"
  obtains bs where "take n (bcast_bin t old) = map Some bs"
    "be_val bs = or (be_val (take n (prefix_bin t))) (mask (8 * n - unat (plen t)))"
proof (cases "isIPv4 t")
  case True
  then have n: "n = 4" using assms(3) by simp
  have ne: "prefix_bin t \<noteq> []" using assms(1) by auto
  show ?thesis
  proof (cases "unat (plen t) < 32")
    case l: True
    show ?thesis
      by (rule that [of "bcast_u32 (plen t) (prefix_bin t)"])
        (use True l n ne assms(1) in \<open>simp_all add: bcast_bin_def Let_def take_poke be_val_bcast_u32\<close>)
  next
    case False
    with assms(4) n have "unat (plen t) = 32" by simp
    then show ?thesis
      by (intro that [of "take 4 (prefix_bin t)"])
        (use True n ne assms(1,2) in \<open>simp_all add: bcast_bin_def Let_def poke_def take_map\<close>)
  qed
next
  case False
  then have n: "n = 16" using assms(3) by simp
  have ne: "prefix_bin t \<noteq> []" using assms(1) by auto
  consider "unat (plen t) < 64" | "64 \<le> unat (plen t)" "unat (plen t) < 128" | "unat (plen t) = 128"
    using assms(4) n by linarith
  then show ?thesis
  proof cases
    case 1
    then show ?thesis
      by (intro that [of "bcast_u64 (unat (plen t)) (prefix_bin t) @ replicate 8 0xFF"])
        (use False n ne assms(1,2) in \<open>simp_all add: bcast_bin_def Let_def poke_def bcast_v6_high\<close>)
  next
    case 2
    then show ?thesis
      by (intro that [of "take 8 (prefix_bin t) @ bcast_u64 (unat (plen t) - 64) (drop 8 (prefix_bin t))"])
        (use False n ne assms(1,2) in \<open>simp_all add: bcast_bin_def Let_def poke_def bcast_v6_low take_map\<close>)
  next
    case 3
    then show ?thesis
      by (intro that [of "prefix_bin t"])
        (use False n ne assms(1,2) in \<open>simp_all add: bcast_bin_def Let_def\<close>)
  qed
qed

subsection \<open>Messages\<close>

lemma handleUpdate_run:
  assumes run: "parseUpdateMsg x (body @ rest) (of_nat (length body)) (p_info pb, empty_update ls0) =
      Inr (of_nat (length body), pi, pd)"
    and len: "length marker = 16" "19 + length body < 2 ^ 16"
  shows "handleUpdate redis x ls_db ls0 bus (bgp_bytes marker BGP_MSG_UPDATE body @ rest) (19 + length body) pb b =
    andThen (UpdateDB redis ls_db bus pd
      (pb\<lparr>hdr_len := 19 + length body, hdr_type := BGP_MSG_UPDATE, p_info := pi, data_bytes_remaining := 0\<rparr>) b)
      (\<lambda>(pb, b). Inr (False, pb, b))"
proof -
  let ?n = "of_nat (length body) :: u64"
  have small: "length body < 2 ^ 32" using len(2) by simp
  have uc: "(ucast (of_nat (length body) :: u32) :: u64) = ?n"
    using small by (subst of_nat_unat [symmetric]) (simp add: unat_of_nat del: of_nat_unat)
  have down: "(ucast ?n :: u32) = of_nat (length body)"
    using small by (subst of_nat_unat [symmetric]) (simp add: unat_of_nat del: of_nat_unat)
  have "sint (of_nat (length body) :: u32) = int (length body)"
    using len(2) by (simp add: signed_of_nat signed_take_bit_int_eq_self)
  then have sc: "scast (of_nat (length body) :: u32) = ?n"
    by (metis of_int_of_nat_eq of_int_sint)
  have diff: "(of_nat (19 + length body) :: u64) - of_nat BGP_MSG_HDR_LEN = ?n"
    by (simp add: BGP_MSG_HDR_LEN_def)
  show ?thesis
    unfolding handleUpdate_def
    using run
    by (simp add: parseBgpHeader_run [OF len] BGP_MSG_HDR_LEN_def drop_bgp_bytes [OF len(1)] uc sc down Let_def
        del: drop_append)
qed

lemma handleOpen_run:
  assumes len: "length marker = 16" "19 + length (open_bytes ver as2 hold ident ps) < 2 ^ 16" "19 \<le> siz"
    and msg: "as2 < 65536" "hold < 65536" "length ident = 4" "length (encode_params ps) < 256" "list_all param_ok ps"
    and st: "st = foldl (apply_cap sent) \<lparr>asn = of_nat as2, capabilities = [],
        add_path_capability = pi_add_path_capability (p_info pb)\<rparr> (concat ps)"
  shows "handleOpen sent (bgp_bytes marker BGP_MSG_OPEN (open_bytes ver as2 hold ident ps) @ rest) siz asn0 hold0 err pb =
    Inr (rest, open_of st (length (open_bytes ver as2 hold ident ps)) hold (inet_ntop4 ident),
      pb\<lparr>hdr_len := 19 + length (open_bytes ver as2 hold ident ps), hdr_type := BGP_MSG_OPEN, data_bytes_remaining := 0,
         p_info := (p_info pb)\<lparr>pi_add_path_capability := add_path_capability st\<rparr>\<rparr>)"
proof -
  let ?body = "open_bytes ver as2 hold ident ps"
  have pos: "length ?body > 0" by (simp add: open_bytes_def)
  have un: "unat (of_nat (length ?body) :: u32) = length ?body" using len(2) by (simp add: unat_of_nat)
  note run = parseOpenMsg_run [OF msg order_refl, where rest = rest and sent = sent and
      out = "open_of \<lparr>asn = asn0, capabilities = [], add_path_capability = pi_add_path_capability (p_info pb)\<rparr> 0 hold0 []",
      where ver = ver]
  have ap: "add_path_capability (open_of \<lparr>asn = asn0, capabilities = [], add_path_capability = m\<rparr> n h i) = m" for m n h i
    by (simp add: open_of_def)
  have fields: "read_bytes (open_of st n h i) = n" "add_path_capability (open_of st n h i) = add_path_capability st" for n h i
    by (simp_all add: open_of_def)
  show ?thesis
    unfolding handleOpen_def
    using run pos
    by (simp add: parseBgpHeader_run [OF len] BGP_MSG_HDR_LEN_def drop_bgp_bytes [OF len(1)] un ap Let_def fields
        del: drop_append flip: st) (simp)
qed

lemma zero_bytes_encode: "concat (map (encode_entry False) (replicate n (Entry 0 0 []))) = replicate n 0"
  by (induction n) (simp_all add: encode_entry_def)

lemma zeros_are_default_routes:
  assumes "isAddPathEnabled (pi_add_path_capability pi) (int BGP_AFI_IPV4) (int BGP_SAFI_UNICAST) = Inr False"
  shows "parseNlriData_v4 pi (replicate n 0 @ rest) n [] = Inr (replicate n (v4_prefix 0 0 []))"
proof -
  have ok: "list_all (entry_ok True) (replicate n (Entry 0 0 []))" by (simp add: list_all_iff entry_ok_def)
  have "entry_tuple f6 True False (Entry 0 0 []) = v4_prefix 0 0 []" for f6
    by (simp add: entry_tuple_def nlri_prefix_def v4_prefix_def print_ip_def)
  with nlri_v4_run [OF assms ok, of rest "[]"] show ?thesis
    unfolding zero_bytes_encode by (simp add: map_replicate_const)
qed

lemma length_adv_ribs [simp]: "length (adv_ribs pb bc ts) = length ts"
  by (induction pb bc ts rule: adv_ribs.induct) (simp_all add: Let_def)

lemma adv_ribs_Nil [simp]: "adv_ribs pb bc ts = [] \<longleftrightarrow> ts = []"
  by (cases ts) (simp_all add: Let_def)

lemma UpdateDB_redis:
  "UpdateDB True ls_db bus pd pb b =
     andThen (if advertised pd = [] then Inr b
              else update_unicastPrefix bus (p_entry pb) (adv_ribs pb (replicate 16 None) (advertised pd))
                     (Some (base_attr pb)) UNICAST_PREFIX_ACTION_ADD b) (\<lambda>b.
     andThen (if withdrawn pd = [] then Inr b
              else update_unicastPrefix bus (p_entry pb) (map (\<lambda>t. rib_of pb t (replicate 16 None)) (withdrawn pd)) None
                     UNICAST_PREFIX_ACTION_DEL b) (\<lambda>b.
       Inr (pb, b)))"
  by (simp add: UpdateDB_def UpdateDBAdvPrefixes_def UpdateDBWdrawnPrefixes_def new_rib_def Let_def)

text \<open>
  What an UPDATE message makes of the bus in the build with Redis: one announcement of its routes in order,
  when it has any, followed by one withdrawal, when it has any. The announcement carries the attribute object
  as its constructor left it, and the withdrawal none.
\<close>

definition update_calls :: "'b msg_bus \<Rightarrow> parse_bgp \<Rightarrow> prefix_tuple list \<Rightarrow> prefix_tuple list \<Rightarrow> 'b \<Rightarrow> 'b result" where
  "update_calls bus pb ats wts b =
     andThen (if ats = [] then Inr b
              else update_unicastPrefix bus (p_entry pb) (adv_ribs pb (replicate 16 None) ats) (Some (base_attr pb))
                     UNICAST_PREFIX_ACTION_ADD b) (\<lambda>b.
       if wts = [] then Inr b
       else update_unicastPrefix bus (p_entry pb) (map (\<lambda>t. rib_of pb t (replicate 16 None)) wts) None
              UNICAST_PREFIX_ACTION_DEL b)"

lemma rib_of_cong: "path_hash_id pb' = path_hash_id pb \<Longrightarrow> p_entry pb' = p_entry pb \<Longrightarrow> rib_of pb' t bc = rib_of pb t bc"
  by (simp add: rib_of_def)

lemma adv_ribs_cong: "path_hash_id pb' = path_hash_id pb \<Longrightarrow> p_entry pb' = p_entry pb \<Longrightarrow> adv_ribs pb' bc ts = adv_ribs pb bc ts"
  by (induction ts arbitrary: bc) (simp_all add: Let_def rib_of_cong [of pb' pb])

lemma update_calls_cong:
  "path_hash_id pb' = path_hash_id pb \<Longrightarrow> p_entry pb' = p_entry pb \<Longrightarrow> base_attr pb' = base_attr pb \<Longrightarrow>
   update_calls bus pb' ats wts b = update_calls bus pb ats wts b"
  by (simp add: update_calls_def adv_ribs_cong [of pb' pb] rib_of_cong [of pb' pb])

lemma UpdateDB_calls:
  "UpdateDB True ls_db bus pd pb b = andThen (update_calls bus pb (advertised pd) (withdrawn pd) b) (\<lambda>b. Inr (pb, b))"
  by (simp add: UpdateDB_redis update_calls_def andThen_assoc)

lemma update_calls_run:
  assumes "isAddPathEnabled (pi_add_path_capability (p_info pb)) (int BGP_AFI_IPV4) (int BGP_SAFI_UNICAST) = Inr ap"
    and "octets = (if using_2_octet_asn (p_info pb) then 2 else 4)"
    and "list_all (entry_ok True) wd" "list_all (attr_ok octets) fas" "list_all (entry_ok True) adv"
    and len: "length mk = 16" "19 + length (encode_update octets ap wd fas adv) < 2 ^ 16"
    and body: "body = encode_update octets ap wd fas adv"
    and tuples: "ats = map (entry_tuple (ntop6 x) True ap) adv" "wts = map (entry_tuple (ntop6 x) True ap) wd"
  shows "\<exists>pb'. p_info pb' = (p_info pb)\<lparr>endOfRIB := endOfRIB (p_info pb) \<or> (wd = [] \<and> fas = [] \<and> adv = [])\<rparr> \<and>
    handleUpdate True x ls_db ls0 bus (bgp_bytes mk BGP_MSG_UPDATE body @ rest) (length (bgp_bytes mk BGP_MSG_UPDATE body)) pb b =
    andThen (update_calls bus pb ats wts b) (\<lambda>b. Inr (False, pb', b))"
proof -
  have "length body < 2 ^ 16" using len body by simp
  note run = parseUpdateMsg_run [OF assms(1-5) this [unfolded body], of x rest "empty_update ls0", folded body, folded tuples]
  note hu = handleUpdate_run [OF run len(1) len(2) [folded body], of True ls_db bus b]
  let ?pb = "pb\<lparr>hdr_len := 19 + length body, hdr_type := BGP_MSG_UPDATE,
      p_info := (p_info pb)\<lparr>endOfRIB := endOfRIB (p_info pb) \<or> (wd = [] \<and> fas = [] \<and> adv = [])\<rparr>, data_bytes_remaining := 0\<rparr>"
  have c: "update_calls bus ?pb ats wts b = update_calls bus pb ats wts b" by (rule update_calls_cong) simp_all
  show ?thesis
    unfolding length_bgp_bytes [OF len(1)] hu UpdateDB_calls
    by (rule exI [of _ ?pb]) (simp add: c andThen_assoc)
qed

section \<open>Properties\<close>

text \<open>
  C28. The last address of a route: for IPv4 and IPv6 prefixes of every length up to the address size, what is
  stored as the broadcast address is the first address of the prefix's block with all host bits set,
  whatever the array held before.
\<close>

theorem last_address:
  assumes "length (prefix_bin t) = 16" "length old = 16" "n = (if isIPv4 t then 4 else 16)"
    and "unat (plen t) \<le> 8 * n" "k = 8 * n - unat (plen t)"
  shows "\<exists>bs. take n (bcast_bin t old) = map Some bs \<and>
    be_val bs = be_val (take n (prefix_bin t)) div 2 ^ k * 2 ^ k + (2 ^ k - 1)"
proof -
  obtain bs where "take n (bcast_bin t old) = map Some bs"
    "be_val bs = or (be_val (take n (prefix_bin t))) (mask (8 * n - unat (plen t)))"
    by (rule bcast_bin_bytes [OF assms(1-4)])
  then have "take n (bcast_bin t old) = map Some bs"
    "be_val bs = be_val (take n (prefix_bin t)) div 2 ^ k * 2 ^ k + mask k"
    by (simp_all only: or_mask_block assms(5))
  then show ?thesis unfolding mask_eq_exp_minus_1 by blast
qed

theorem last_address_witness:
  "\<exists>bs. take 4 (bcast_bin (v4_prefix 20 0 [10, 1, 16]) (replicate 16 None)) = map Some bs \<and>
     be_val bs = be_val [10, 1, 31, 255]"
proof -
  have "\<exists>bs. take 4 (bcast_bin (v4_prefix 20 0 [10, 1, 16]) (replicate 16 None)) = map Some bs \<and>
      be_val bs = be_val (take 4 (prefix_bin (v4_prefix 20 0 [10, 1, 16]))) div 2 ^ 12 * 2 ^ 12 + (2 ^ 12 - 1)"
    by (rule last_address) (simp_all add: v4_prefix_def pad16_def)
  moreover have "be_val (take 4 (prefix_bin (v4_prefix 20 0 [10, 1, 16]))) div 2 ^ 12 * 2 ^ 12 + (2 ^ 12 - 1) =
      be_val [10, 1, 31, 255]"
    by (simp add: v4_prefix_def pad16_def be_val_def)
  ultimately show ?thesis by (simp only:)
qed


definition ones16 :: bytes where
  "ones16 = replicate 16 0xFF"


text \<open>A bus that counts its announcements and withdrawals.\<close>

definition count_bus :: "(nat \<times> nat) msg_bus" where
  "count_bus = \<lparr>update_Collector = (\<lambda>_ _. Inr), update_Router = (\<lambda>r _ b. Inr (r, b)), update_Peer = (\<lambda>p _ _ _ b. Inr (p, b)),
     update_baseAttribute = (\<lambda>_ a b. Inr (a, b)),
     update_unicastPrefix = (\<lambda>_ rib _ code b. Inr (case code of
        UNICAST_PREFIX_ACTION_ADD \<Rightarrow> (fst b + length rib, snd b)
      | UNICAST_PREFIX_ACTION_DEL \<Rightarrow> (fst b, snd b + length rib))),
     update_L3Vpn = (\<lambda>_ _ _ _. Inr), update_eVPN = (\<lambda>_ _ _ _. Inr),
     update_LsNode = (\<lambda>_ _ _ _. Inr), update_LsLink = (\<lambda>_ _ _ _. Inr), update_LsPrefix = (\<lambda>_ _ _ _. Inr), add_StatReport = (\<lambda>_ _. Inr),
     send_bmp_raw = (\<lambda>_ _ _. Inr), ribSeq = (\<lambda>_. 0)\<rparr>"

lemma new_parseBGP_info:
  "p_info (new_parseBGP zero_peer plain_peer) = plain_peer" "p_entry (new_parseBGP zero_peer plain_peer) = zero_peer"
  by (simp_all add: new_parseBGP_def)

lemma new_parseBGP_plain:
  "isAddPathEnabled (pi_add_path_capability (p_info (new_parseBGP zero_peer plain_peer))) (int BGP_AFI_IPV4)
     (int BGP_SAFI_UNICAST) = Inr False"
  using plain_peer_add_path by (simp add: new_parseBGP_info)

text \<open>
  C33. The size check of the handler does not catch a message that ends after its withdrawn length: with the
  zero bytes that follow a message in the buffer, an UPDATE of 21 bytes is accepted and announces 65534
  copies of the default route.
\<close>

theorem truncated_update_announces:
  assumes "isAddPathEnabled (pi_add_path_capability (p_info pb)) (int BGP_AFI_IPV4) (int BGP_SAFI_UNICAST) = Inr False"
    and "length mk = 16"
  shows "\<exists>pb'. handleUpdate True x ls_db ls0 bus (bgp_bytes mk BGP_MSG_UPDATE [0, 0] @ replicate (2 + 65534) 0 @ rest) 21 pb b =
    andThen (update_unicastPrefix bus (p_entry pb)
        (adv_ribs pb' (replicate 16 None) (replicate 65534 (v4_prefix 0 0 []))) (Some (base_attr pb))
        UNICAST_PREFIX_ACTION_ADD b) (\<lambda>b. Inr (False, pb', b))"
proof -
  have mem: "[0, 0] @ replicate (2 + 65534) 0 @ rest = [0, 0] @ [0, 0] @ replicate 65534 (0 :: u8) @ rest"
    unfolding replicate_add append_assoc by (simp add: numeral_2_eq_2)
  have "parseUpdateMsg x ([0, 0] @ replicate (2 + 65534) 0 @ rest) (of_nat (length [0, 0 :: u8]))
      (p_info pb, empty_update ls0) =
      Inr (of_nat (length [0, 0 :: u8]), p_info pb, (empty_update ls0)\<lparr>attrs := (\<lambda>_. None), withdrawn := [],
        advertised := replicate 65534 (v4_prefix 0 0 [])\<rparr>)"
    unfolding mem
    using truncated_update_run [of x "replicate 65534 0 @ rest" "p_info pb" "empty_update ls0"]
      zeros_are_default_routes [OF assms(1), of 65534 rest] by simp
  note run = handleUpdate_run [OF this assms(2)]
  let ?pb = "pb\<lparr>hdr_len := 21, hdr_type := BGP_MSG_UPDATE, p_info := p_info pb, data_bytes_remaining := 0\<rparr>"
  have "replicate 65534 (v4_prefix 0 0 []) \<noteq> []"
    by (metis length_replicate list.size(3) zero_neq_numeral)
  with run [of True ls_db bus b] show ?thesis
    unfolding UpdateDB_redis by (intro exI [of _ ?pb]) (simp add: andThen_assoc empty_update_def)
qed

theorem truncated_update_announces_witness:
  "\<exists>pb'. handleUpdate True plain_ext (\<lambda>_ l _ b. Inr (l, b)) () count_bus
     (bgp_bytes ones16 BGP_MSG_UPDATE [0, 0] @ replicate (2 + 65534) 0 @ []) 21 (new_parseBGP zero_peer plain_peer) (0, 0) =
     Inr (False, pb', (65534, 0))"
proof -
  have "length ones16 = 16" by (simp add: ones16_def)
  from truncated_update_announces [OF new_parseBGP_plain this, of plain_ext "\<lambda>_ l _ b. Inr (l, b)" "()" count_bus "[]" "(0, 0)"]
  show ?thesis by (auto simp: count_bus_def simp del: replicate_Suc)
qed

end
