(* ===== verification/ParseBmp.thy ===== *)
theory ParseBmp
  imports MsgBus
begin

text \<open>
  \<open>bmp/parseBMP.cpp\<close>: reading BMP messages from the socket of a router. The socket is the list of the bytes
  that will still arrive and what \<open>recv\<close> reports when they are used up: end of file or an error. A parser object
  is made for every message, so its buffers start cleared: \<open>bmp_data\<close> holds the received bytes, and the
  memory behind a pointer into it is \<open>bmp_buf\<close>. The clock and the text of IPv6 addresses are arguments.

  The sections on framing and streams show that every message of version 3 except a statistics report
  takes exactly its announced length from the socket whatever it contains, and that the fields of a message
  come out as they were sent.
\<close>

section \<open>State\<close>

definition BMP_HDRv3_LEN :: nat where "BMP_HDRv3_LEN = 5"
definition BMP_HDRv1v2_LEN :: nat where "BMP_HDRv1v2_LEN = 43"
definition BMP_PEER_HDR_LEN :: nat where "BMP_PEER_HDR_LEN = 42"
definition BMP_INFO_TLV_HDR_LEN :: nat where "BMP_INFO_TLV_HDR_LEN = 4"
definition BMP_PACKET_BUF_SIZE :: nat where "BMP_PACKET_BUF_SIZE = 68000"

definition TYPE_ROUTE_MON :: u8 where "TYPE_ROUTE_MON = 0"
definition TYPE_STATS_REPORT :: u8 where "TYPE_STATS_REPORT = 1"
definition TYPE_PEER_DOWN :: u8 where "TYPE_PEER_DOWN = 2"
definition TYPE_PEER_UP :: u8 where "TYPE_PEER_UP = 3"
definition TYPE_INIT_MSG :: u8 where "TYPE_INIT_MSG = 4"
definition TYPE_TERM_MSG :: u8 where "TYPE_TERM_MSG = 5"

lemmas bmp_lens = BMP_HDRv3_LEN_def BMP_HDRv1v2_LEN_def BMP_PEER_HDR_LEN_def BMP_INFO_TLV_HDR_LEN_def
lemmas bmp_types = TYPE_ROUTE_MON_def TYPE_STATS_REPORT_def TYPE_PEER_DOWN_def TYPE_PEER_UP_def TYPE_INIT_MSG_def
  TYPE_TERM_MSG_def

record parse_bmp =
  sock_in :: bytes
  sock_err :: bool
  bmp_packet :: bytes
  bmp_type :: u8
  bmp_len :: u32
  bmp_data :: bytes
  peer_entry :: obj_bgp_peer

definition new_parseBMP :: "bytes \<Rightarrow> bool \<Rightarrow> parse_bmp" where
  "new_parseBMP inp err = \<lparr>sock_in = inp, sock_err = err, bmp_packet = [], bmp_type = -1, bmp_len = 0, bmp_data = [],
     peer_entry = zero_peer\<rparr>"

definition bmp_buf :: "parse_bmp \<Rightarrow> bytes" where
  "bmp_buf s = bmp_data s @ replicate (BMP_PACKET_BUF_SIZE + 1 - length (bmp_data s)) 0"

text \<open>
  The return value, the bytes written to the caller's buffer and the parser. Bytes that are only peeked
  at are copied to the packet as well.
\<close>

definition save_packet :: "bytes \<Rightarrow> parse_bmp \<Rightarrow> parse_bmp" where
  "save_packet got s =
     (if got \<noteq> [] \<and> length (bmp_packet s) + length got < BMP_PACKET_BUF_SIZE
      then s\<lparr>bmp_packet := bmp_packet s @ got\<rparr> else s)"

definition recv_cnt :: "nat \<Rightarrow> parse_bmp \<Rightarrow> int" where
  "recv_cnt n s = (if take n (sock_in s) = [] then (if sock_err s then -1 else 0) else int (length (take n (sock_in s))))"

definition Recv :: "bool \<Rightarrow> nat \<Rightarrow> parse_bmp \<Rightarrow> int \<times> bytes \<times> parse_bmp" where
  "Recv peek n s =
     (let got = take n (sock_in s)
      in (recv_cnt n s, got, if peek then save_packet got s else (save_packet got s)\<lparr>sock_in := drop n (sock_in s)\<rparr>))"

section \<open>Fields of the peer header\<close>

definition sub_bytes :: "nat \<Rightarrow> nat \<Rightarrow> bytes \<Rightarrow> bytes" where
  "sub_bytes off n h = take n (drop off h)"

definition hex4 :: "nat \<Rightarrow> string" where
  "hex4 v = [digit_char (v div 4096 mod 16), digit_char (v div 256 mod 16), digit_char (v div 16 mod 16), digit_char (v mod 16)]"

definition hex_digit :: "char \<Rightarrow> nat" where
  "hex_digit c = (let v = of_char c in if v < 58 then v - 48 else v - 87)"

definition strtoll16 :: "string \<Rightarrow> nat" where
  "strtoll16 s = foldl (\<lambda>a c. a * 16 + hex_digit c) 0 (drop 2 s)"

definition as_text :: "bytes \<Rightarrow> string" where
  "as_text b = ''0x'' @ hex4 (256 * unat (b ! 0) + unat (b ! 1)) @ hex4 (256 * unat (b ! 2) + unat (b ! 3))"

text \<open>Four bytes assembled in an \<open>int\<close> and converted to \<open>unsigned long\<close>, which extends the sign.\<close>

definition ulong4 :: "bytes \<Rightarrow> nat" where
  "ulong4 b = unat (scast (of_nat (be_val b) :: u32) :: u64)"

definition rd_text1 :: "bytes \<Rightarrow> string" where
  "rd_text1 d = inet_ntop4 (sub_bytes 2 4 d) @ '':'' @ dec_of_nat (be_val (sub_bytes 6 2 d))"

definition rd_text2 :: "bytes \<Rightarrow> string" where
  "rd_text2 d = dec_of_nat (ulong4 (sub_bytes 2 4 d)) @ '':'' @ dec_of_nat (be_val (sub_bytes 6 2 d))"

definition peer_rd_text :: "bytes \<Rightarrow> string" where
  "peer_rd_text d =
     (if d ! 1 = 1 then rd_text1 d else if d ! 1 = 2 then rd_text2 d
      else dec_of_nat (be_val (sub_bytes 2 2 d)) @ '':'' @ dec_of_nat (ulong4 (sub_bytes 4 4 d)))"

text \<open>The older versions take the type from two bytes and start the default case one byte early.\<close>

definition peer_rd_text_old :: "bytes \<Rightarrow> string" where
  "peer_rd_text_old d =
     (if be_val (sub_bytes 0 2 d) = 1 then rd_text1 d else if be_val (sub_bytes 0 2 d) = 2 then rd_text2 d
      else dec_of_nat (be_val (sub_bytes 1 2 d)) @ '':'' @
        dec_of_nat (unat (scast (of_nat (be_val (sub_bytes 3 4 d)) OR ucast (d ! 7) :: u32) :: u64)))"

definition addr_text :: "bool \<Rightarrow> (bytes \<Rightarrow> string) \<Rightarrow> bytes \<Rightarrow> string" where
  "addr_text v4 f6 a = (if v4 then snprintf 40 (inet_ntop4 (sub_bytes 12 4 a)) else f6 a)"

definition parsePeerFlags :: "u8 \<Rightarrow> u8 \<Rightarrow> obj_bgp_peer \<Rightarrow> obj_bgp_peer" where
  "parsePeerFlags peer_type peer_flags p =
     (if peer_type = 3 then
        let p = p\<lparr>isLocRib := True\<rparr>
        in if peer_flags AND 0x80 \<noteq> 0 then p\<lparr>isLocRibFiltered := True\<rparr> else p
      else
        let p = p\<lparr>isLocRib := False, peer_isIPv4 := (peer_flags AND 0x80 = 0)\<rparr>;
            p = (if peer_flags AND 0x10 \<noteq> 0 then p\<lparr>isAdjIn := False\<rparr> else p);
            p = (if peer_flags AND 0x20 \<noteq> 0 then p\<lparr>isTwoOctet := True\<rparr> else p);
            p = (if peer_flags AND 0x40 \<noteq> 0 then p\<lparr>isPrePolicy := False\<rparr> else p\<lparr>isPrePolicy := True, isAdjIn := True\<rparr>)
        in p\<lparr>isL3VPN := (peer_type = 1)\<rparr>)"

definition set_timestamp :: "nat \<Rightarrow> nat \<Rightarrow> u32 \<times> u32 \<Rightarrow> obj_bgp_peer \<Rightarrow> obj_bgp_peer" where
  "set_timestamp secs usecs now p =
     (if secs \<noteq> 0
      then p\<lparr>timestamp_secs := of_nat secs, timestamp_us := of_nat (if usecs < 1000000 then usecs else usecs mod 1000000)\<rparr>
      else p\<lparr>timestamp_secs := fst now, timestamp_us := snd now\<rparr>)"

text \<open>The header is cleared before it is read, and a short read is only logged.\<close>

definition peer_of_hdr :: "(bytes \<Rightarrow> string) \<Rightarrow> u32 \<times> u32 \<Rightarrow> bytes \<Rightarrow> obj_bgp_peer \<Rightarrow> obj_bgp_peer" where
  "peer_of_hdr f6 now h p =
     (let p = parsePeerFlags (h ! 0) (h ! 1) p;
          p = p\<lparr>peer_addr := strncpy 46 (addr_text (peer_isIPv4 p) f6 (sub_bytes 10 16 h)),
                peer_as := of_nat (strtoll16 (as_text (sub_bytes 26 4 h))),
                peer_bgp_id := strncpy 16 (inet_ntop4 (sub_bytes 30 4 h)),
                peer_rd := strncpy 32 (snprintf 32 (peer_rd_text (sub_bytes 2 8 h)))\<rparr>
      in set_timestamp (le_val (SWAP_BYTES (sub_bytes 34 4 h) 4)) (le_val (SWAP_BYTES (sub_bytes 38 4 h) 4)) now p)"

definition parsePeerHdr :: "(bytes \<Rightarrow> string) \<Rightarrow> u32 \<times> u32 \<Rightarrow> parse_bmp \<Rightarrow> parse_bmp" where
  "parsePeerHdr f6 now s =
     (let (i, got, s) = Recv False BMP_PEER_HDR_LEN s;
          h = got @ replicate (BMP_PEER_HDR_LEN - length got) 0
      in s\<lparr>bmp_len := bmp_len s - of_nat BMP_PEER_HDR_LEN, peer_entry := peer_of_hdr f6 now h (peer_entry s)\<rparr>)"

section \<open>Headers\<close>

definition peer_of_old_hdr :: "(bytes \<Rightarrow> string) \<Rightarrow> u32 \<times> u32 \<Rightarrow> bytes \<Rightarrow> obj_bgp_peer \<Rightarrow> obj_bgp_peer" where
  "peer_of_old_hdr f6 now h p =
     (let v4 = (h ! 2 AND 0x80 = 0); ts = le_val (SWAP_BYTES (sub_bytes 35 4 h) 4)
      in p\<lparr>peer_isIPv4 := v4,
           peer_addr := strncpy 40 (addr_text v4 f6 (sub_bytes 11 16 h)),
           peer_as := of_nat (strtoll16 (as_text (sub_bytes 27 4 h))),
           peer_bgp_id := strncpy 16 (snprintf 16 (inet_ntop4 (sub_bytes 31 4 h))),
           peer_rd := strncpy 32 (snprintf 32 (peer_rd_text_old (sub_bytes 3 8 h))),
           timestamp_secs := (if ts \<noteq> 0 then of_nat ts else fst now),
           isL3VPN := (h ! 0 = 1)\<rparr>)"

definition parseBMPv2 :: "(bytes \<Rightarrow> string) \<Rightarrow> u32 \<times> u32 \<Rightarrow> parse_bmp \<Rightarrow> parse_bmp result" where
  "parseBMPv2 f6 now s =
     (let (i, h, s) = Recv False BMP_HDRv1v2_LEN (s\<lparr>bmp_len := 0\<rparr>)
      in if i \<noteq> int BMP_HDRv1v2_LEN then Inl (Throw ''ERROR: Cannot read v1/v2 BMP common header.'')
         else let s = s\<lparr>bmp_type := h ! 0\<rparr>
         in andThen
              (if h ! 0 = 0 then
                 let (i, buf, s) = Recv True 18 s
                 in if i = 18 then Inr (s\<lparr>bmp_len := of_nat (le_val (SWAP_BYTES (sub_bytes 16 2 buf) 2))\<rparr>)
                    else Inl (Throw ''Failed to read BGP message for BMP length'')
               else if h ! 0 = 2 then
                 let (i, got, s) = Recv True 1 s; buf = got @ replicate 256 0
                 in if i \<noteq> 1 then
                      if buf ! 0 = 1 \<or> buf ! 0 = 3 then
                        let (i, buf, s) = Recv True 18 s
                        in if i = 18 then Inr (s\<lparr>bmp_len := of_nat (le_val (SWAP_BYTES (sub_bytes 16 2 buf @ [0, 0]) 4))\<rparr>)
                           else Inl (Throw ''Failed to read BGP message for BMP length'')
                      else Inr s
                    else Inl (Throw ''Failed to read BMP peer down reason'')
               else if h ! 0 = 3 then Inl (Throw ''ERROR: Will need to add support for peer up if it's really used.'')
               else Inr s) (\<lambda>s.
              Inr (s\<lparr>peer_entry := peer_of_old_hdr f6 now h (peer_entry s)\<rparr>)))"

definition parseBMPv3 :: "(bytes \<Rightarrow> string) \<Rightarrow> u32 \<times> u32 \<Rightarrow> parse_bmp \<Rightarrow> parse_bmp result" where
  "parseBMPv3 f6 now s =
     (let (i, h, s) = Recv False BMP_HDRv3_LEN s
      in if i \<noteq> int BMP_HDRv3_LEN then Inl (Throw ''ERROR: Cannot read v3 BMP common header.'')
         else let len = of_nat (le_val (SWAP_BYTES (take 4 h) 4)) - (1 + of_nat BMP_HDRv3_LEN) :: u32; t = h ! 4
         in if len > of_nat BGP_MAX_MSG_SIZE then Inl (Throw ''ERROR: BMP length is larger than max possible BGP size'')
            else let s = s\<lparr>bmp_type := t, bmp_len := len\<rparr>
            in if t \<in> {TYPE_ROUTE_MON, TYPE_STATS_REPORT, TYPE_PEER_UP, TYPE_PEER_DOWN} then Inr (parsePeerHdr f6 now s)
               else if t \<in> {TYPE_INIT_MSG, TYPE_TERM_MSG} then Inr s
               else Inl (Throw ''ERROR: BMP message type is not supported''))"

definition handleMessage :: "(bytes \<Rightarrow> string) \<Rightarrow> u32 \<times> u32 \<Rightarrow> parse_bmp \<Rightarrow> parse_bmp result" where
  "handleMessage f6 now s =
     (let (i, v, s) = Recv False 1 s
      in if i < 0 then Inl (Throw ''(1) Failed to read from socket.'')
         else if i = 0 then Inl (Throw ''(2) Connection closed'')
         else if i \<noteq> 1 then Inl (Throw ''(3) Cannot read the BMP version byte from socket'')
         else if v ! 0 = 3 then parseBMPv3 f6 now s
         else if v ! 0 = 1 \<or> v ! 0 = 2 then parseBMPv2 f6 now s
         else Inl (Throw ''ERROR: Unsupported BMP message version''))"

definition bufferBMPMessage :: "parse_bmp \<Rightarrow> parse_bmp result" where
  "bufferBMPMessage s =
     (if bmp_len s = 0 then Inr s
      else if bmp_len s > of_nat (BMP_PACKET_BUF_SIZE + 1)
      then Inl (Throw ''BMP message length is too large for buffer, invalid BMP sender'')
      else let (i, got, s') = Recv False (unat (bmp_len s)) s
           in if i \<noteq> int (unat (bmp_len s)) then Inl (Throw ''Error while reading BMP data into buffer'')
              else Inr (s'\<lparr>bmp_data := got, bmp_len := 0\<rparr>))"

definition parsePeerDownEventHdr :: "obj_peer_down_event \<Rightarrow> parse_bmp \<Rightarrow> bool \<times> obj_peer_down_event \<times> parse_bmp" where
  "parsePeerDownEventHdr down_event s =
     (let (i, b, s) = Recv False 1 s
      in if i = 1 then (True, down_event\<lparr>bmp_reason := b ! 0\<rparr>, s\<lparr>bmp_len := bmp_len s - 1\<rparr>)
         else (False, down_event, s))"

definition parsePeerUpEventHdr :: "(bytes \<Rightarrow> string) \<Rightarrow> obj_peer_up_event \<Rightarrow> parse_bmp \<Rightarrow> (bool \<times> obj_peer_up_event \<times> parse_bmp) result" where
  "parsePeerUpEventHdr f6 up_event s =
     (let (i, a, s) = Recv False 16 s; good = (i = 16); read = (if good then 16 else 0 :: u32);
          up_event = (if good then up_event\<lparr>local_ip := addr_text (peer_isIPv4 (peer_entry s)) f6 a\<rparr> else up_event);
          (i, lp, s) = (if good then Recv False 2 s else (0, [], s));
          good1 = (good \<and> i = 2); read = (if good1 then read + 2 else read);
          up_event = (if good1 then up_event\<lparr>local_port := le_val (SWAP_BYTES lp 2)\<rparr> else up_event);
          (i, rp, s) = (if good1 then Recv False 2 s else (0, [], s));
          good2 = (good1 \<and> i = 2); read = (if good2 then read + 2 else read);
          up_event = (if good2 then up_event\<lparr>remote_port := le_val (SWAP_BYTES rp 2)\<rparr> else up_event)
      in andThen (bufferBMPMessage (s\<lparr>bmp_len := bmp_len s - read\<rparr>)) (\<lambda>s.
         andThen (if good2 then Inr s else bufferBMPMessage s) (\<lambda>s.
           Inr (good2, up_event, s))))"

section \<open>Information TLVs\<close>

text \<open>
  The loop of the three TLV lists. \<open>cap\<close> is the size of the cleared local buffer the information is copied to;
  \<open>h\<close> saves it by type and is given the type, the length of the header and the local buffer, if it was filled.
  \<open>i\<close> counts the bytes of the list that are read.
\<close>

type_synonym 'st tlv_handler = "nat \<Rightarrow> nat \<Rightarrow> bytes option \<Rightarrow> 'st \<Rightarrow> 'st result"

function tlv_loop :: "nat \<Rightarrow> 'st tlv_handler \<Rightarrow> nat \<Rightarrow> nat \<Rightarrow> bytes \<Rightarrow> 'st \<Rightarrow> 'st result" where
  "tlv_loop cap h len i bufPtr st =
     (if i < len then
        andThen (rd BMP_INFO_TLV_HDR_LEN bufPtr) (\<lambda>hdr.
          let t = le_val (SWAP_BYTES (take 2 hdr) 2); l = le_val (SWAP_BYTES (drop 2 hdr) 2);
              bufPtr = drop BMP_INFO_TLV_HDR_LEN bufPtr
          in if l > 0 then
               let infoLen = min cap l
               in andThen (rd infoLen bufPtr) (\<lambda>d.
                  andThen (h t l (Some (d @ replicate (cap - infoLen) 0)) st) (\<lambda>st.
                    tlv_loop cap h len (i + infoLen + BMP_INFO_TLV_HDR_LEN) (drop infoLen bufPtr) st))
             else andThen (h t l None st) (\<lambda>st.
                    tlv_loop cap h len (i + BMP_INFO_TLV_HDR_LEN) bufPtr st))
      else Inr st)"
  by pat_completeness auto
termination
  by (relation "measure (\<lambda>(cap, h, len, i, bufPtr, st). len - i)") (auto simp: bmp_lens)

declare tlv_loop.simps [simp del]

text \<open>\<open>memcpy\<close> of \<open>n\<close> bytes from the local buffer, which may be a null pointer, into a member array.\<close>

definition copy_info :: "nat \<Rightarrow> bytes option \<Rightarrow> bytes \<Rightarrow> bytes result" where
  "copy_info n info arr =
     (case info of
        None \<Rightarrow> Inl NullDeref
      | Some buf \<Rightarrow> andThen (rd n buf) (\<lambda>d. if n \<le> length arr then Inr (poke 0 d arr) else Inl BufferOverflow))"

text \<open>\<open>strncpy\<close> writes the text before the first zero byte and fills up with zero bytes.\<close>

definition strncpy_info :: "nat \<Rightarrow> bytes option \<Rightarrow> bytes \<Rightarrow> bytes result" where
  "strncpy_info n info arr =
     (case info of
        None \<Rightarrow> Inl NullDeref
      | Some buf \<Rightarrow>
          let t = take n (takeWhile (\<lambda>b. b \<noteq> 0) buf)
          in if n \<le> length arr then Inr (poke 0 (t @ replicate (n - length t) 0) arr) else Inl BufferOverflow)"

text \<open>\<open>sizeof arr < (len - 1) ? sizeof arr - 1 : len\<close>, where \<open>len - 1\<close> is converted to an unsigned number.\<close>

definition info_len :: "nat \<Rightarrow> nat \<Rightarrow> nat" where
  "info_len siz l = (if l = 0 \<or> siz < l - 1 then siz - 1 else l)"

definition INFO_TLV_PEER_VRF_TABLE :: nat where "INFO_TLV_PEER_VRF_TABLE = 3"

definition up_info :: "obj_bgp_peer tlv_handler" where
  "up_info t l info p =
     (if t = INFO_TLV_PEER_VRF_TABLE
      then andThen (copy_info (info_len 255 l) info (table_name p)) (\<lambda>n. Inr (p\<lparr>table_name := n\<rparr>))
      else Inr p)"

definition parsePeerUpInfo :: "bytes \<Rightarrow> nat \<Rightarrow> obj_bgp_peer \<Rightarrow> obj_bgp_peer result" where
  "parsePeerUpInfo data len p = tlv_loop 255 up_info len 0 data p"

definition INIT_TYPE_FREE_FORM_STRING :: nat where "INIT_TYPE_FREE_FORM_STRING = 0"
definition INIT_TYPE_SYSDESCR :: nat where "INIT_TYPE_SYSDESCR = 1"
definition INIT_TYPE_SYSNAME :: nat where "INIT_TYPE_SYSNAME = 2"
definition INIT_TYPE_ROUTER_BGP_ID :: nat where "INIT_TYPE_ROUTER_BGP_ID = 65531"

lemmas init_types = INIT_TYPE_FREE_FORM_STRING_def INIT_TYPE_SYSDESCR_def INIT_TYPE_SYSNAME_def INIT_TYPE_ROUTER_BGP_ID_def

definition init_info :: "obj_router tlv_handler" where
  "init_info t l info r =
     (if l = 0 then Inr r
      else if t = INIT_TYPE_FREE_FORM_STRING then
        andThen (copy_info (info_len 4096 l) info (initiate_data r)) (\<lambda>d. Inr (r\<lparr>initiate_data := d\<rparr>))
      else if t = INIT_TYPE_SYSNAME then
        andThen (strncpy_info (info_len 255 l) info (router_name r)) (\<lambda>d.
          Inr (r\<lparr>router_name := d, hash_type := (if hash_type r < 2 then 1 else hash_type r)\<rparr>))
      else if t = INIT_TYPE_SYSDESCR then
        andThen (strncpy_info (info_len 255 l) info (router_descr r)) (\<lambda>d. Inr (r\<lparr>router_descr := d\<rparr>))
      else if t = INIT_TYPE_ROUTER_BGP_ID then
        if l \<noteq> 4 then Inr r
        else (case info of
                None \<Rightarrow> Inl NullDeref
              | Some buf \<Rightarrow> andThen (rd 4 buf) (\<lambda>a. Inr (r\<lparr>router_bgp_id := inet_ntop4 a, hash_type := 2\<rparr>)))
      else Inr r)"

definition handleInitMsg :: "obj_router \<Rightarrow> parse_bmp \<Rightarrow> (obj_router \<times> parse_bmp) result" where
  "handleInitMsg r_entry s =
     andThen (bufferBMPMessage s) (\<lambda>s.
     andThen (tlv_loop 4096 init_info (length (bmp_data s)) 0 (bmp_buf s) (r_entry\<lparr>hash_type := 0\<rparr>)) (\<lambda>r.
       Inr (r, s)))"

definition TERM_TYPE_FREE_FORM_STRING :: nat where "TERM_TYPE_FREE_FORM_STRING = 0"
definition TERM_TYPE_REASON :: nat where "TERM_TYPE_REASON = 1"

definition reason_text :: "nat \<Rightarrow> string" where
  "reason_text c =
     (if c = 0 then ''Remote session administratively closed''
      else if c = 2 then ''Remote out of resources''
      else if c = 3 then ''Remote considers connection redundant''
      else if c = 1 then ''Remote closed with unspecified reason''
      else ''Unknown '' @ dec_of_nat c @ '' termination reason, which is not part of draft.'')"

definition term_info :: "obj_router tlv_handler" where
  "term_info t l info r =
     (if t = TERM_TYPE_FREE_FORM_STRING then
        andThen (if l = 0 then Inr (term_data r) else copy_info l info (term_data r)) (\<lambda>d. Inr (r\<lparr>term_data := d\<rparr>))
      else if t = TERM_TYPE_REASON then
        (case info of
           None \<Rightarrow> Inl NullDeref
         | Some buf \<Rightarrow> andThen (ntoh 2 buf) (\<lambda>c.
             Inr (r\<lparr>term_reason_code := c, term_reason_text := snprintf 255 (reason_text c)\<rparr>)))
      else Inr r)"

definition handleTermMsg :: "obj_router \<Rightarrow> parse_bmp \<Rightarrow> (obj_router \<times> parse_bmp) result" where
  "handleTermMsg r_entry s =
     andThen (bufferBMPMessage s) (\<lambda>s.
     andThen (tlv_loop 4096 term_info (length (bmp_data s)) 0 (bmp_buf s) r_entry) (\<lambda>r.
       Inr (r, s)))"

section \<open>Statistics\<close>

definition stat_offset :: "nat \<Rightarrow> nat option" where
  "stat_offset t = (if t < 7 then Some (4 * t) else if t = 7 then Some 32 else if t = 8 then Some 40 else None)"

definition skip_bytes :: "nat \<Rightarrow> parse_bmp \<Rightarrow> parse_bmp" where
  "skip_bytes n s = ((\<lambda>s. snd (snd (Recv False 1 s))) ^^ n) s"

fun stats_loop :: "nat \<Rightarrow> obj_stats_report \<Rightarrow> parse_bmp \<Rightarrow> (obj_stats_report \<times> parse_bmp) result" where
  "stats_loop 0 stats s = Inr (stats, s)"
| "stats_loop (Suc n) stats s =
     (let (i, tb, s) = Recv False 2 s
      in if i \<noteq> 2 then Inl (Throw ''ERROR: Cannot proceed since we cannot read the stats type.'')
         else let (i, lb, s) = Recv False 2 s
         in if i \<noteq> 2 then Inl (Throw ''ERROR: Cannot proceed since we cannot read the stats len.'')
            else let s = s\<lparr>bmp_len := bmp_len s - 4\<rparr>; t = le_val (SWAP_BYTES tb 2); l = le_val (SWAP_BYTES lb 2)
            in if l = 4 \<or> l = 8 then
                 let (i, b, s) = Recv False l s
                 in if i = int l
                    then stats_loop n
                           (case stat_offset t of None \<Rightarrow> stats | Some off \<Rightarrow> poke off (SWAP_BYTES b l) stats)
                           (s\<lparr>bmp_len := bmp_len s - of_nat l\<rparr>)
                    else stats_loop n stats s
               else stats_loop n stats (skip_bytes l s))"

definition handleStatsReport :: "obj_stats_report \<Rightarrow> parse_bmp \<Rightarrow> (obj_stats_report \<times> parse_bmp) result" where
  "handleStatsReport stats s =
     (let (i, b, s) = Recv False 4 s
      in if i \<noteq> 4 then Inl (Throw ''ERROR:  Cannot proceed since we cannot read the stats mon counter'')
         else stats_loop (le_val (SWAP_BYTES b 4)) stats (s\<lparr>bmp_len := bmp_len s - 4\<rparr>))"

section \<open>Framing\<close>

lemma save_packet_fields [simp]:
  "sock_in (save_packet got s) = sock_in s" "sock_err (save_packet got s) = sock_err s"
  "bmp_type (save_packet got s) = bmp_type s" "bmp_len (save_packet got s) = bmp_len s"
  "bmp_data (save_packet got s) = bmp_data s" "peer_entry (save_packet got s) = peer_entry s"
  by (simp_all add: save_packet_def)

text \<open>What a read returns, and the parser after it.\<close>

definition taken :: "nat \<Rightarrow> parse_bmp \<Rightarrow> parse_bmp" where
  "taken n s = (save_packet (take n (sock_in s)) s)\<lparr>sock_in := drop n (sock_in s)\<rparr>"

lemma taken_fields [simp]:
  "sock_in (taken n s) = drop n (sock_in s)" "sock_err (taken n s) = sock_err s"
  "bmp_type (taken n s) = bmp_type s" "bmp_len (taken n s) = bmp_len s"
  "bmp_data (taken n s) = bmp_data s" "peer_entry (taken n s) = peer_entry s"
  by (simp_all add: taken_def)

lemma taken_packet:
  "length (bmp_packet s) + length (take n (sock_in s)) < 68000 \<Longrightarrow>
   bmp_packet (taken n s) = bmp_packet s @ take n (sock_in s)"
  by (simp add: taken_def save_packet_def BMP_PACKET_BUF_SIZE_def)

lemma Recv_taken: "Recv False n s = (recv_cnt n s, take n (sock_in s), taken n s)"
  by (simp add: Recv_def taken_def Let_def)

lemma recv_cnt_full: "0 < n \<Longrightarrow> recv_cnt n s = int n \<longleftrightarrow> n \<le> length (sock_in s)"
  by (auto simp: recv_cnt_def)

lemma recv_cnt_numeral [simp]:
  "recv_cnt (numeral k) s = numeral k \<longleftrightarrow> numeral k \<le> length (sock_in s)" "recv_cnt (Suc 0) s = 1 \<longleftrightarrow> sock_in s \<noteq> []"
  using recv_cnt_full [of "numeral k" s] recv_cnt_full [of "Suc 0" s] by (simp_all add: Suc_le_eq)

text \<open>A length that was not wrapped around when \<open>n\<close> was subtracted.\<close>

lemma sub_nowrap:
  assumes "bmp - of_nat n \<le> (68021 :: u32)" "n \<le> 68001"
  shows "unat bmp = n + unat (bmp - of_nat n)"
proof -
  have n: "unat (of_nat n :: u32) = n" using assms(2) by (simp add: unat_of_nat)
  have "unat (bmp - of_nat n) = (if n \<le> unat bmp then unat bmp - n else unat bmp + 2 ^ 32 - n)"
    using n by (simp add: unat_sub_if_size word_size word_le_nat_alt)
  with assms show ?thesis by (simp add: word_le_nat_alt split: if_splits)
qed

lemma parsePeerHdr_fields:
  "sock_in (parsePeerHdr f6 now s) = drop 42 (sock_in s)" "bmp_len (parsePeerHdr f6 now s) = bmp_len s - 42"
  "bmp_type (parsePeerHdr f6 now s) = bmp_type s" "sock_err (parsePeerHdr f6 now s) = sock_err s" "bmp_data (parsePeerHdr f6 now s) = bmp_data s"
  by (simp_all add: parsePeerHdr_def Recv_taken Let_def bmp_lens)

lemma buffer_iff:
  "bufferBMPMessage s = Inr s' \<longleftrightarrow>
     (if bmp_len s = 0 then s' = s
      else bmp_len s \<le> 68001 \<and> unat (bmp_len s) \<le> length (sock_in s) \<and>
        s' = (taken (unat (bmp_len s)) s)\<lparr>bmp_data := take (unat (bmp_len s)) (sock_in s), bmp_len := 0\<rparr>)"
proof (cases "bmp_len s = 0")
  case False
  then have pos: "0 < unat (bmp_len s)" by (simp add: unat_gt_0)
  show ?thesis
    using False recv_cnt_full [OF pos, of s]
    by (auto simp: bufferBMPMessage_def Recv_taken Let_def BMP_PACKET_BUF_SIZE_def)
qed (auto simp: bufferBMPMessage_def)

lemma buffer_frame:
  assumes "bufferBMPMessage s = Inr s'"
  shows "sock_in s' = drop (unat (bmp_len s)) (sock_in s)" "bmp_len s' = 0" "bmp_len s \<le> 68001"
    "bmp_type s' = bmp_type s" "peer_entry s' = peer_entry s"
  using assms by (auto simp: buffer_iff split: if_splits)

lemma buffer_data:
  assumes "bufferBMPMessage s = Inr s'" "bmp_data s = []"
  shows "bmp_data s' = take (unat (bmp_len s)) (sock_in s)" "length (bmp_data s') = unat (bmp_len s)"
  using assms by (auto simp: buffer_iff split: if_splits)

lemma down_frame:
  assumes "parsePeerDownEventHdr d s = (True, d', s1)" "bufferBMPMessage s1 = Inr s'"
  shows "sock_in s' = drop (unat (bmp_len s)) (sock_in s)" "bmp_len s \<le> 68021"
proof -
  from assms(1) have s1: "bmp_len s1 = bmp_len s - 1" "sock_in s1 = drop 1 (sock_in s)"
    by (auto simp: parsePeerDownEventHdr_def Recv_taken Let_def split: if_splits)
  have "bmp_len s - of_nat 1 \<le> 68021" using buffer_frame(3) [OF assms(2)] s1(1) by (simp add: word_le_nat_alt)
  from sub_nowrap [OF this] buffer_frame(1,3) [OF assms(2)]
  show "sock_in s' = drop (unat (bmp_len s)) (sock_in s)" "bmp_len s \<le> 68021" by (simp_all add: s1 word_le_nat_alt)
qed

lemma up_full:
  assumes "20 \<le> length (sock_in s)"
  shows "\<exists>u' s1. parsePeerUpEventHdr f6 u s = andThen (bufferBMPMessage s1) (\<lambda>s. Inr (True, u', s)) \<and>
    bmp_len s1 = bmp_len s - 20 \<and> sock_in s1 = drop 20 (sock_in s)"
proof -
  let ?u = "u\<lparr>local_ip := addr_text (peer_isIPv4 (peer_entry s)) f6 (take 16 (sock_in s)),
      local_port := le_val (SWAP_BYTES (take 2 (drop 16 (sock_in s))) 2),
      remote_port := le_val (SWAP_BYTES (take 2 (drop 18 (sock_in s))) 2)\<rparr>"
  have "16 \<le> length (sock_in s)" "2 \<le> length (sock_in s) - 16" "2 \<le> length (sock_in s) - 18" using assms by simp_all
  then show ?thesis
    by (intro exI [of _ ?u] exI [of _ "(taken 2 (taken 2 (taken 16 s)))\<lparr>bmp_len := bmp_len s - 20\<rparr>"])
      (simp add: parsePeerUpEventHdr_def Recv_taken Let_def)
qed

lemma up_short:
  assumes "length (sock_in s) < 20" "parsePeerUpEventHdr f6 u s = Inr (good, u', s')"
  shows "sock_in s' = []"
  using assms
  by (auto simp: parsePeerUpEventHdr_def Recv_taken Let_def andThen_eq_Inr dest!: buffer_frame(1) split: if_splits)

lemma up_frame:
  assumes "parsePeerUpEventHdr f6 u s = Inr (good, u', s')"
  shows "sock_in s' = drop (unat (bmp_len s)) (sock_in s) \<and> bmp_len s \<le> 68021 \<or> sock_in s' = []"
proof (cases "20 \<le> length (sock_in s)")
  case True
  from up_full [OF this, of f6 u] obtain u1 s1 where
    run: "parsePeerUpEventHdr f6 u s = andThen (bufferBMPMessage s1) (\<lambda>s. Inr (True, u1, s))" and
    s1: "bmp_len s1 = bmp_len s - 20" "sock_in s1 = drop 20 (sock_in s)" by blast
  from assms [unfolded run] have buf: "bufferBMPMessage s1 = Inr s'" by (auto simp: andThen_eq_Inr)
  have "bmp_len s - of_nat 20 \<le> 68021" using buffer_frame(3) [OF buf] s1(1) by (simp add: word_le_nat_alt)
  then have n: "unat (bmp_len s) = 20 + unat (bmp_len s - 20)" using sub_nowrap [of "bmp_len s" 20] by simp
  moreover from n have "bmp_len s \<le> 68021" using buffer_frame(3) [OF buf] s1(1) by (simp add: word_le_nat_alt)
  ultimately show ?thesis using buffer_frame(1) [OF buf] by (simp add: s1 add.commute)
next
  case False
  with up_short [OF _ assms] show ?thesis by simp
qed

lemma up_len0:
  assumes "parsePeerUpEventHdr f6 u s = Inr (good, u', s')"
  shows "bmp_len s' = 0"
  using assms by (auto simp: parsePeerUpEventHdr_def Recv_taken Let_def andThen_eq_Inr dest!: buffer_frame(2) split: if_splits)

lemma skip_bytes_in: "sock_in (skip_bytes n s) = drop n (sock_in s)"
  by (induction n arbitrary: s) (simp_all add: skip_bytes_def Recv_taken funpow_Suc_right del: funpow.simps(2))

lemma stats_loop_length: "stats_loop n stats s = Inr (stats', s') \<Longrightarrow> length (sock_in s') \<le> length (sock_in s)"
proof (induction n arbitrary: stats s)
  case (Suc n)
  from Suc.prems show ?case
    by (auto simp: Recv_taken skip_bytes_in Let_def split: if_splits dest!: Suc.IH)
qed simp

lemma stats_length: "handleStatsReport stats s = Inr (stats', s') \<Longrightarrow> length (sock_in s') \<le> length (sock_in s)"
  by (auto simp: handleStatsReport_def Recv_taken Let_def split: if_splits dest!: stats_loop_length)

text \<open>The bytes a message takes by its header.\<close>

definition msg_len :: "bytes \<Rightarrow> nat" where
  "msg_len inp = be_val (take 4 (drop 1 inp))"

lemma handleMessage_v3:
  assumes "handleMessage f6 now s = Inr s'" "hd (sock_in s) = 3"
  shows "6 \<le> length (sock_in s)" "unat (of_nat (msg_len (sock_in s)) - 6 :: u32) \<le> 65535"
    "bmp_type s' = sock_in s ! 5" "bmp_data s' = bmp_data s" "sock_err s' = sock_err s"
    "if bmp_type s' \<in> {0, 1, 2, 3} then sock_in s' = drop 48 (sock_in s) \<and> bmp_len s' = of_nat (msg_len (sock_in s)) - 48
     else bmp_type s' \<in> {4, 5} \<and> sock_in s' = drop 6 (sock_in s) \<and> bmp_len s' = of_nat (msg_len (sock_in s)) - 6"
proof -
  from assms obtain rest where inp: "sock_in s = 3 # rest"
    by (cases "sock_in s") (auto simp: handleMessage_def Recv_taken recv_cnt_def split: if_splits)
  have run: "parseBMPv3 f6 now (taken 1 s) = Inr s'"
    using assms(1) inp by (simp add: handleMessage_def Recv_taken recv_cnt_def)
  have len: "5 \<le> length rest"
    using run inp by (rule_tac ccontr) (simp add: parseBMPv3_def Recv_taken bmp_lens)
  have be: "le_val (SWAP_BYTES (take 4 (take 5 rest)) 4) = be_val (take 4 rest)" using len by (simp add: min_def)
  show "6 \<le> length (sock_in s)" using len inp by simp
  note run1 = run [unfolded parseBMPv3_def Recv_taken bmp_lens]
  show "unat (of_nat (msg_len (sock_in s)) - 6 :: u32) \<le> 65535"
    using run1 len by (auto simp: inp be msg_len_def BGP_MAX_MSG_SIZE_def word_less_nat_alt Let_def split: if_splits)
  have t: "take 5 rest ! 4 = rest ! 4" by simp
  show "bmp_type s' = sock_in s ! 5"
    using run1 len by (auto simp: inp Let_def parsePeerHdr_fields split: if_splits)
  show "bmp_data s' = bmp_data s"
    using run1 len by (auto simp: inp Let_def parsePeerHdr_fields split: if_splits)
  show "sock_err s' = sock_err s"
    using run1 len by (auto simp: inp Let_def parsePeerHdr_fields split: if_splits)
  show "if bmp_type s' \<in> {0, 1, 2, 3} then sock_in s' = drop 48 (sock_in s) \<and> bmp_len s' = of_nat (msg_len (sock_in s)) - 48
     else bmp_type s' \<in> {4, 5} \<and> sock_in s' = drop 6 (sock_in s) \<and> bmp_len s' = of_nat (msg_len (sock_in s)) - 6"
    using run1 len by (auto simp: inp be msg_len_def Let_def parsePeerHdr_fields bmp_types split: if_splits)
qed

text \<open>
  A message that is buffered after its header takes its announced length; with a header shorter than the
  fixed parts the remaining length wraps around and buffering fails.
\<close>

lemma message_frame:
  assumes "handleMessage f6 now s = Inr s1" "hd (sock_in s) = 3" "bmp_len s1 \<le> 68021"
    "inp = drop (unat (bmp_len s1)) (sock_in s1)"
  shows "inp = drop (msg_len (sock_in s)) (sock_in s)"
proof -
  note hdr = handleMessage_v3 [OF assms(1,2)]
  have "length (take 4 (drop 1 (sock_in s))) = 4" using hdr(1) by simp
  then have small: "msg_len (sock_in s) < 2 ^ 32" using be_val_bound [of "take 4 (drop 1 (sock_in s))"]
    by (simp add: msg_len_def)
  then have L: "unat (of_nat (msg_len (sock_in s)) :: u32) = msg_len (sock_in s)" by (simp add: unat_of_nat)
  show ?thesis
  proof (cases "bmp_type s1 \<in> {0, 1, 2, 3}")
    case True
    with hdr(6) have "sock_in s1 = drop 48 (sock_in s)" "bmp_len s1 = of_nat (msg_len (sock_in s)) - of_nat 48" by simp_all
    moreover from this have "msg_len (sock_in s) = unat (bmp_len s1) + 48"
      using sub_nowrap [of "of_nat (msg_len (sock_in s))" 48] assms(3) L by simp
    ultimately show ?thesis by (metis assms(4) drop_drop)
  next
    case False
    with hdr(6) have "sock_in s1 = drop 6 (sock_in s)" "bmp_len s1 = of_nat (msg_len (sock_in s)) - of_nat 6" by simp_all
    moreover from this have "msg_len (sock_in s) = unat (bmp_len s1) + 6"
      using sub_nowrap [of "of_nat (msg_len (sock_in s))" 6] assms(3) L by simp
    ultimately show ?thesis by (metis assms(4) drop_drop)
  qed
qed

lemma parseBMPv2_frame:
  assumes "parseBMPv2 f6 now s = Inr s'"
  shows "sock_in s' = drop 43 (sock_in s)" "sock_err s' = sock_err s" "bmp_data s' = bmp_data s"
  using assms
  by (auto simp: parseBMPv2_def Recv_taken Recv_def [of True] bmp_lens Let_def andThen_eq_Inr split: if_splits)

lemma handleMessage_shrinks:
  assumes "handleMessage f6 now s = Inr s'"
  shows "\<exists>k>0. sock_in s' = drop k (sock_in s)" "sock_in s \<noteq> []" "sock_err s' = sock_err s" "bmp_data s' = bmp_data s"
proof -
  show ne: "sock_in s \<noteq> []"
    using assms by (auto simp: handleMessage_def Recv_taken recv_cnt_def split: if_splits)
  have "(\<exists>k>0. sock_in s' = drop k (sock_in s)) \<and> sock_err s' = sock_err s \<and> bmp_data s' = bmp_data s"
  proof (cases "hd (sock_in s) = 3")
    case True
    from handleMessage_v3 [OF assms this] show ?thesis
      by (cases "bmp_type s' \<in> {0, 1, 2, 3}") (auto intro: exI [of _ 48] exI [of _ 6])
  next
    case False
    with ne assms have "parseBMPv2 f6 now (taken 1 s) = Inr s'"
      by (cases "sock_in s") (auto simp: handleMessage_def Recv_taken recv_cnt_def split: if_splits)
    from parseBMPv2_frame [OF this] show ?thesis by (auto intro: exI [of _ 44])
  qed
  then show "\<exists>k>0. sock_in s' = drop k (sock_in s)" "sock_err s' = sock_err s" "bmp_data s' = bmp_data s" by auto
qed

text \<open>The headers of a well-formed message of version 3.\<close>

lemma v3_header_run:
  assumes "sock_in s = [3] @ be_bytes 4 L @ [t] @ rest" "6 \<le> L" "L \<le> 65541"
  shows "handleMessage f6 now s =
    (let s1 = (taken 5 (taken 1 s))\<lparr>bmp_type := t, bmp_len := of_nat (L - 6)\<rparr>
     in if t \<in> {0, 1, 3, 2} then Inr (parsePeerHdr f6 now s1) else if t \<in> {4, 5} then Inr s1
        else Inl (Throw ''ERROR: BMP message type is not supported''))"
proof -
  have tb: "take 5 (sock_in (taken 1 s)) = be_bytes 4 L @ [t]" using assms(1) by (simp del: be_bytes_numeral)
  have v: "recv_cnt 1 s = 1" "take 1 (sock_in s) = [3]" using assms(1) by (simp_all add: recv_cnt_def)
  have c: "recv_cnt 5 (taken 1 s) = 5" using assms(1) by (simp del: be_bytes_numeral)
  have l: "le_val (SWAP_BYTES (take 4 (be_bytes 4 L @ [t])) 4) = L" "(be_bytes 4 L @ [t]) ! 4 = t"
    using assms(3) by (simp_all add: be_val_be_bytes nth_append del: be_bytes_numeral)
  have n: "of_nat L - (1 + of_nat 5) = (of_nat (L - 6) :: u32)" using assms(2) by (simp add: of_nat_diff)
  have "\<not> of_nat 65535 < (of_nat (L - 6) :: u32)" using assms(3) by (simp add: word_less_nat_alt unat_of_nat)
  moreover have "handleMessage f6 now s = parseBMPv3 f6 now (taken 1 s)"
    unfolding handleMessage_def Recv_taken v Let_def by simp
  moreover have r: "Recv False 5 (taken 1 s) = (5, be_bytes 4 L @ [t], taken 5 (taken 1 s))"
    by (simp only: Recv_taken c tb)
  ultimately show ?thesis
    unfolding parseBMPv3_def bmp_lens bmp_types r Let_def split_conv l n BGP_MAX_MSG_SIZE_def by simp
qed

lemma handleMessage_run:
  assumes "sock_in s = [3] @ be_bytes 4 L @ [t] @ hdr @ rest" "length hdr = 42" "48 \<le> L" "L \<le> 65541" "t \<in> {0, 1, 2, 3}"
  shows "\<exists>s'. handleMessage f6 now s = Inr s' \<and> sock_in s' = rest \<and> bmp_type s' = t \<and> bmp_len s' = of_nat (L - 48) \<and>
    bmp_data s' = bmp_data s \<and> sock_err s' = sock_err s \<and> peer_entry s' = peer_of_hdr f6 now hdr (peer_entry s) \<and>
    (bmp_packet s = [] \<longrightarrow> bmp_packet s' = [3] @ be_bytes 4 L @ [t] @ hdr)"
proof -
  let ?s = "(taken 5 (taken 1 s))\<lparr>bmp_type := t, bmp_len := of_nat (L - 6)\<rparr>"
  have inp: "sock_in ?s = hdr @ rest" using assms(1) by (simp del: be_bytes_numeral)
  have run: "handleMessage f6 now s = Inr (parsePeerHdr f6 now ?s)"
    using v3_header_run [OF assms(1)] assms(3-5) by (auto simp: Let_def)
  have "L - 6 - 42 = L - 48" "(of_nat (L - 6) :: u32) - 42 = of_nat (L - 6 - 42)" using assms(3) by (simp_all add: of_nat_diff)
  then have "bmp_len (parsePeerHdr f6 now ?s) = of_nat (L - 48)" by (simp add: parsePeerHdr_fields)
  moreover have "peer_entry (parsePeerHdr f6 now ?s) = peer_of_hdr f6 now hdr (peer_entry s)"
    using inp assms(2) by (simp add: parsePeerHdr_def Recv_taken bmp_lens Let_def)
  moreover have "sock_in (parsePeerHdr f6 now ?s) = rest" using inp assms(2) by (simp add: parsePeerHdr_fields)
  moreover have "bmp_packet (parsePeerHdr f6 now ?s) = [3] @ be_bytes 4 L @ [t] @ hdr" if "bmp_packet s = []"
  proof -
    have t1: "bmp_packet (taken 1 s) = [3]" "sock_in (taken 1 s) = be_bytes 4 L @ [t] @ hdr @ rest"
      using that assms(1) by (simp_all add: taken_packet del: be_bytes_numeral)
    then have t2: "bmp_packet (taken 5 (taken 1 s)) = [3] @ be_bytes 4 L @ [t]"
      using taken_packet [of "taken 1 s" 5] by (simp del: be_bytes_numeral taken_fields(1))
    have "bmp_packet (parsePeerHdr f6 now ?s) = bmp_packet (taken 42 ?s)" by (simp add: parsePeerHdr_def Recv_taken bmp_lens Let_def)
    also have "\<dots> = [3] @ be_bytes 4 L @ [t] @ hdr"
      using taken_packet [of ?s 42] t2 inp assms(2) by (simp del: be_bytes_numeral)
    finally show ?thesis .
  qed
  ultimately show ?thesis using run by (simp add: parsePeerHdr_fields)
qed

section \<open>The peer header\<close>

lemma hex_digit_char: "d < 16 \<Longrightarrow> hex_digit (digit_char d) = d"
  by (simp add: hex_digit_def digit_char_def Let_def)

lemma hex4_value:
  assumes "v < 65536"
  shows "foldl (\<lambda>a c. a * 16 + hex_digit c) a (hex4 v) = a * 65536 + v"
proof -
  define q1 q2 q3 where "q1 = v div 16" "q2 = q1 div 16" "q3 = q2 div 16"
  then have "v div 256 = q2" "v div 4096 = q3" by (simp_all add: div_mult2_eq [symmetric])
  moreover have "q3 < 16" using assms \<open>v div 4096 = q3\<close> by (simp add: div_less_iff_less_mult flip: \<open>v div 4096 = q3\<close>)
  moreover have "v = 16 * q1 + v mod 16" "q1 = 16 * q2 + q1 mod 16" "q2 = 16 * q3 + q2 mod 16"
    by (simp_all add: q1_q2_q3_def)
  ultimately show ?thesis
    by (simp add: hex4_def hex_digit_char flip: q1_q2_q3_def(1))
qed

lemma strtoll16_as_text:
  assumes "length b = 4"
  shows "strtoll16 (as_text b) = be_val b"
proof -
  obtain b0 b1 b2 b3 where b: "b = [b0, b1, b2, b3]"
    using assms by (auto simp: numeral_eq_Suc length_Suc_conv)
  have "256 * unat x + unat y < 65536" for x y :: u8
    using unat_u8_le [of x] unat_u8_le [of y] by linarith
  then show ?thesis
    by (simp add: b strtoll16_def as_text_def hex4_value be_val_def)
qed

text \<open>Every text of a peer entry is terminated inside its array.\<close>

definition peer_wf :: "obj_bgp_peer \<Rightarrow> bool" where
  "peer_wf p \<longleftrightarrow> length (peer_addr p) < 46 \<and> length (peer_rd p) < 32 \<and> length (peer_bgp_id p) < 16 \<and>
     CHR 0x00 \<notin> set (peer_addr p @ peer_rd p @ peer_bgp_id p) \<and> length (table_name p) = 255"

lemma c_str_no_NUL: "CHR 0x00 \<notin> set (c_str s)"
  using set_takeWhileD [of "CHR 0x00" "\<lambda>c. c \<noteq> CHR 0x00" s] by (auto simp: c_str_def)

lemma strncpy_no_NUL [simp]: "CHR 0x00 \<notin> set (strncpy n s)"
  using c_str_no_NUL [of s] set_take_subset [of n "c_str s"] by (auto simp: strncpy_def)

lemma length_strncpy: "length (strncpy n s) \<le> length s" "length (strncpy n s) \<le> n"
  using length_takeWhile_le [of "\<lambda>c. c \<noteq> CHR 0x00" s] by (simp_all add: strncpy_def c_str_def)

lemma length_snprintf: "0 < n \<Longrightarrow> length (snprintf n s) < n"
  by (auto simp: snprintf_def)

lemma peer_flags_fields [simp]:
  "table_name (parsePeerFlags t fl p) = table_name p"
  by (simp add: parsePeerFlags_def Let_def)

lemma set_timestamp_fields [simp]:
  "peer_addr (set_timestamp a b now p) = peer_addr p" "peer_rd (set_timestamp a b now p) = peer_rd p"
  "peer_bgp_id (set_timestamp a b now p) = peer_bgp_id p" "table_name (set_timestamp a b now p) = table_name p"
  by (simp_all add: set_timestamp_def)

lemma addr_text_short: "\<forall>a. length (f6 a) < 46 \<Longrightarrow> length (strncpy n (addr_text v4 f6 a)) < 46"
  using length_snprintf [of 40 "inet_ntop4 (sub_bytes 12 4 a)"] length_strncpy(1) [of n "addr_text v4 f6 a"]
  by (auto simp: addr_text_def intro: le_less_trans split: if_splits)

lemma peer_texts_short [simp]:
  "length (strncpy n (inet_ntop4 b)) < 16" "length (strncpy n (snprintf 32 t)) < 32" "length (strncpy n (snprintf 16 t)) < 16"
  using inet_ntop4_length [of b] length_strncpy(1) [of n "inet_ntop4 b"] length_snprintf [of 32 t] length_snprintf [of 16 t]
    length_strncpy(1) [of n "snprintf 32 t"] length_strncpy(1) [of n "snprintf 16 t"] by linarith+

lemma peer_of_hdr_wf:
  "\<forall>a. length (f6 a) < 46 \<Longrightarrow> peer_wf p \<Longrightarrow> peer_wf (peer_of_hdr f6 now h p)"
  "\<forall>a. length (f6 a) < 46 \<Longrightarrow> peer_wf p \<Longrightarrow> peer_wf (peer_of_old_hdr f6 now h p)"
  by (simp_all add: peer_wf_def peer_of_hdr_def peer_of_old_hdr_def Let_def addr_text_short)

lemma handleMessage_peer_wf:
  assumes "\<forall>a. length (f6 a) < 46" "peer_wf (peer_entry s)" "handleMessage f6 now s = Inr s'"
  shows "peer_wf (peer_entry s')"
  using assms(2,3) peer_of_hdr_wf [OF assms(1), where now = now]
  by (auto simp: handleMessage_def parseBMPv3_def parseBMPv2_def parsePeerHdr_def Recv_taken Recv_def [of True] Let_def
      andThen_eq_Inr split: if_splits)

lemma zero_peer_wf: "peer_wf zero_peer"
  by (simp add: peer_wf_def zero_peer_def)

section \<open>Statistics reports\<close>

definition encode_stat :: "nat \<times> nat \<times> nat \<Rightarrow> bytes" where
  "encode_stat e = (case e of (t, l, v) \<Rightarrow> be_bytes 2 t @ be_bytes 2 l @ be_bytes l v)"

definition stat_width :: "nat \<Rightarrow> nat" where
  "stat_width t = (if t < 7 then 4 else 8)"

definition stat_ok :: "nat \<times> nat \<times> nat \<Rightarrow> bool" where
  "stat_ok e = (case e of (t, l, v) \<Rightarrow> t < 2 ^ 16 \<and> (if t \<le> 8 then l = stat_width t else l = 4 \<or> l = 8) \<and> v < 256 ^ l)"

definition put_stat :: "obj_stats_report \<Rightarrow> nat \<times> nat \<times> nat \<Rightarrow> obj_stats_report" where
  "put_stat stats e = (case e of (t, l, v) \<Rightarrow>
     (case stat_offset t of None \<Rightarrow> stats | Some off \<Rightarrow> poke off (rev (be_bytes l v)) stats))"

text \<open>A counter as the program reads it from the structure.\<close>

definition stat_field :: "nat \<Rightarrow> obj_stats_report \<Rightarrow> nat" where
  "stat_field t stats = le_val (sub_bytes (the (stat_offset t)) (stat_width t) stats)"

lemma stat_ok_len: "stat_ok (t, l, v) \<Longrightarrow> l = 4 \<or> l = 8"
  by (auto simp: stat_ok_def stat_width_def split: if_splits)

lemma stats_step:
  assumes "stat_ok (t, l, v)" "sock_in s = encode_stat (t, l, v) @ rest"
  shows "stats_loop (Suc n) stats s =
    stats_loop n (put_stat stats (t, l, v))
      ((taken l ((taken 2 (taken 2 s))\<lparr>bmp_len := bmp_len s - 4\<rparr>))\<lparr>bmp_len := bmp_len s - 4 - of_nat l\<rparr>)"
proof -
  note l = stat_ok_len [OF assms(1)]
  have inp: "sock_in s = be_bytes 2 t @ be_bytes 2 l @ be_bytes l v @ rest"
    using assms(2) by (simp add: encode_stat_def del: be_bytes_numeral)
  have t: "t < 65536" using assms(1) by (simp add: stat_ok_def)
  have s1: "sock_in (taken 2 s) = be_bytes 2 l @ be_bytes l v @ rest"
    "sock_in (taken 2 (taken 2 s)) = be_bytes l v @ rest" using inp by (simp_all del: be_bytes_numeral)
  have tb: "take 2 (sock_in s) = be_bytes 2 t" "take 2 (sock_in (taken 2 s)) = be_bytes 2 l"
    "take l (sock_in (taken 2 (taken 2 s))) = be_bytes l v"
    unfolding inp s1 by (simp_all del: be_bytes_numeral)
  have vals: "le_val (SWAP_BYTES (be_bytes 2 t) 2) = t" "le_val (SWAP_BYTES (be_bytes 2 l) 2) = l"
    using t l by (auto simp: be_val_be_bytes simp del: be_bytes_numeral)
  have sw: "SWAP_BYTES (be_bytes l v) l = rev (be_bytes l v)" by (simp add: SWAP_BYTES_rev)
  have cnt: "recv_cnt 2 s = 2" "recv_cnt 2 (taken 2 s) = 2" unfolding recv_cnt_numeral inp s1 by simp_all
  have "recv_cnt l (s'\<lparr>bmp_len := x\<rparr>) = int l" if "sock_in s' = be_bytes l v @ rest" for x s'
    using l that by (subst recv_cnt_full) auto
  with l cnt show ?thesis
    by (simp add: Recv_taken tb s1 vals sw put_stat_def del: be_bytes_numeral taken_fields(1) split: option.split)
qed

lemma stats_run:
  "list_all stat_ok es \<Longrightarrow> sock_in s = concat (map encode_stat es) @ rest \<Longrightarrow>
   \<exists>s'. stats_loop (length es) stats s = Inr (foldl put_stat stats es, s') \<and> sock_in s' = rest \<and>
     bmp_len s' = bmp_len s - of_nat (length (concat (map encode_stat es))) \<and> peer_entry s' = peer_entry s \<and>
     sock_err s' = sock_err s"
proof (induction es arbitrary: s stats)
  case (Cons e es)
  obtain t l v where e: "e = (t, l, v)" by (cases e)
  let ?s = "(taken l ((taken 2 (taken 2 s))\<lparr>bmp_len := bmp_len s - 4\<rparr>))\<lparr>bmp_len := bmp_len s - 4 - of_nat l\<rparr>"
  have ok: "stat_ok (t, l, v)" "list_all stat_ok es" using Cons.prems(1) by (simp_all add: e)
  have inp: "sock_in s = encode_stat (t, l, v) @ concat (map encode_stat es) @ rest"
    using Cons.prems(2) by (simp add: e)
  then have rest: "sock_in ?s = concat (map encode_stat es) @ rest"
    by (simp add: encode_stat_def del: be_bytes_numeral)
  from Cons.IH [OF ok(2) rest, of "put_stat stats (t, l, v)"] stats_step [OF ok(1) inp]
  show ?case by (auto simp: e encode_stat_def simp del: be_bytes_numeral)
qed simp

lemma handleStatsReport_run:
  assumes "list_all stat_ok es" "length es < 2 ^ 32"
    "sock_in s = be_bytes 4 (length es) @ concat (map encode_stat es) @ rest"
  shows "\<exists>s'. handleStatsReport stats s = Inr (foldl put_stat stats es, s') \<and> sock_in s' = rest \<and>
     bmp_len s' = bmp_len s - 4 - of_nat (length (concat (map encode_stat es))) \<and> peer_entry s' = peer_entry s \<and>
     sock_err s' = sock_err s"
proof -
  let ?s = "(taken 4 s)\<lparr>bmp_len := bmp_len s - 4\<rparr>"
  have tb: "take 4 (sock_in s) = be_bytes 4 (length es)" "sock_in ?s = concat (map encode_stat es) @ rest"
    using assms(3) by (simp_all del: be_bytes_numeral)
  have cnt: "recv_cnt 4 s = 4" unfolding recv_cnt_numeral assms(3) by simp
  have n: "le_val (SWAP_BYTES (be_bytes 4 (length es)) 4) = length es"
    using assms(2) by (simp add: be_val_be_bytes del: be_bytes_numeral)
  have "handleStatsReport stats s = stats_loop (length es) stats ?s"
    by (simp add: handleStatsReport_def Recv_taken cnt tb(1) n del: be_bytes_numeral)
  with stats_run [OF assms(1) tb(2), of stats] show ?thesis by simp
qed

lemma poke_same: "off + length xs \<le> length arr \<Longrightarrow> n = length xs \<Longrightarrow> sub_bytes off n (poke off xs arr) = xs"
  by (simp add: sub_bytes_def poke_def)

lemma poke_other:
  assumes "off + length xs \<le> length arr" "off' + n \<le> off \<or> off + length xs \<le> off'"
  shows "sub_bytes off' n (poke off xs arr) = sub_bytes off' n arr"
  using assms(2)
proof
  assume "off' + n \<le> off"
  then show ?thesis using assms(1) by (simp add: sub_bytes_def poke_def take_drop min_def)
next
  assume "off + length xs \<le> off'"
  then show ?thesis using assms(1) by (simp add: sub_bytes_def poke_def)
qed

lemma stat_layout:
  assumes "t \<le> 8" "t' \<le> 8"
  obtains off off' where "stat_offset t = Some off" "stat_offset t' = Some off'" "off + stat_width t \<le> 48"
    "t \<noteq> t' \<longrightarrow> off' + stat_width t' \<le> off \<or> off + stat_width t \<le> off'"
proof (rule that)
  show "stat_offset t = Some (if t < 7 then 4 * t else 8 * t - 24)" "stat_offset t' = Some (if t' < 7 then 4 * t' else 8 * t' - 24)"
    using assms by (auto simp: stat_offset_def)
qed (use assms in \<open>auto simp: stat_width_def\<close>)

lemma put_stat_field:
  assumes "stat_ok (t, l, v)" "t' \<le> 8" "length stats = 48"
  shows "stat_field t' (put_stat stats (t, l, v)) = (if t = t' then v else stat_field t' stats)"
    "length (put_stat stats (t, l, v)) = 48"
proof -
  have "stat_field t' (put_stat stats (t, l, v)) = (if t = t' then v else stat_field t' stats) \<and>
      length (put_stat stats (t, l, v)) = 48"
  proof (cases "t \<le> 8")
    case True
    then have l: "l = stat_width t" "v < 256 ^ l" using assms(1) by (auto simp: stat_ok_def)
    obtain off off' where off: "stat_offset t = Some off" "stat_offset t' = Some off'" "off + stat_width t \<le> 48"
      "t \<noteq> t' \<longrightarrow> off' + stat_width t' \<le> off \<or> off + stat_width t \<le> off'"
      using stat_layout [OF True assms(2)] .
    have fit: "off + length (rev (be_bytes l v)) \<le> length stats" using off(3) l assms(3) by simp
    have "le_val (rev (be_bytes l v)) = v" using be_val_be_bytes [of l v] l(2) by (simp add: be_val_def)
    then show ?thesis
      using off fit l assms(3) poke_same [OF fit] poke_other [OF fit, of off' "stat_width t'"]
      by (auto simp: put_stat_def stat_field_def)
  next
    case False
    with assms show ?thesis by (auto simp: put_stat_def stat_offset_def)
  qed
  then show "stat_field t' (put_stat stats (t, l, v)) = (if t = t' then v else stat_field t' stats)"
    "length (put_stat stats (t, l, v)) = 48" by auto
qed

text \<open>The last counter of a type that a report has.\<close>

definition last_stat :: "nat \<Rightarrow> nat \<Rightarrow> (nat \<times> nat \<times> nat) list \<Rightarrow> nat" where
  "last_stat t d es = foldl (\<lambda>a (t', l, v). if t' = t then v else a) d es"

lemma stats_fields:
  "list_all stat_ok es \<Longrightarrow> t \<le> 8 \<Longrightarrow> length stats = 48 \<Longrightarrow>
   stat_field t (foldl put_stat stats es) = last_stat t (stat_field t stats) es \<and> length (foldl put_stat stats es) = 48"
proof (induction es arbitrary: stats)
  case (Cons e es)
  obtain t' l v where e: "e = (t', l, v)" by (cases e)
  from Cons.prems have "stat_ok (t', l, v)" by (simp add: e)
  from put_stat_field [OF this Cons.prems(2,3)] Cons.IH [of "put_stat stats e"] Cons.prems(1,2)
  show ?case by (simp add: e last_stat_def)
qed (simp add: last_stat_def)

section \<open>Initiation messages\<close>

definition encode_tlv :: "nat \<times> bytes \<Rightarrow> bytes" where
  "encode_tlv e = (case e of (t, bs) \<Rightarrow> be_bytes 2 t @ be_bytes 2 (length bs) @ bs)"

lemma length_encode_tlv [simp]: "length (encode_tlv (t, bs)) = 4 + length bs"
  by (simp add: encode_tlv_def del: be_bytes_numeral)

lemma tlv_step:
  assumes "t < 65536" "0 < length bs" "length bs \<le> cap" "length bs < 65536" "i + length (encode_tlv (t, bs)) \<le> len"
  shows "tlv_loop cap h len i (encode_tlv (t, bs) @ rest) st =
    andThen (h t (length bs) (Some (bs @ replicate (cap - length bs) 0)) st) (\<lambda>st.
      tlv_loop cap h len (i + length (encode_tlv (t, bs))) rest st)"
proof -
  define hdr where "hdr = be_bytes 2 t @ be_bytes 2 (length bs)"
  define mem where "mem = encode_tlv (t, bs) @ rest"
  have len: "length hdr = 4" by (simp add: hdr_def del: be_bytes_numeral)
  have mem: "mem = hdr @ bs @ rest" by (simp add: mem_def encode_tlv_def hdr_def)
  have r: "rd 4 mem = Inr hdr" "drop 4 mem = bs @ rest" using len by (simp_all add: mem)
  have v: "le_val (SWAP_BYTES (take 2 hdr) 2) = t" "le_val (SWAP_BYTES (drop 2 hdr) 2) = length bs"
    using assms by (simp_all add: hdr_def be_val_be_bytes del: be_bytes_numeral)
  have "i < len" "min cap (length bs) = length bs" using assms by simp_all
  then have "tlv_loop cap h len i mem st = andThen (h t (length bs) (Some (bs @ replicate (cap - length bs) 0)) st) (\<lambda>st.
      tlv_loop cap h len (i + length bs + 4) rest st)"
    using assms(2)
    by (subst tlv_loop.simps, simp only: BMP_INFO_TLV_HDR_LEN_def r v if_True Let_def andThen_Inr rd_append refl) simp
  moreover have "i + length bs + 4 = i + length (encode_tlv (t, bs))" by simp
  ultimately show ?thesis by (simp only: mem_def)
qed

definition init_ok :: "nat \<times> bytes \<Rightarrow> bool" where
  "init_ok e = (case e of (t, bs) \<Rightarrow> t < 65536 \<and> 0 < length bs \<and>
     length bs \<le> (if t = INIT_TYPE_SYSNAME \<or> t = INIT_TYPE_SYSDESCR then 255 else 4096))"

definition router_ok :: "obj_router \<Rightarrow> bool" where
  "router_ok r \<longleftrightarrow> length (router_name r) = 255 \<and> length (router_descr r) = 255 \<and> length (initiate_data r) = 4096"

text \<open>A text as it is stored: up to its first zero byte, then zero bytes up to the length of the TLV.\<close>

definition stored_text :: "bytes \<Rightarrow> bytes" where
  "stored_text bs = (let t = takeWhile (\<lambda>b. b \<noteq> 0) bs in t @ replicate (length bs - length t) 0)"

definition init_add :: "obj_router \<Rightarrow> nat \<times> bytes \<Rightarrow> obj_router" where
  "init_add r e = (case e of (t, bs) \<Rightarrow>
     if t = INIT_TYPE_FREE_FORM_STRING then r\<lparr>initiate_data := poke 0 bs (initiate_data r)\<rparr>
     else if t = INIT_TYPE_SYSNAME
     then r\<lparr>router_name := poke 0 (stored_text bs) (router_name r), hash_type := (if hash_type r < 2 then 1 else hash_type r)\<rparr>
     else if t = INIT_TYPE_SYSDESCR then r\<lparr>router_descr := poke 0 (stored_text bs) (router_descr r)\<rparr>
     else if t = INIT_TYPE_ROUTER_BGP_ID \<and> length bs = 4 then r\<lparr>router_bgp_id := inet_ntop4 bs, hash_type := 2\<rparr>
     else r)"

lemma length_stored_text [simp]: "length (stored_text bs) = length bs"
  using length_takeWhile_le [of "\<lambda>b. b \<noteq> 0" bs] by (simp add: stored_text_def Let_def)

lemma take_text: "take (length bs) (takeWhile (\<lambda>b. b \<noteq> 0) (bs @ replicate k (0 :: u8))) = takeWhile (\<lambda>b. b \<noteq> 0) bs"
proof (cases "\<forall>b\<in>set bs. b \<noteq> 0")
  case True
  then show ?thesis by (simp add: takeWhile_append2 takeWhile_eq_all_conv [THEN iffD2])
next
  case False
  then show ?thesis using length_takeWhile_le [of "\<lambda>b. b \<noteq> 0" bs] by (auto simp: takeWhile_append1)
qed

lemma strncpy_info_run:
  "length bs \<le> length arr \<Longrightarrow> strncpy_info (length bs) (Some (bs @ replicate k 0)) arr = Inr (poke 0 (stored_text bs) arr)"
  by (simp add: strncpy_info_def take_text stored_text_def Let_def)

lemma init_info_run:
  assumes "init_ok (t, bs)" "router_ok r"
  shows "init_info t (length bs) (Some (bs @ replicate (4096 - length bs) 0)) r = Inr (init_add r (t, bs))"
proof -
  have n: "info_len 255 (length bs) = length bs" if "t = INIT_TYPE_SYSNAME \<or> t = INIT_TYPE_SYSDESCR"
    using assms(1) that by (auto simp: init_ok_def info_len_def)
  have f: "info_len 4096 (length bs) = length bs" "length bs \<noteq> 0"
    using assms(1) by (auto simp: init_ok_def info_len_def split: if_splits)
  have le: "length bs \<le> 4096" "t = INIT_TYPE_SYSNAME \<or> t = INIT_TYPE_SYSDESCR \<Longrightarrow> length bs \<le> 255"
    using assms(1) by (auto simp: init_ok_def split: if_splits)
  consider "t = INIT_TYPE_FREE_FORM_STRING" | "t = INIT_TYPE_SYSNAME" | "t = INIT_TYPE_SYSDESCR" | "t = INIT_TYPE_ROUTER_BGP_ID"
    | "t \<notin> {INIT_TYPE_FREE_FORM_STRING, INIT_TYPE_SYSNAME, INIT_TYPE_SYSDESCR, INIT_TYPE_ROUTER_BGP_ID}" by blast
  then show ?thesis
    using assms(2) n f le
    by cases (simp_all add: init_info_def init_add_def router_ok_def strncpy_info_run copy_info_def init_types)
qed

lemma init_add_ok: "init_ok e \<Longrightarrow> router_ok r \<Longrightarrow> router_ok (init_add r e)"
  by (cases e) (auto simp: router_ok_def init_add_def init_ok_def)

interpretation init_stream: state_stream router_ok init_ok encode_tlv init_add "tlv_loop 4096 init_info"
proof
  show "tlv_loop 4096 init_info len len d acc = Inr acc" for len d acc
    by (subst tlv_loop.simps) simp
next
  fix acc e r len rest
  assume "router_ok acc" "init_ok e" "r + length (encode_tlv e) \<le> len"
  moreover obtain t bs where e: "e = (t, bs)" by (cases e)
  moreover from calculation have "length bs \<le> 4096" "t < 65536" "0 < length bs"
    by (auto simp: init_ok_def split: if_splits)
  ultimately show "tlv_loop 4096 init_info len r (encode_tlv e @ rest) acc =
      tlv_loop 4096 init_info len (r + length (encode_tlv e)) rest (init_add acc e)"
    by (simp add: tlv_step init_info_run del: length_encode_tlv)
qed (rule init_add_ok)

lemma buffer_run:
  assumes "sock_in s = body @ rest" "bmp_len s = of_nat (length body)" "length body \<le> 65535" "bmp_data s = []"
  shows "\<exists>s'. bufferBMPMessage s = Inr s' \<and> sock_in s' = rest \<and> bmp_data s' = body \<and> bmp_len s' = 0 \<and>
    peer_entry s' = peer_entry s \<and> sock_err s' = sock_err s \<and> bmp_type s' = bmp_type s \<and>
    (length (bmp_packet s) + length body < 68000 \<longrightarrow> bmp_packet s' = bmp_packet s @ body)"
proof (cases "body = []")
  case True
  with assms show ?thesis by (intro exI [of _ s]) (simp add: buffer_iff)
next
  case False
  have n: "unat (bmp_len s) = length body" using assms(2,3) by (simp add: unat_of_nat)
  with False have "bmp_len s \<noteq> 0" by auto
  with n assms show ?thesis
    by (intro exI [of _ "(taken (length body) s)\<lparr>bmp_data := body, bmp_len := 0\<rparr>"])
      (simp add: buffer_iff word_le_nat_alt taken_packet)
qed

lemma handleInitMsg_run:
  assumes "sock_in s = concat (map encode_tlv es) @ rest" "bmp_len s = of_nat (length (concat (map encode_tlv es)))"
    "length (concat (map encode_tlv es)) \<le> 65535" "bmp_data s = []" "list_all init_ok es" "router_ok r"
  shows "\<exists>s'. handleInitMsg r s = Inr (foldl init_add (r\<lparr>hash_type := 0\<rparr>) es, s') \<and> sock_in s' = rest \<and>
    sock_err s' = sock_err s \<and> peer_entry s' = peer_entry s"
proof -
  obtain s' where s': "bufferBMPMessage s = Inr s'" "sock_in s' = rest" "bmp_data s' = concat (map encode_tlv es)"
    "peer_entry s' = peer_entry s" "sock_err s' = sock_err s"
    using buffer_run [OF assms(1-4)] by blast
  have "router_ok (r\<lparr>hash_type := 0\<rparr>)" using assms(6) by (simp add: router_ok_def)
  from init_stream.run_0 [OF this assms(5)] s' show ?thesis
    by (simp add: handleInitMsg_def bmp_buf_def)
qed

lemma init_add_other:
  "t \<noteq> INIT_TYPE_SYSNAME \<Longrightarrow> router_name (init_add r (t, bs)) = router_name r"
  "t \<noteq> INIT_TYPE_SYSDESCR \<Longrightarrow> router_descr (init_add r (t, bs)) = router_descr r"
  "t \<noteq> INIT_TYPE_ROUTER_BGP_ID \<Longrightarrow> router_bgp_id (init_add r (t, bs)) = router_bgp_id r"
  by (simp_all add: init_add_def init_types)

lemma init_fold_other:
  "INIT_TYPE_SYSNAME \<notin> fst ` set es \<Longrightarrow> router_name (foldl init_add r es) = router_name r"
  "INIT_TYPE_SYSDESCR \<notin> fst ` set es \<Longrightarrow> router_descr (foldl init_add r es) = router_descr r"
  "INIT_TYPE_ROUTER_BGP_ID \<notin> fst ` set es \<Longrightarrow> router_bgp_id (foldl init_add r es) = router_bgp_id r"
  by (induction es arbitrary: r) (auto simp: init_add_other)

lemma init_hash_type:
  "hash_type (foldl init_add r es) =
     (if \<exists>bs. (INIT_TYPE_ROUTER_BGP_ID, bs) \<in> set es \<and> length bs = 4 then 2
      else if INIT_TYPE_SYSNAME \<in> fst ` set es \<and> hash_type r < 2 then 1 else hash_type r)"
proof (induction es arbitrary: r)
  case (Cons e es)
  obtain t bs where e: "e = (t, bs)" by (cases e)
  have "hash_type (init_add r e) =
      (if t = INIT_TYPE_ROUTER_BGP_ID \<and> length bs = 4 then 2 else if t = INIT_TYPE_SYSNAME \<and> hash_type r < 2 then 1 else hash_type r)"
    by (auto simp: e init_add_def init_types)
  then show ?case by (auto simp: Cons.IH e init_types)
qed simp

lemma split_unique:
  assumes "distinct (map fst es)" "(t, bs) \<in> set es"
  obtains xs ys where "es = xs @ (t, bs) # ys" "t \<notin> fst ` set xs" "t \<notin> fst ` set ys"
  using split_list [OF assms(2)] assms(1) by fastforce

lemma init_fold_fields:
  assumes "distinct (map fst es)" "(t, bs) \<in> set es"
  shows "t = INIT_TYPE_SYSNAME \<Longrightarrow> router_name (foldl init_add r es) = poke 0 (stored_text bs) (router_name r)"
    "t = INIT_TYPE_SYSDESCR \<Longrightarrow> router_descr (foldl init_add r es) = poke 0 (stored_text bs) (router_descr r)"
    "t = INIT_TYPE_ROUTER_BGP_ID \<Longrightarrow> length bs = 4 \<Longrightarrow> router_bgp_id (foldl init_add r es) = inet_ntop4 bs"
proof -
  obtain xs ys where es: "es = xs @ (t, bs) # ys" "t \<notin> fst ` set xs" "t \<notin> fst ` set ys"
    using split_unique [OF assms] .
  show "t = INIT_TYPE_SYSNAME \<Longrightarrow> router_name (foldl init_add r es) = poke 0 (stored_text bs) (router_name r)"
    "t = INIT_TYPE_SYSDESCR \<Longrightarrow> router_descr (foldl init_add r es) = poke 0 (stored_text bs) (router_descr r)"
    "t = INIT_TYPE_ROUTER_BGP_ID \<Longrightarrow> length bs = 4 \<Longrightarrow> router_bgp_id (foldl init_add r es) = inet_ntop4 bs"
    using es(2,3) by (simp_all add: es(1) init_fold_other) (simp_all add: init_add_def init_types init_fold_other)
qed

section \<open>Properties\<close>

text \<open>
  C26. Every entry the parser fills in is well formed, whatever arrives on the socket: the address, the route
  distinguisher and the identifier of the peer are terminated inside their arrays, so that they can be read
  as C strings.
\<close>

theorem peer_entry_typed:
  assumes "\<forall>a. length (f6 a) < 46" "handleMessage f6 now (new_parseBMP inp err) = Inr s"
  shows "peer_wf (peer_entry s)"
  using handleMessage_peer_wf [OF assms(1) _ assms(2)] zero_peer_wf by (simp add: new_parseBMP_def)

definition sample_peer_hdr :: bytes where
  "sample_peer_hdr = [0, 0x10] @ replicate 8 0 @ replicate 12 0 @ [192, 0, 2, 1] @ [0, 0, 0xFD, 0xE9] @ [10, 0, 0, 1] @
     [0, 0, 0, 1] @ [0, 0, 0, 0]"

theorem peer_entry_typed_witness:
  "\<exists>s. handleMessage (\<lambda>_. ''::'') (0, 0) (new_parseBMP ([3, 0, 0, 0, 48, 0] @ sample_peer_hdr) False) = Inr s \<and>
     peer_addr (peer_entry s) = ''192.0.2.1'' \<and> peer_as (peer_entry s) = 65001 \<and> peer_wf (peer_entry s)"
proof -
  let ?s = "new_parseBMP ([3, 0, 0, 0, 48, 0] @ sample_peer_hdr) False"
  have mem: "sock_in ?s = [3] @ be_bytes 4 48 @ [0] @ sample_peer_hdr @ []" "length sample_peer_hdr = 42"
    by (simp_all add: new_parseBMP_def sample_peer_hdr_def)
  obtain s where s: "handleMessage (\<lambda>_. ''::'') (0, 0) ?s = Inr s"
    "peer_entry s = peer_of_hdr (\<lambda>_. ''::'') (0, 0) sample_peer_hdr zero_peer"
    using handleMessage_run [OF mem, of "\<lambda>_. ''::''" "(0, 0)"] by (auto simp: new_parseBMP_def)
  have "peer_addr (peer_entry s) = ''192.0.2.1''"
    by (simp add: s(2) peer_of_hdr_def sample_peer_hdr_def parsePeerFlags_def sub_bytes_def addr_text_def inet_ntop4_def
        dec_of_nat.simps strncpy_def snprintf_def c_str_def Let_def)
  moreover have "peer_as (peer_entry s) = 65001"
    by (simp add: s(2) peer_of_hdr_def sample_peer_hdr_def set_timestamp_def sub_bytes_def strtoll16_as_text be_val_def Let_def)
  ultimately show ?thesis using peer_entry_typed [OF _ s(1)] s(1) by simp
qed

text \<open>
  The counters of a statistics report: when every counter has the width of its field, each field of the
  report holds the last value sent for its type, zero if there was none, and the report is read to its end.
\<close>

theorem stats_counters:
  assumes "list_all stat_ok es" "length es < 2 ^ 32" "t \<le> 8"
    "sock_in s = be_bytes 4 (length es) @ concat (map encode_stat es) @ rest"
  shows "\<exists>stats s'. handleStatsReport new_stats s = Inr (stats, s') \<and> sock_in s' = rest \<and>
    stat_field t stats = last_stat t 0 es"
proof -
  have "stat_field t new_stats = 0"
  proof -
    have "le_val (replicate n 0) = 0" for n by (induction n) simp_all
    moreover have "sub_bytes a b new_stats = replicate (min b (48 - a)) 0" for a b
      by (simp add: sub_bytes_def new_stats_def min_def)
    ultimately show ?thesis by (simp add: stat_field_def)
  qed
  moreover have "length new_stats = 48" by (simp add: new_stats_def)
  ultimately show ?thesis
    using handleStatsReport_run [OF assms(1,2,4), of new_stats] stats_fields [OF assms(1,3), of new_stats] by auto
qed

theorem stats_counters_example:
  "\<exists>stats s'. handleStatsReport new_stats
      (new_parseBMP (be_bytes 4 (length [(0, 4, 17), (7, 8, 2 ^ 40)]) @ concat (map encode_stat [(0, 4, 17), (7, 8, 2 ^ 40)]) @ [9]) False) = Inr (stats, s') \<and>
     sock_in s' = [9] \<and> stat_field 7 stats = 2 ^ 40"
proof -
  have "list_all stat_ok [(0, 4, 17), (7, 8, 2 ^ 40)]" by (simp add: stat_ok_def stat_width_def)
  from stats_counters [OF this, of 7 "new_parseBMP (be_bytes 4 (length [(0, 4, 17), (7, 8, 2 ^ 40)]) @ concat (map encode_stat [(0, 4, 17), (7, 8, 2 ^ 40)]) @ [9]) False" "[9]"]
  show ?thesis by (simp add: new_parseBMP_def last_stat_def del: be_bytes_numeral)
qed

text \<open>
  C27. An initiation message with one TLV of each type fills the router entry: name and description hold
  the texts that were sent, padded with zero bytes, the identifier is printed, and the hash type says
  whether the identifier, the name or only the address identifies the router.
\<close>

theorem init_roundtrip:
  assumes "sock_in s = concat (map encode_tlv es) @ rest" "bmp_len s = of_nat (length (concat (map encode_tlv es)))"
    "length (concat (map encode_tlv es)) \<le> 65535" "bmp_data s = []" "list_all init_ok es" "distinct (map fst es)"
  shows "\<exists>r s'. handleInitMsg zero_router s = Inr (r, s') \<and> sock_in s' = rest \<and>
    (\<forall>bs. (INIT_TYPE_SYSNAME, bs) \<in> set es \<longrightarrow> router_name r = stored_text bs @ replicate (255 - length bs) 0) \<and>
    (\<forall>bs. (INIT_TYPE_SYSDESCR, bs) \<in> set es \<longrightarrow> router_descr r = stored_text bs @ replicate (255 - length bs) 0) \<and>
    (\<forall>bs. (INIT_TYPE_ROUTER_BGP_ID, bs) \<in> set es \<and> length bs = 4 \<longrightarrow> router_bgp_id r = inet_ntop4 bs \<and> hash_type r = 2) \<and>
    (INIT_TYPE_ROUTER_BGP_ID \<notin> fst ` set es \<longrightarrow> hash_type r = (if INIT_TYPE_SYSNAME \<in> fst ` set es then 1 else 0))"
proof -
  have ok: "router_ok zero_router" by (simp add: router_ok_def zero_router_def)
  have z: "zero_router\<lparr>hash_type := 0\<rparr> = zero_router" by (simp add: zero_router_def)
  obtain s' where s': "handleInitMsg zero_router s = Inr (foldl init_add zero_router es, s')" "sock_in s' = rest"
    using handleInitMsg_run [OF assms(1-5) ok] unfolding z by blast
  have p: "poke 0 (stored_text bs) (replicate 255 0) = stored_text bs @ replicate (255 - length bs) 0" for bs
    by (simp add: poke_def)
  have f: "router_name zero_router = replicate 255 0" "router_descr zero_router = replicate 255 0" "hash_type zero_router = 0"
    by (simp_all add: zero_router_def)
  note fields = init_fold_fields [OF assms(6), where r = zero_router, unfolded f p, OF _ refl]
  have mem: "(t, bs) \<in> set es \<Longrightarrow> t \<in> fst ` set es" for t bs by (rule image_eqI [of _ _ "(t, bs)"]) simp_all
  show ?thesis
    using s' fields init_hash_type [of zero_router es] f(3)
    by (intro exI [of _ "foldl init_add zero_router es"] exI [of _ s']) (auto dest: mem)
qed

theorem init_roundtrip_witness:
  "\<exists>r s'. handleInitMsg zero_router ((new_parseBMP (encode_tlv (2, [114, 49]) @ encode_tlv (65531, [10, 0, 0, 1]) @ [7]) False)
      \<lparr>bmp_len := 14\<rparr>) = Inr (r, s') \<and> sock_in s' = [7] \<and> router_name r = stored_text [114, 49] @ replicate 253 0 \<and>
      router_bgp_id r = inet_ntop4 [10, 0, 0, 1] \<and> hash_type r = 2"
proof -
  let ?es = "[(2 :: nat, [114, 49 :: u8]), (65531, [10, 0, 0, 1])]"
  have "list_all init_ok ?es" "distinct (map fst ?es)" by (simp_all add: init_ok_def init_types)
  with init_roundtrip [of "(new_parseBMP (encode_tlv (2, [114, 49]) @ encode_tlv (65531, [10, 0, 0, 1]) @ [7]) False)\<lparr>bmp_len := 14\<rparr>"
      ?es "[7]"]
  show ?thesis by (auto simp: new_parseBMP_def init_types)
qed

text \<open>
  The length check of an initiation TLV is off by one: a router name of 256 bytes is not cut and is copied
  past the end of its array of 255 bytes.
\<close>

theorem init_name_overflow:
  assumes "length bs = 256" "sock_in s = encode_tlv (INIT_TYPE_SYSNAME, bs) @ rest" "bmp_len s = 260" "bmp_data s = []"
  shows "handleInitMsg zero_router s = Inl BufferOverflow"
proof -
  have len: "length (encode_tlv (INIT_TYPE_SYSNAME, bs)) = 260" using assms(1) by simp
  then obtain s' where s': "bufferBMPMessage s = Inr s'" "bmp_data s' = encode_tlv (INIT_TYPE_SYSNAME, bs)"
    using buffer_run [OF assms(2) _ _ assms(4)] assms(3) by auto
  have "init_info INIT_TYPE_SYSNAME 256 (Some (bs @ replicate (4096 - length bs) 0)) r = Inl BufferOverflow"
    if "length (router_name r) = 255" for r
    using that by (simp add: init_info_def init_types info_len_def strncpy_info_def Let_def)
  with tlv_step [of INIT_TYPE_SYSNAME bs 4096 0 260 init_info] s' assms(1) len show ?thesis
    by (simp add: handleInitMsg_def bmp_buf_def init_types zero_router_def)
qed

theorem init_name_overflow_example:
  "handleInitMsg zero_router ((new_parseBMP (encode_tlv (INIT_TYPE_SYSNAME, replicate 256 65) @ []) False)\<lparr>bmp_len := 260\<rparr>) =
     Inl BufferOverflow"
  by (rule init_name_overflow [of "replicate 256 65" _ "[]"]) (simp_all add: new_parseBMP_def)

end
