(* ===== verification/Md5.thy ===== *)
theory Md5
  imports BmpPrelude
begin

text \<open>
  \<open>md5.cpp\<close>: the incremental MD5 digest with which the collector computes the hash identifiers of
  routers, peers, attributes and prefixes. The class is a record; \<open>update\<close> buffers a partial block
  between calls and transforms whole blocks directly from the input. The reference is the padding
  and block chaining of RFC 1321, so that the buffering, the bit count on two 32-bit words and the
  padding are shown to be right for any way the input is split into calls.

  An input of one call is shorter than \<open>2 ^ 32 - 63\<close> bytes, so that the index of the block loop, a
  32-bit word in the source, is modelled as a natural number.
\<close>

section \<open>The block transform\<close>

type_synonym md5_state = "u32 \<times> u32 \<times> u32 \<times> u32"

definition rotate_left :: "u32 \<Rightarrow> nat \<Rightarrow> u32" where
  "rotate_left x n = (push_bit n x) OR (drop_bit (32 - n) x)"

definition F :: "u32 \<Rightarrow> u32 \<Rightarrow> u32 \<Rightarrow> u32" where "F x y z = (x AND y) OR (NOT x AND z)"
definition G :: "u32 \<Rightarrow> u32 \<Rightarrow> u32 \<Rightarrow> u32" where "G x y z = (x AND z) OR (y AND NOT z)"
definition H :: "u32 \<Rightarrow> u32 \<Rightarrow> u32 \<Rightarrow> u32" where "H x y z = x XOR y XOR z"
definition I :: "u32 \<Rightarrow> u32 \<Rightarrow> u32 \<Rightarrow> u32" where "I x y z = y XOR (x OR NOT z)"

definition FF :: "u32 \<Rightarrow> u32 \<Rightarrow> u32 \<Rightarrow> u32 \<Rightarrow> u32 \<Rightarrow> nat \<Rightarrow> u32 \<Rightarrow> u32" where
  "FF a b c d x s ac = rotate_left (a + (F b c d + x + ac)) s + b"
definition GG :: "u32 \<Rightarrow> u32 \<Rightarrow> u32 \<Rightarrow> u32 \<Rightarrow> u32 \<Rightarrow> nat \<Rightarrow> u32 \<Rightarrow> u32" where
  "GG a b c d x s ac = rotate_left (a + (G b c d + x + ac)) s + b"
definition HH :: "u32 \<Rightarrow> u32 \<Rightarrow> u32 \<Rightarrow> u32 \<Rightarrow> u32 \<Rightarrow> nat \<Rightarrow> u32 \<Rightarrow> u32" where
  "HH a b c d x s ac = rotate_left (a + (H b c d + x + ac)) s + b"
definition II :: "u32 \<Rightarrow> u32 \<Rightarrow> u32 \<Rightarrow> u32 \<Rightarrow> u32 \<Rightarrow> nat \<Rightarrow> u32 \<Rightarrow> u32" where
  "II a b c d x s ac = rotate_left (a + (I b c d + x + ac)) s + b"

definition S11 :: nat where "S11 = 7"
definition S12 :: nat where "S12 = 12"
definition S13 :: nat where "S13 = 17"
definition S14 :: nat where "S14 = 22"
definition S21 :: nat where "S21 = 5"
definition S22 :: nat where "S22 = 9"
definition S23 :: nat where "S23 = 14"
definition S24 :: nat where "S24 = 20"
definition S31 :: nat where "S31 = 4"
definition S32 :: nat where "S32 = 11"
definition S33 :: nat where "S33 = 16"
definition S34 :: nat where "S34 = 23"
definition S41 :: nat where "S41 = 6"
definition S42 :: nat where "S42 = 10"
definition S43 :: nat where "S43 = 15"
definition S44 :: nat where "S44 = 21"

fun decode :: "bytes \<Rightarrow> u32 list" where
  "decode (b0 # b1 # b2 # b3 # bs) =
     (ucast b0 OR push_bit 8 (ucast b1) OR push_bit 16 (ucast b2) OR push_bit 24 (ucast b3)) # decode bs"
| "decode _ = []"

definition encode_word :: "u32 \<Rightarrow> bytes" where
  "encode_word w = [ucast (w AND 0xff), ucast (drop_bit 8 w AND 0xff),
     ucast (drop_bit 16 w AND 0xff), ucast (drop_bit 24 w AND 0xff)]"

definition encode :: "u32 list \<Rightarrow> bytes" where
  "encode ws = concat (map encode_word ws)"

definition round1 :: "u32 list \<Rightarrow> u32 \<Rightarrow> u32 \<Rightarrow> u32 \<Rightarrow> u32 \<Rightarrow> md5_state" where
  "round1 x a b c d = (let
      a = FF a b c d (x ! 0) S11 0xd76aa478;
      d = FF d a b c (x ! 1) S12 0xe8c7b756;
      c = FF c d a b (x ! 2) S13 0x242070db;
      b = FF b c d a (x ! 3) S14 0xc1bdceee;
      a = FF a b c d (x ! 4) S11 0xf57c0faf;
      d = FF d a b c (x ! 5) S12 0x4787c62a;
      c = FF c d a b (x ! 6) S13 0xa8304613;
      b = FF b c d a (x ! 7) S14 0xfd469501;
      a = FF a b c d (x ! 8) S11 0x698098d8;
      d = FF d a b c (x ! 9) S12 0x8b44f7af;
      c = FF c d a b (x ! 10) S13 0xffff5bb1;
      b = FF b c d a (x ! 11) S14 0x895cd7be;
      a = FF a b c d (x ! 12) S11 0x6b901122;
      d = FF d a b c (x ! 13) S12 0xfd987193;
      c = FF c d a b (x ! 14) S13 0xa679438e;
      b = FF b c d a (x ! 15) S14 0x49b40821
     in (a, b, c, d))"

definition round2 :: "u32 list \<Rightarrow> u32 \<Rightarrow> u32 \<Rightarrow> u32 \<Rightarrow> u32 \<Rightarrow> md5_state" where
  "round2 x a b c d = (let
      a = GG a b c d (x ! 1) S21 0xf61e2562;
      d = GG d a b c (x ! 6) S22 0xc040b340;
      c = GG c d a b (x ! 11) S23 0x265e5a51;
      b = GG b c d a (x ! 0) S24 0xe9b6c7aa;
      a = GG a b c d (x ! 5) S21 0xd62f105d;
      d = GG d a b c (x ! 10) S22 0x2441453;
      c = GG c d a b (x ! 15) S23 0xd8a1e681;
      b = GG b c d a (x ! 4) S24 0xe7d3fbc8;
      a = GG a b c d (x ! 9) S21 0x21e1cde6;
      d = GG d a b c (x ! 14) S22 0xc33707d6;
      c = GG c d a b (x ! 3) S23 0xf4d50d87;
      b = GG b c d a (x ! 8) S24 0x455a14ed;
      a = GG a b c d (x ! 13) S21 0xa9e3e905;
      d = GG d a b c (x ! 2) S22 0xfcefa3f8;
      c = GG c d a b (x ! 7) S23 0x676f02d9;
      b = GG b c d a (x ! 12) S24 0x8d2a4c8a
     in (a, b, c, d))"

definition round3 :: "u32 list \<Rightarrow> u32 \<Rightarrow> u32 \<Rightarrow> u32 \<Rightarrow> u32 \<Rightarrow> md5_state" where
  "round3 x a b c d = (let
      a = HH a b c d (x ! 5) S31 0xfffa3942;
      d = HH d a b c (x ! 8) S32 0x8771f681;
      c = HH c d a b (x ! 11) S33 0x6d9d6122;
      b = HH b c d a (x ! 14) S34 0xfde5380c;
      a = HH a b c d (x ! 1) S31 0xa4beea44;
      d = HH d a b c (x ! 4) S32 0x4bdecfa9;
      c = HH c d a b (x ! 7) S33 0xf6bb4b60;
      b = HH b c d a (x ! 10) S34 0xbebfbc70;
      a = HH a b c d (x ! 13) S31 0x289b7ec6;
      d = HH d a b c (x ! 0) S32 0xeaa127fa;
      c = HH c d a b (x ! 3) S33 0xd4ef3085;
      b = HH b c d a (x ! 6) S34 0x4881d05;
      a = HH a b c d (x ! 9) S31 0xd9d4d039;
      d = HH d a b c (x ! 12) S32 0xe6db99e5;
      c = HH c d a b (x ! 15) S33 0x1fa27cf8;
      b = HH b c d a (x ! 2) S34 0xc4ac5665
     in (a, b, c, d))"

definition round4 :: "u32 list \<Rightarrow> u32 \<Rightarrow> u32 \<Rightarrow> u32 \<Rightarrow> u32 \<Rightarrow> md5_state" where
  "round4 x a b c d = (let
      a = II a b c d (x ! 0) S41 0xf4292244;
      d = II d a b c (x ! 7) S42 0x432aff97;
      c = II c d a b (x ! 14) S43 0xab9423a7;
      b = II b c d a (x ! 5) S44 0xfc93a039;
      a = II a b c d (x ! 12) S41 0x655b59c3;
      d = II d a b c (x ! 3) S42 0x8f0ccc92;
      c = II c d a b (x ! 10) S43 0xffeff47d;
      b = II b c d a (x ! 1) S44 0x85845dd1;
      a = II a b c d (x ! 8) S41 0x6fa87e4f;
      d = II d a b c (x ! 15) S42 0xfe2ce6e0;
      c = II c d a b (x ! 6) S43 0xa3014314;
      b = II b c d a (x ! 13) S44 0x4e0811a1;
      a = II a b c d (x ! 4) S41 0xf7537e82;
      d = II d a b c (x ! 11) S42 0xbd3af235;
      c = II c d a b (x ! 2) S43 0x2ad7d2bb;
      b = II b c d a (x ! 9) S44 0xeb86d391
     in (a, b, c, d))"

definition transform :: "bytes \<Rightarrow> md5_state \<Rightarrow> md5_state" where
  "transform block st =
     (let x = decode block in
      case st of (s0, s1, s2, s3) \<Rightarrow>
      case round1 x s0 s1 s2 s3 of (a, b, c, d) \<Rightarrow>
      case round2 x a b c d of (a, b, c, d) \<Rightarrow>
      case round3 x a b c d of (a, b, c, d) \<Rightarrow>
      case round4 x a b c d of (a, b, c, d) \<Rightarrow>
        (s0 + a, s1 + b, s2 + c, s3 + d))"

section \<open>The class\<close>

record MD5 =
  state :: md5_state
  count0 :: u32
  count1 :: u32
  buffer :: bytes
  digest :: bytes
  finalized :: bool

definition md5_iv :: md5_state where
  "md5_iv = (0x67452301, 0xefcdab89, 0x98badcfe, 0x10325476)"

definition init :: "MD5 \<Rightarrow> MD5" where
  "init m = m\<lparr>finalized := False, count0 := 0, count1 := 0, state := md5_iv\<rparr>"

definition memcpy :: "bytes \<Rightarrow> nat \<Rightarrow> bytes \<Rightarrow> bytes" where
  "memcpy output p input = take p output @ input @ drop (p + length input) output"

function transform_from :: "bytes \<Rightarrow> nat \<Rightarrow> md5_state \<Rightarrow> nat \<times> md5_state" where
  "transform_from input input_index st =
     (if input_index + 63 < length input
      then transform_from input (input_index + 64) (transform (take 64 (drop input_index input)) st)
      else (input_index, st))"
  by pat_completeness auto
termination by (relation "measure (\<lambda>(input, i, _). length input - i)") auto

declare transform_from.simps [simp del]

definition update :: "bytes \<Rightarrow> MD5 \<Rightarrow> MD5" where
  "update input m =
     (if finalized m then m
      else
        let input_length = (of_nat (length input) :: u32);
            buffer_index = unat (drop_bit 3 (count0 m) AND 0x3F);
            c0 = count0 m + push_bit 3 input_length;
            c1 = (if c0 < push_bit 3 input_length then count1 m + 1 else count1 m) + drop_bit 29 input_length;
            buffer_space = 64 - buffer_index
        in if length input \<ge> buffer_space
           then let buf = memcpy (buffer m) buffer_index (take buffer_space input);
                    (input_index, st) = transform_from input buffer_space (transform buf (state m))
                in m\<lparr>count0 := c0, count1 := c1, state := st, buffer := memcpy buf 0 (drop input_index input)\<rparr>
           else m\<lparr>count0 := c0, count1 := c1, buffer := memcpy (buffer m) buffer_index input\<rparr>)"

definition PADDING :: bytes where
  "PADDING = 0x80 # replicate 63 0"

definition state_words :: "md5_state \<Rightarrow> u32 list" where
  "state_words st = (case st of (a, b, c, d) \<Rightarrow> [a, b, c, d])"

definition finalize :: "MD5 \<Rightarrow> MD5" where
  "finalize m =
     (if finalized m then m
      else
        let bits = encode [count0 m, count1 m];
            index = unat (drop_bit 3 (count0 m) AND 0x3F);
            padLen = (if index < 56 then 56 - index else 120 - index);
            m = update (take padLen PADDING) m;
            m = update bits m
        in m\<lparr>digest := encode (state_words (state m)), buffer := memcpy (buffer m) 0 [0], finalized := True\<rparr>)"

text \<open>
  Reading a file in pieces of 1024 bytes: \<open>fread\<close> until it returns zero, and \<open>istream::read\<close> while the
  stream is good, which ends with the first short (possibly empty) piece.
\<close>

function update_file :: "bytes \<Rightarrow> MD5 \<Rightarrow> MD5" where
  "update_file content m =
     (if take 1024 content = [] then m else update_file (drop 1024 content) (update (take 1024 content) m))"
  by pat_completeness auto
termination by (relation "measure (\<lambda>(content, _). length content)") auto

function update_istream :: "bytes \<Rightarrow> MD5 \<Rightarrow> MD5" where
  "update_istream stream m =
     (let m = update (take 1024 stream) m
      in if length stream < 1024 then m else update_istream (drop 1024 stream) m)"
  by pat_completeness auto
termination by (relation "measure (\<lambda>(stream, _). length stream)") auto

declare update_file.simps [simp del] update_istream.simps [simp del]

definition MD5_of_file :: "bytes \<Rightarrow> MD5 \<Rightarrow> MD5" where
  "MD5_of_file content m = finalize (update_file content (init m))"

definition MD5_of_istream :: "bytes \<Rightarrow> MD5 \<Rightarrow> MD5" where
  "MD5_of_istream stream m = finalize (update_istream stream (init m))"

definition raw_digest :: "MD5 \<Rightarrow> bytes" where
  "raw_digest m = (if \<not> finalized m then [] else take 16 (digest m))"

definition hex_digest :: "MD5 \<Rightarrow> string" where
  "hex_digest m = (if \<not> finalized m then [] else concat (map hex2 (take 16 (digest m))))"

section \<open>Reference\<close>

function absorb :: "md5_state \<Rightarrow> bytes \<Rightarrow> md5_state \<times> bytes" where
  "absorb st msg = (if 64 \<le> length msg then absorb (transform (take 64 msg) st) (drop 64 msg) else (st, msg))"
  by pat_completeness auto
termination by (relation "measure (\<lambda>(_, msg). length msg)") auto

declare absorb.simps [simp del]

definition md5_pad :: "bytes \<Rightarrow> bytes" where
  "md5_pad msg = msg @ 0x80 # replicate (nat ((55 - int (length msg)) mod 64)) 0 @
     rev (be_bytes 8 (8 * length msg mod 2 ^ 64))"

definition md5_spec :: "bytes \<Rightarrow> bytes" where
  "md5_spec msg = encode (state_words (fst (absorb md5_iv (md5_pad msg))))"

definition abc_x :: "u32 list" where
  "abc_x = [0x80636261, 0, 0, 0, 0, 0, 0, 0, 0, 0, 0, 0, 0, 0, 24, 0]"

definition md5_new :: MD5 where
  "md5_new = init \<lparr>state = (0, 0, 0, 0), count0 = 0, count1 = 0, buffer = replicate 64 0, digest = replicate 16 0,
     finalized = False\<rparr>"

section \<open>Absorbing blocks\<close>

lemma absorb_short: "length msg < 64 \<Longrightarrow> absorb st msg = (st, msg)"
  by (subst absorb.simps) simp

lemma absorb_block: "length b = 64 \<Longrightarrow> absorb st (b @ msg) = absorb (transform b st) msg"
  by (subst absorb.simps) simp

lemma absorb_append: "absorb st (xs @ ys) = (case absorb st xs of (st', r) \<Rightarrow> absorb st' (r @ ys))"
proof (induction st xs rule: absorb.induct)
  case (1 st xs)
  show ?case
  proof (cases "64 \<le> length xs")
    case True
    have "absorb st (xs @ ys) = absorb (transform (take 64 xs) st) (drop 64 xs @ ys)"
      using True absorb_block [of "take 64 xs" st "drop 64 xs @ ys"]
      by (simp add: append_assoc [symmetric] del: append_assoc)
    with 1 True show ?thesis by (simp add: absorb.simps [of st xs])
  qed (simp add: absorb_short)
qed

lemma absorb_rest: "absorb st msg = (st', r) \<Longrightarrow> length r = length msg mod 64"
proof (induction st msg rule: absorb.induct)
  case (1 st msg)
  then show ?case
    by (cases "64 \<le> length msg") (auto simp: absorb.simps [of st msg] le_mod_geq)
qed

lemma transform_from_absorb:
  "transform_from input i st = (j, st') \<Longrightarrow> i \<le> length input \<Longrightarrow>
   absorb st (drop i input) = (st', drop j input) \<and> length (drop j input) < 64"
proof (induction input i st rule: transform_from.induct)
  case (1 input i st)
  show ?case
  proof (cases "i + 63 < length input")
    case True
    then have "64 \<le> length (drop i input)" by simp
    with 1 True show ?thesis
      by (simp add: transform_from.simps [of input i] absorb.simps [of st "drop i input"] add.commute)
  next
    case False
    with 1 show ?thesis
      by (auto simp: transform_from.simps [of input i] absorb_short)
  qed
qed

section \<open>The bit count\<close>

definition bit_count :: "MD5 \<Rightarrow> nat" where
  "bit_count m = unat (count0 m) + 2 ^ 32 * unat (count1 m)"

lemma count_step_nat:
  fixes c0 c1 a b M :: nat
  assumes "c0 < M" "a < M"
  shows "(c0 + a) mod M + M * ((c1 + (if (c0 + a) mod M < a then 1 else 0) + b) mod M) =
         (c0 + M * c1 + (a + M * b)) mod (M * M)"
proof -
  have carry: "(c0 + a) div M = (if (c0 + a) mod M < a then 1 else 0)"
  proof (cases "c0 + a < M")
    case False
    with assms have "(c0 + a) mod M = c0 + a - M" "(c0 + a) div M = 1"
      by (simp_all add: le_mod_geq le_div_geq)
    with assms False show ?thesis by simp
  qed simp
  have sum: "c0 + M * c1 + (a + M * b) = c0 + a + M * (c1 + b)" by (simp add: algebra_simps)
  have "(c0 + a + M * (c1 + b)) div M = (if (c0 + a) mod M < a then 1 else 0) + (c1 + b)"
    using assms carry by simp
  moreover have "(c0 + a + M * (c1 + b)) mod M = (c0 + a) mod M" by simp
  ultimately show ?thesis
    unfolding sum mod_mult2_eq [of _ M M] by (simp only: ac_simps)
qed

lemma count_step:
  fixes c0 c1 :: u32
  assumes "n < 2 ^ 32"
  defines "L \<equiv> push_bit 3 (of_nat n :: u32)"
  defines "d0 \<equiv> c0 + L"
  defines "d1 \<equiv> (if d0 < L then c1 + 1 else c1) + drop_bit 29 (of_nat n :: u32)"
  shows "unat d0 + 2 ^ 32 * unat d1 = (unat c0 + 2 ^ 32 * unat c1 + 8 * n) mod 2 ^ 64"
proof -
  let ?M = "2 ^ 32 :: nat"
  have n: "unat (of_nat n :: u32) = n"
    using assms(1) by (simp add: unat_of_nat)
  have L: "unat L = 8 * n mod ?M"
    unfolding L_def unsigned_push_bit_eq n by (simp add: push_bit_eq_mult take_bit_eq_mod mult.commute)
  have D: "unat (drop_bit 29 (of_nat n :: u32)) = 8 * n div ?M"
    unfolding unsigned_drop_bit_eq n using assms(1) by (simp add: drop_bit_eq_div take_bit_eq_mod)
  have d0: "unat d0 = (unat c0 + 8 * n mod ?M) mod ?M"
    by (simp add: d0_def unat_word_ariths L)
  have d1: "unat d1 = (unat c1 + (if unat d0 < unat L then 1 else 0) + 8 * n div ?M) mod ?M"
    by (simp add: d1_def unat_word_ariths D word_less_nat_alt mod_simps)
  have c: "unat c0 < ?M" using unsigned_less [of c0, where 'a = nat] by simp
  have "8 * n mod ?M + ?M * (8 * n div ?M) = 8 * n" by (rule mod_mult_div_eq)
  moreover have "?M * ?M = 2 ^ 64" by simp
  moreover have "8 * n mod ?M < ?M" by simp
  ultimately show ?thesis
    using count_step_nat [OF c, of "8 * n mod ?M" "unat c1" "8 * n div ?M"]
    unfolding d1 unfolding d0 L by (simp only:)
qed

lemma index_count: "unat (drop_bit 3 (c :: u32) AND 0x3F) = (unat c div 8) mod 64"
proof -
  have "(63 :: nat) = mask 6" by (simp add: mask_eq_exp_minus_1)
  then have "x AND 63 = x mod 64" for x :: nat
    by (simp only: take_bit_eq_mask [symmetric]) (simp add: take_bit_eq_mod)
  moreover have "unat c mod 2 ^ 32 = unat c"
    using unsigned_less [of c, where 'a = nat] by simp
  ultimately show ?thesis
    unfolding unsigned_and_eq unsigned_drop_bit_eq by (simp add: drop_bit_eq_div take_bit_eq_mod)
qed

lemma encode_byte: "ucast (drop_bit k (w :: u32) AND 0xff) = (of_nat (unat w div 2 ^ k) :: u8)"
proof -
  have "(255 :: nat) = mask 8" by (simp add: mask_eq_exp_minus_1)
  then have "x AND 255 = x mod 256" for x :: nat
    by (simp only: take_bit_eq_mask [symmetric]) (simp add: take_bit_eq_mod)
  moreover have "unat w mod 2 ^ 32 = unat w"
    using unsigned_less [of w, where 'a = nat] by simp
  ultimately show ?thesis
    unfolding word_unat_eq_iff unsigned_ucast_eq unsigned_and_eq unsigned_drop_bit_eq unat_of_nat
    by (simp add: drop_bit_eq_div take_bit_eq_mod)
qed

lemma of_nat_mod_byte: "(of_nat (x mod 256) :: u8) = of_nat x"
  by (simp add: word_unat_eq_iff unat_of_nat)

lemma be_bytes_4:
  "be_bytes 4 v = [of_nat (v div 2 ^ 24), of_nat (v div 2 ^ 16), of_nat (v div 2 ^ 8), of_nat (v div 2 ^ 0)]"
proof -
  have "be_bytes (Suc (Suc (Suc (Suc 0)))) v =
      [of_nat (v div 2 ^ 24), of_nat (v div 2 ^ 16), of_nat (v div 2 ^ 8), of_nat (v div 2 ^ 0)]"
    by (simp add: of_nat_mod_byte div_mult2_eq [symmetric])
  moreover have "4 = Suc (Suc (Suc (Suc 0)))" by simp
  ultimately show ?thesis by (simp only:)
qed

lemma encode_word_le: "encode_word w = rev (be_bytes 4 (unat w))"
  using encode_byte [of 0 w]
  by (simp only: encode_word_def encode_byte be_bytes_4 drop_bit_0 id_apply rev.simps append.simps)

lemma be_bytes_add: "be_bytes (m + n) v = be_bytes m (v div 256 ^ n) @ be_bytes n (v mod 256 ^ n)"
proof (induction n arbitrary: v)
  case (Suc n)
  have "v mod (256 * 256 ^ n) div 256 = v div 256 mod 256 ^ n"
    by (simp add: mod_mult2_eq)
  moreover have "v mod (256 * 256 ^ n) mod 256 = v mod 256"
    by (rule mod_mod_cancel) simp
  ultimately show ?case
    using Suc [of "v div 256"] by (simp add: div_mult2_eq)
qed simp

lemma encode_counts: "encode [count0 m, count1 m] = rev (be_bytes 8 (bit_count m))"
proof -
  have c: "unat (count0 m) < 256 ^ 4"
    using unsigned_less [of "count0 m", where 'a = nat] by simp
  have b: "bit_count m = unat (count0 m) + 256 ^ 4 * unat (count1 m)"
    by (simp add: bit_count_def)
  have "be_bytes (4 + 4) (bit_count m) = be_bytes 4 (unat (count1 m)) @ be_bytes 4 (unat (count0 m))"
    unfolding be_bytes_add b using c by (simp del: be_bytes.simps)
  then show ?thesis by (simp add: encode_def encode_word_le)
qed

section \<open>The incremental digest\<close>

definition md5_inv :: "MD5 \<Rightarrow> bytes \<Rightarrow> bool" where
  "md5_inv m msg \<longleftrightarrow> \<not> finalized m \<and> length (buffer m) = 64 \<and>
     bit_count m = 8 * length msg mod 2 ^ 64 \<and>
     absorb md5_iv msg = (state m, take (length msg mod 64) (buffer m))"

lemma md5_inv_init: "length (buffer m) = 64 \<Longrightarrow> md5_inv (init m) []"
  by (simp add: md5_inv_def init_def bit_count_def absorb_short)

lemma md5_inv_index:
  assumes "md5_inv m msg"
  shows "unat (drop_bit 3 (count0 m) AND 0x3F) = length msg mod 64"
proof -
  let ?n = "length msg"
  have c: "unat (count0 m) < 2 ^ 32" using unsigned_less [of "count0 m", where 'a = nat] by simp
  have "unat (count0 m) = bit_count m mod 2 ^ 32" unfolding bit_count_def using c by simp
  also have "bit_count m = 8 * ?n mod 2 ^ 64" using assms by (simp add: md5_inv_def)
  also have "8 * ?n mod 2 ^ 64 mod 2 ^ 32 = 8 * ?n mod 2 ^ 32"
    by (rule mod_mod_cancel) (rule le_imp_power_dvd, simp)
  also have "\<dots> = 8 * (?n mod 2 ^ 29)"
    using mult_mod_right [of 8 ?n "2 ^ 29"] by simp
  finally have "unat (count0 m) div 8 = ?n mod 2 ^ 29" by simp
  moreover have "?n mod 2 ^ 29 mod 64 = ?n mod 64"
    using mod_mod_cancel [of 64 "2 ^ 29" ?n] by (simp add: dvd_def)
  ultimately show ?thesis by (simp only: index_count)
qed

lemma length_memcpy: "p + length xs \<le> length buf \<Longrightarrow> length (memcpy buf p xs) = length buf"
  by (simp add: memcpy_def)

lemma take_memcpy: "p + length xs \<le> length buf \<Longrightarrow> take (p + length xs) (memcpy buf p xs) = take p buf @ xs"
  by (simp add: memcpy_def)

lemma update_counts:
  fixes input :: bytes
  assumes "\<not> finalized m"
  defines "L \<equiv> push_bit 3 (of_nat (length input) :: u32)"
  shows "count0 (update input m) = count0 m + L"
    and "count1 (update input m) =
      (if count0 m + L < L then count1 m + 1 else count1 m) + drop_bit 29 (of_nat (length input) :: u32)"
  using assms by (simp_all add: update_def Let_def case_prod_beta)

lemma update_count:
  assumes "\<not> finalized m" "length input < 2 ^ 32"
  shows "bit_count (update input m) = (bit_count m + 8 * length input) mod 2 ^ 64"
  unfolding bit_count_def update_counts [OF assms(1)] by (rule count_step [OF assms(2)])

lemma update_not_finalized: "\<not> finalized m \<Longrightarrow> \<not> finalized (update input m)"
  by (simp add: update_def Let_def case_prod_beta)

lemma update_absorb:
  assumes "\<not> finalized m" "length (buffer m) = 64"
    and idx: "unat (drop_bit 3 (count0 m) AND 0x3F) = i" and i: "i < 64"
  shows "absorb (state m) (take i (buffer m) @ input) =
     (state (update input m), take ((i + length input) mod 64) (buffer (update input m))) \<and>
     length (buffer (update input m)) = 64"
proof (cases "64 - i \<le> length input")
  case False
  then have "i + length input < 64" by simp
  with assms False show ?thesis
    by (simp add: update_def Let_def absorb_short length_memcpy take_memcpy)
next
  case True
  let ?sp = "64 - i"
  let ?buf = "memcpy (buffer m) i (take ?sp input)"
  have buf: "?buf = take i (buffer m) @ take ?sp input" "length ?buf = 64"
    using True i assms(2) by (simp_all add: memcpy_def)
  obtain j st where t: "transform_from input ?sp (transform ?buf (state m)) = (j, st)"
    by (cases "transform_from input ?sp (transform ?buf (state m))") auto
  from transform_from_absorb [OF t True] have j:
    "absorb (transform ?buf (state m)) (drop ?sp input) = (st, drop j input)" "length (drop j input) < 64"
    by simp_all
  have eq: "take i (buffer m) @ input = ?buf @ drop ?sp input" by (simp add: buf(1))
  have ab: "absorb (state m) (take i (buffer m) @ input) = (st, drop j input)"
    unfolding eq absorb_block [OF buf(2)] by (rule j(1))
  with absorb_rest [OF ab] assms(2) i have len: "length (drop j input) = (i + length input) mod 64" by simp
  have up: "state (update input m) = st" "buffer (update input m) = memcpy ?buf 0 (drop j input)"
    using assms True t by (simp_all add: update_def Let_def)
  have "take (length (drop j input)) (memcpy ?buf 0 (drop j input)) = drop j input"
    using take_memcpy [of 0 "drop j input" ?buf] j buf(2) by simp
  moreover have "length (memcpy ?buf 0 (drop j input)) = 64"
    using length_memcpy [of 0 "drop j input" ?buf] j buf(2) by simp
  ultimately show ?thesis using ab up len by simp
qed

lemma update_inv:
  assumes inv: "md5_inv m msg" and len: "length input < 2 ^ 32"
  shows "md5_inv (update input m) (msg @ input)"
proof -
  let ?i = "length msg mod 64"
  have m: "\<not> finalized m" "length (buffer m) = 64" "bit_count m = 8 * length msg mod 2 ^ 64"
      "absorb md5_iv msg = (state m, take ?i (buffer m))"
    using inv by (simp_all add: md5_inv_def)
  have "bit_count (update input m) = 8 * length (msg @ input) mod 2 ^ 64"
    unfolding update_count [OF m(1) len] m(3) by (simp add: mod_simps algebra_simps)
  moreover have "(?i + length input) mod 64 = length (msg @ input) mod 64"
    by (simp add: mod_simps)
  ultimately show ?thesis
    using update_absorb [OF m(1,2) md5_inv_index [OF inv], of input] m update_not_finalized [OF m(1)]
    by (simp add: md5_inv_def absorb_append [of md5_iv msg input])
qed

lemma take_PADDING: "0 < k \<Longrightarrow> k \<le> 64 \<Longrightarrow> take k PADDING = 0x80 # replicate (k - 1) 0"
  by (cases k) (simp_all add: PADDING_def min_def)

lemma pad_length:
  "nat ((55 - int n) mod 64) = (if n mod 64 < 56 then 56 - n mod 64 else 120 - n mod 64) - 1"
proof -
  let ?i = "n mod 64"
  have i: "?i < 64" by simp
  have "(55 - int n) mod 64 = (55 - int ?i) mod 64"
    unfolding zmod_int of_nat_numeral by (rule mod_diff_right_eq [symmetric])
  also have "\<dots> = (if ?i < 56 then 55 - int ?i else 119 - int ?i)"
  proof (cases "?i < 56")
    case True
    then show ?thesis by (simp only: if_True) (rule mod_pos_pos_trivial, simp_all)
  next
    case False
    have "(55 - int ?i) mod 64 = (119 - int ?i) mod 64"
      using mod_add_self2 [of "55 - int ?i" 64] by (simp add: algebra_simps)
    also have "\<dots> = 119 - int ?i" using False i by (intro mod_pos_pos_trivial) linarith+
    finally show ?thesis using False by simp
  qed
  finally show ?thesis using i by (simp add: nat_diff_distrib)
qed

lemma finalize_digest:
  assumes inv: "md5_inv m msg"
  shows "finalized (finalize m)" "digest (finalize m) = md5_spec msg"
proof -
  let ?i = "length msg mod 64"
  let ?padLen = "if ?i < 56 then 56 - ?i else 120 - ?i"
  let ?pad = "take ?padLen PADDING"
  let ?bits = "encode [count0 m, count1 m]"
  have i: "?i < 64" by simp
  note k = pad_length [of "length msg"]
  have "0 < ?padLen" "?padLen \<le> 64" using i by (cases "?i < 56"; simp)+
  then have "?pad = 0x80 # replicate (?padLen - 1) 0" by (rule take_PADDING)
  then have pad: "msg @ ?pad @ ?bits = md5_pad msg"
    using inv unfolding md5_pad_def k encode_counts md5_inv_def by (simp only: append_Cons append_assoc)
  have "md5_inv (update ?pad m) (msg @ ?pad)"
    by (rule update_inv [OF inv]) (simp add: PADDING_def)
  then have "md5_inv (update ?bits (update ?pad m)) ((msg @ ?pad) @ ?bits)"
    by (rule update_inv) (simp only: encode_counts length_rev length_be_bytes, simp)
  then have "fst (absorb md5_iv (md5_pad msg)) = state (update ?bits (update ?pad m))"
    using pad by (simp add: md5_inv_def)
  moreover have "\<not> finalized m" using inv by (simp add: md5_inv_def)
  ultimately show "finalized (finalize m)" "digest (finalize m) = md5_spec msg"
    unfolding finalize_def Let_def md5_inv_index [OF inv] md5_spec_def by simp_all
qed

lemma updates_inv:
  "md5_inv m msg \<Longrightarrow> \<forall>x \<in> set chunks. length x < 2 ^ 32 \<Longrightarrow>
   md5_inv (foldl (\<lambda>m x. update x m) m chunks) (msg @ concat chunks)"
proof (induction chunks arbitrary: m msg)
  case (Cons x chunks)
  then show ?case using update_inv [of m msg x] by (simp flip: append_assoc)
qed simp

lemma update_file_inv: "md5_inv m msg \<Longrightarrow> md5_inv (update_file content m) (msg @ content)"
proof (induction content m arbitrary: msg rule: update_file.induct)
  case (1 content m)
  show ?case
  proof (cases "content = []")
    case False
    have "md5_inv (update (take 1024 content) m) (msg @ take 1024 content)"
      by (rule update_inv [OF 1(2)]) simp
    from 1(1) [OF _ this] False show ?thesis by (simp add: update_file.simps [of content])
  qed (use 1 in \<open>simp add: update_file.simps\<close>)
qed

lemma update_istream_inv: "md5_inv m msg \<Longrightarrow> md5_inv (update_istream stream m) (msg @ stream)"
proof (induction stream m arbitrary: msg rule: update_istream.induct)
  case (1 stream m)
  have up: "md5_inv (update (take 1024 stream) m) (msg @ take 1024 stream)"
    by (rule update_inv [OF 1(2)]) simp
  with 1(1) [OF refl _ up] show ?case
    by (cases "length stream < 1024") (simp_all add: update_istream.simps [of stream] Let_def)
qed

lemma length_md5_spec: "length (md5_spec msg) = 16"
  by (simp add: md5_spec_def state_words_def encode_def encode_word_def split: prod.split)

text \<open>The callers' pattern: a new object, some \<open>update\<close> calls, \<open>finalize\<close> and \<open>raw_digest\<close>.\<close>

definition hash_of :: "bytes list \<Rightarrow> bytes" where
  "hash_of chunks = raw_digest (finalize (foldl (\<lambda>m x. update x m) md5_new chunks))"

lemma md5_inv_new: "md5_inv md5_new []"
  by (simp add: md5_new_def md5_inv_init)

lemma hash_of_spec: "\<forall>x \<in> set chunks. length x < 2 ^ 32 \<Longrightarrow> hash_of chunks = md5_spec (concat chunks)"
  using finalize_digest [OF updates_inv [OF md5_inv_new]] by (simp add: hash_of_def raw_digest_def length_md5_spec)

lemma length_hash_of: "\<forall>x \<in> set chunks. length x < 2 ^ 32 \<Longrightarrow> length (hash_of chunks) = 16"
  by (simp add: hash_of_spec length_md5_spec)

text \<open>The digest of \<open>abc\<close>, the test vector of RFC 1321, evaluated round by round.\<close>

lemmas md5_eval = FF_def F_def GG_def G_def HH_def H_def II_def I_def rotate_left_def
  S11_def S12_def S13_def S14_def S21_def S22_def S23_def S24_def S31_def S32_def S33_def S34_def
  S41_def S42_def S43_def S44_def Let_def

lemma replicate_numeral: "replicate (numeral k) x = x # replicate (pred_numeral k) x"
  by (simp add: numeral_eq_Suc)

lemma abc_words: "decode (md5_pad [0x61, 0x62, 0x63]) = abc_x"
  by (simp add: md5_pad_def abc_x_def replicate_numeral)

lemma abc_rounds:
  shows "round1 abc_x 0x67452301 0xefcdab89 0x98badcfe 0x10325476 = (0xdda9b9a6, 0x72aff2e0, 0xe396856b, 0xa1051895)"
  and "round2 abc_x 0xdda9b9a6 0x72aff2e0 0xe396856b 0xa1051895 = (0x790a77fb, 0x726342d3, 0xa62884aa, 0x9f47e4f8)"
  and "round3 abc_x 0x790a77fb 0x726342d3 0xa62884aa 0x9f47e4f8 = (0x7f2e507b, 0x7beb9700, 0x8fae6399, 0x99d9679d)"
  and "round4 abc_x 0x7f2e507b 0x7beb9700 0x8fae6399 0x99d9679d = (0x310ade8f, 0xc08226b3, 0xe484b9d8, 0x624d8cb2)"
  unfolding abc_x_def
  by (simp_all add: round1_def round2_def round3_def round4_def md5_eval cong: let_weak_cong)

lemma abc_transform: "transform (md5_pad [0x61, 0x62, 0x63]) md5_iv = (0x98500190, 0xb04fd23c, 0x7d3f96d6, 0x727fe128)"
  by (simp add: transform_def md5_iv_def abc_words abc_rounds)

lemma abc_digest: "md5_spec [0x61, 0x62, 0x63] = [0x90, 0x1, 0x50, 0x98, 0x3c, 0xd2, 0x4f, 0xb0, 0xd6, 0x96, 0x3f, 0x7d, 0x28, 0xe1, 0x7f, 0x72]"
proof -
  have "absorb md5_iv (md5_pad [0x61, 0x62, 0x63] @ []) = absorb (transform (md5_pad [0x61, 0x62, 0x63]) md5_iv) []"
    by (rule absorb_block) (simp add: md5_pad_def)
  then have "fst (absorb md5_iv (md5_pad [0x61, 0x62, 0x63])) = (0x98500190, 0xb04fd23c, 0x7d3f96d6, 0x727fe128)"
    by (simp add: abc_transform absorb_short)
  then show ?thesis
    by (simp add: md5_spec_def state_words_def encode_def encode_word_def)
qed

section \<open>Properties\<close>



text \<open>
  The constructors that read a file or a stream in pieces of 1024 bytes compute the MD5 of its whole
  content, also when its length is a multiple of the piece size, and later calls of \<open>update\<close> and
  \<open>finalize\<close> do not change a finished digest.
\<close>

theorem md5_of_stream:
  assumes "length (buffer m) = 64"
  shows "raw_digest (MD5_of_file content m) = md5_spec content \<and>
    raw_digest (MD5_of_istream content m) = md5_spec content \<and>
    finalize (update extra (MD5_of_file content m)) = MD5_of_file content m"
proof -
  note file_ok = finalize_digest [OF update_file_inv [OF md5_inv_init [OF assms], of content]]
  note stream_ok = finalize_digest [OF update_istream_inv [OF md5_inv_init [OF assms], of content]]
  from file_ok stream_ok show ?thesis
    by (simp add: raw_digest_def MD5_of_file_def MD5_of_istream_def length_md5_spec update_def
        finalize_def [of "finalize _"])
qed

theorem md5_of_stream_example:
  "raw_digest (MD5_of_file [0x61, 0x62, 0x63] md5_new) = md5_spec [0x61, 0x62, 0x63] \<and>
   raw_digest (MD5_of_istream [0x61, 0x62, 0x63] md5_new) = md5_spec [0x61, 0x62, 0x63] \<and>
   finalize (update [1] (MD5_of_file [0x61, 0x62, 0x63] md5_new)) = MD5_of_file [0x61, 0x62, 0x63] md5_new"
  by (rule md5_of_stream) (simp add: md5_new_def init_def)

end
