(* ===== verification/BmpReader.thy ===== *)
theory BmpReader
  imports ParseBgp ParseBmp Md5 "HOL-Library.AList"
begin

text \<open>
  \<open>bmp/BMPReader.cpp\<close>: the thread of a router. It reads one BMP message after the other, hands it to the BMP
  and BGP parsers and to the message bus, and keeps what is known about the peers of the router. The
  argument \<open>e\<close> of the definitions is the environment: the build option, the external functions of the
  UPDATE parser and the bus. The methods of a bus throw no string, so that the state the handler of
  \<open>ReadIncomingMsg\<close> sees is the one before the message was parsed.

  The theorems show that the reader stays aligned with the messages of the stream, that its loop ends, and
  what a message makes of the bus.
\<close>

section \<open>State\<close>

record client_info =
  cl_hash_id :: bytes
  initRec :: bool
  cl_ip :: string
  startTime :: int
  sock_open :: bool

text \<open>The value of \<open>router_baseline_time\<close> is in tenths of a second.\<close>

record config =
  pat_enabled :: bool
  c_hash_id :: bytes
  router_baseline_time :: "bytes \<rightharpoonup> int"

record reader =
  cached_hash_id :: bytes
  peer_info_map :: "(string \<times> peer_info) list"
  hasPrevRIBdumpTime :: bool
  isBelowThresholdDumpRate :: "bool option"
  prevRIBdumpTime :: u32
  maxRIBdumpRate :: int
  belowThresholdInitTime :: "u32 option"

definition new_BMPReader :: reader where
  "new_BMPReader = \<lparr>cached_hash_id = replicate 16 0, peer_info_map = [], hasPrevRIBdumpTime = False,
     isBelowThresholdDumpRate = None, prevRIBdumpTime = 0, maxRIBdumpRate = 0, belowThresholdInitTime = None\<rparr>"

record 'b reader_state =
  rs_client :: client_info
  rs_cfg :: config
  rs_reader :: reader
  rs_in :: bytes
  rs_err :: bool
  rs_bus :: 'b

record ('ls, 'b) env =
  e_redis :: bool
  e_ext :: "'ls ext"
  e_ls_db :: "('ls, 'b) ls_db"
  e_ls0 :: 'ls
  e_bus :: "'b msg_bus"

datatype 'b read_res = Returned bool "'b reader_state" | Thrown string "'b reader_state"

section \<open>The rate of a RIB dump\<close>

text \<open>Division of \<open>int\<close>, which rounds towards zero.\<close>

definition int_div :: "int \<Rightarrow> int \<Rightarrow> int" where
  "int_div a b = (if a \<ge> 0 then a div b else - ((- a) div b))"

text \<open>\<open>currRate < maxRIBdumpRate * 0.15\<close> for 32-bit integers, where the product is within rounding of the exact one.\<close>

definition checkRIBdumpRate :: "u32 \<Rightarrow> int \<Rightarrow> reader \<Rightarrow> (bool \<times> reader) result" where
  "checkRIBdumpRate timeStamp seq rdr =
     (if \<not> hasPrevRIBdumpTime rdr
      then Inr (False, rdr\<lparr>prevRIBdumpTime := timeStamp, hasPrevRIBdumpTime := True\<rparr>)
      else let time = sint (timeStamp - prevRIBdumpTime rdr)
      in andThen
           (if time > 0 then
              let currRate = int_div seq time; rdr = rdr\<lparr>maxRIBdumpRate := max currRate (maxRIBdumpRate rdr)\<rparr>
              in if 100 * currRate < 15 * maxRIBdumpRate rdr
                 then andThen (load (isBelowThresholdDumpRate rdr)) (\<lambda>below.
                        let rdr = (if \<not> below then rdr\<lparr>belowThresholdInitTime := Some timeStamp\<rparr> else rdr);
                            rdr = rdr\<lparr>isBelowThresholdDumpRate := Some True\<rparr>
                        in andThen (load (belowThresholdInitTime rdr)) (\<lambda>t0. Inr (timeStamp - t0 \<ge> 3, rdr)))
                 else Inr (False, rdr\<lparr>isBelowThresholdDumpRate := Some False\<rparr>)
            else Inr (False, rdr)) (\<lambda>(fin, rdr).
           if fin then Inr (True, rdr) else Inr (False, rdr\<lparr>prevRIBdumpTime := timeStamp\<rparr>)))"

section \<open>Routers\<close>

definition router_object :: "reader \<Rightarrow> client_info \<Rightarrow> obj_router" where
  "router_object rdr c = zero_router\<lparr>router_hash := cached_hash_id rdr, router_ip_addr := cl_ip c\<rparr>"

definition TERM_REASON_OPENBMP_CONN_ERR :: nat where "TERM_REASON_OPENBMP_CONN_ERR = 65534"

definition disconnect :: "('ls, 'b) env \<Rightarrow> nat \<Rightarrow> string \<Rightarrow> 'b reader_state \<Rightarrow> 'b reader_state result" where
  "disconnect e code txt st =
     (let r = (router_object (rs_reader st) (rs_client st))\<lparr>term_reason_code := code, term_reason_text := snprintf 255 txt\<rparr>
      in andThen (update_Router (e_bus e) r ROUTER_ACTION_TERM (rs_bus st)) (\<lambda>(r, b).
           Inr (st\<lparr>rs_bus := b, rs_client := (rs_client st)\<lparr>sock_open := False\<rparr>\<rparr>)))"

definition reader_hashRouter :: "obj_router \<Rightarrow> 'b reader_state \<Rightarrow> (obj_router \<times> 'b reader_state) result" where
  "reader_hashRouter r st =
     andThen (if hash_type r = 2 then Inr (text_bytes (router_bgp_id r))
              else if hash_type r = 1 then c_bytes (router_name r)
              else Inr (text_bytes (router_ip_addr r))) (\<lambda>hash_val.
     andThen (hash_toStr (c_hash_id (rs_cfg st))) (\<lambda>c_hash_str.
       let h = raw_digest (finalize (update (text_bytes c_hash_str) (update hash_val md5_new)))
       in Inr (r\<lparr>router_hash := h\<rparr>,
            st\<lparr>rs_client := (rs_client st)\<lparr>cl_hash_id := h\<rparr>, rs_reader := (rs_reader st)\<lparr>cached_hash_id := h\<rparr>\<rparr>)))"

section \<open>Peers\<close>

definition lookup_peer :: "string \<Rightarrow> reader \<Rightarrow> peer_info" where
  "lookup_peer k rdr = (case map_of (peer_info_map rdr) k of None \<Rightarrow> plain_peer | Some i \<Rightarrow> i)"

definition store_peer :: "string \<Rightarrow> peer_info \<Rightarrow> reader \<Rightarrow> reader" where
  "store_peer k i rdr = rdr\<lparr>peer_info_map := AList.update k i (peer_info_map rdr)\<rparr>"

definition peer_key :: "obj_bgp_peer \<Rightarrow> string" where
  "peer_key p = peer_addr p @ peer_rd p"

section \<open>Messages\<close>

text \<open>
  The branches of \<open>ReadIncomingMsg\<close> after the headers: they return the peer entry, the parser and the state
  with the bus. \<open>b\<close> of the arguments is in the state.
\<close>

definition down_text :: "parse_bmp \<Rightarrow> string \<Rightarrow> obj_bgp_peer \<Rightarrow> obj_peer_down_event \<Rightarrow> parse_bgp \<Rightarrow>
    (obj_peer_down_event \<times> peer_info) result" where
  "down_text s ipt p down pb =
     (if bmp_reason down = 1 then
        andThen (handleDownEvent (bmp_buf s) (length (bmp_data s))
            (down\<lparr>down_error_text := snprintf 255 (''Local close by ('' @ ipt @ '') for peer ('' @ peer_addr p @ '') : '')\<rparr>) pb)
          (\<lambda>(_, down, pb). Inr (down, p_info pb))
      else if bmp_reason down = 2 then
        andThen (ntoh 2 (bmp_buf s)) (\<lambda>fsm_event.
          Inr (down\<lparr>down_error_text := snprintf 255 (''Local ('' @ ipt @ '') closed peer ('' @ peer_addr p @ '') session: fsm_event='' @
                 dec_of_nat fsm_event @ '', No BGP notify message.'')\<rparr>, p_info pb))
      else if bmp_reason down = 3 then
        andThen (handleDownEvent (bmp_buf s) (length (bmp_data s))
            (down\<lparr>down_error_text := snprintf 255 (''Remote peer ('' @ ipt @ '') closed local ('' @ peer_addr p @ '') session: '')\<rparr>) pb)
          (\<lambda>(_, down, pb). Inr (down, p_info pb))
      else Inr (down, p_info pb))"

definition peer_down :: "('ls, 'b) env \<Rightarrow> obj_router \<Rightarrow> string \<Rightarrow> parse_bmp \<Rightarrow> 'b reader_state \<Rightarrow> (obj_bgp_peer \<times> parse_bmp \<times> 'b reader_state) result" where
  "peer_down e r k s st =
     (let (ok, down, s) = parsePeerDownEventHdr zero_down s; p = peer_entry s
      in if \<not> ok then Inl (Throw ''BMPReader: Unable to read from client socket'')
         else andThen (bufferBMPMessage s) (\<lambda>s.
              andThen (down_text s (router_ip_addr r) p down (new_parseBGP p (lookup_peer k (rs_reader st)))) (\<lambda>(down, pi).
              andThen (update_Peer (e_bus e) p None (Some down) PEER_ACTION_DOWN (rs_bus st)) (\<lambda>(p, b).
                Inr (p, s, st\<lparr>rs_bus := b, rs_reader := store_peer k pi (rs_reader st)\<rparr>)))))"

definition peer_up :: "('ls, 'b) env \<Rightarrow> string \<Rightarrow> parse_bmp \<Rightarrow> 'b reader_state \<Rightarrow> (obj_bgp_peer \<times> parse_bmp \<times> 'b reader_state) result" where
  "peer_up e k s st =
     andThen (parsePeerUpEventHdr (ntop6 (e_ext e)) zero_up s) (\<lambda>(good, up, s).
       let p = peer_entry s
       in if \<not> good then Inr (p, s, st)
          else andThen (bufferBMPMessage s) (\<lambda>s.
               andThen (handleUpEvent (bmp_buf s) (length (bmp_data s)) up (new_parseBGP p (lookup_peer k (rs_reader st)))) (\<lambda>(n, up, pb).
               andThen (if int (length (bmp_data s)) - n > 0
                        then parsePeerUpInfo (drop (nat n) (bmp_buf s)) (nat (int (length (bmp_data s)) - n)) p
                        else Inr p) (\<lambda>p.
               andThen (update_Peer (e_bus e) p (Some up) None PEER_ACTION_UP (rs_bus st)) (\<lambda>(p, b).
                 Inr (p, s, st\<lparr>rs_bus := b, rs_reader := store_peer k (p_info pb) (rs_reader st)\<rparr>))))))"

definition set_baseline :: "int \<Rightarrow> 'b reader_state \<Rightarrow> 'b reader_state" where
  "set_baseline now st = st\<lparr>rs_cfg := (rs_cfg st)\<lparr>router_baseline_time :=
     (router_baseline_time (rs_cfg st))(cl_hash_id (rs_client st) \<mapsto> 12 * (now - startTime (rs_client st)))\<rparr>\<rparr>"

definition check_baseline :: "('ls, 'b) env \<Rightarrow> int \<Rightarrow> obj_bgp_peer \<Rightarrow> 'b reader_state \<Rightarrow> 'b reader_state result" where
  "check_baseline e now p st =
     (if initRec (rs_client st) \<and> router_baseline_time (rs_cfg st) (cl_hash_id (rs_client st)) = None
      then if list_all (\<lambda>(k, i). endOfRIB i) (peer_info_map (rs_reader st)) then Inr (set_baseline now st)
           else andThen (checkRIBdumpRate (timestamp_secs p) (sint (ucast (ribSeq (e_bus e) (rs_bus st)) :: u32)) (rs_reader st))
                  (\<lambda>(d, rdr). let st = st\<lparr>rs_reader := rdr\<rparr> in Inr (if d then set_baseline now st else st))
      else Inr st)"

definition route_mon :: "('ls, 'b) env \<Rightarrow> int \<Rightarrow> string \<Rightarrow> parse_bmp \<Rightarrow> 'b reader_state \<Rightarrow> (obj_bgp_peer \<times> parse_bmp \<times> 'b reader_state) result" where
  "route_mon e now k s st =
     (let p = peer_entry s
      in andThen (bufferBMPMessage s) (\<lambda>s.
         andThen (handleUpdate (e_redis e) (e_ext e) (e_ls_db e) (e_ls0 e) (e_bus e) (bmp_buf s) (length (bmp_data s))
             (new_parseBGP p (lookup_peer k (rs_reader st))) (rs_bus st)) (\<lambda>(_, pb, b).
         andThen (check_baseline e now p (st\<lparr>rs_bus := b, rs_reader := store_peer k (p_info pb) (rs_reader st)\<rparr>)) (\<lambda>st.
           Inr (p, s, st)))))"

definition stats_report :: "('ls, 'b) env \<Rightarrow> parse_bmp \<Rightarrow> 'b reader_state \<Rightarrow> (obj_bgp_peer \<times> parse_bmp \<times> 'b reader_state) result" where
  "stats_report e s st =
     andThen (handleStatsReport new_stats s) (\<lambda>(stats, s).
     andThen (add_StatReport (e_bus e) (peer_entry s) stats (rs_bus st)) (\<lambda>b.
       Inr (peer_entry s, s, st\<lparr>rs_bus := b\<rparr>)))"

definition init_msg :: "('ls, 'b) env \<Rightarrow> obj_router \<Rightarrow> parse_bmp \<Rightarrow> 'b reader_state \<Rightarrow> (obj_bgp_peer \<times> parse_bmp \<times> 'b reader_state) result" where
  "init_msg e r s st =
     andThen (handleInitMsg r s) (\<lambda>(r, s).
     andThen (if pat_enabled (rs_cfg st) \<and> hash_type r \<noteq> 0 then reader_hashRouter r st else Inr (r, st)) (\<lambda>(r, st).
     andThen (update_Router (e_bus e) r ROUTER_ACTION_INIT (rs_bus st)) (\<lambda>(r, b).
       Inr (peer_entry s, s, st\<lparr>rs_bus := b\<rparr>))))"

definition term_msg :: "('ls, 'b) env \<Rightarrow> obj_router \<Rightarrow> parse_bmp \<Rightarrow> 'b reader_state \<Rightarrow> (obj_bgp_peer \<times> parse_bmp \<times> 'b reader_state) result" where
  "term_msg e r s st =
     andThen (handleTermMsg r s) (\<lambda>(r, s).
     andThen (update_Router (e_bus e) r ROUTER_ACTION_TERM (rs_bus st)) (\<lambda>(r, b).
       Inr (peer_entry s, s, st\<lparr>rs_bus := b, rs_client := (rs_client st)\<lparr>sock_open := False\<rparr>\<rparr>)))"

definition dispatch :: "('ls, 'b) env \<Rightarrow> int \<Rightarrow> obj_router \<Rightarrow> string \<Rightarrow> parse_bmp \<Rightarrow> 'b reader_state \<Rightarrow>
    (obj_bgp_peer \<times> parse_bmp \<times> 'b reader_state) result" where
  "dispatch e now r k s st =
     (if bmp_type s = TYPE_PEER_DOWN then peer_down e r k s st
      else if bmp_type s = TYPE_PEER_UP then peer_up e k s st
      else if bmp_type s = TYPE_ROUTE_MON then route_mon e now k s st
      else if bmp_type s = TYPE_STATS_REPORT then stats_report e s st
      else if bmp_type s = TYPE_INIT_MSG then init_msg e r s st
      else if bmp_type s = TYPE_TERM_MSG then term_msg e r s st
      else Inr (peer_entry s, s, st))"

text \<open>The router and peer entries that are sent before the message itself.\<close>

definition announce_peer :: "('ls, 'b) env \<Rightarrow> parse_bmp \<Rightarrow> 'b reader_state \<Rightarrow> (obj_router \<times> string \<times> parse_bmp \<times> 'b reader_state) result" where
  "announce_peer e s st =
     (let r = router_object (rs_reader st) (rs_client st)
      in andThen (if bmp_type s \<noteq> TYPE_INIT_MSG then update_Router (e_bus e) r ROUTER_ACTION_FIRST (rs_bus st)
                  else Inr (r, rs_bus st)) (\<lambda>(r, b).
         if sint (bmp_type s) < 4 then
           let p = (peer_entry s)\<lparr>router_hash_id := router_hash r\<rparr>; k = peer_key p
           in andThen (if bmp_type s \<noteq> TYPE_PEER_UP then update_Peer (e_bus e) p None None PEER_ACTION_FIRST b else Inr (p, b)) (\<lambda>(p, b).
              let i = lookup_peer k (rs_reader st);
                  i = (if \<not> using_2_octet_asn i \<and> isTwoOctet p then i\<lparr>using_2_octet_asn := True\<rparr> else i)
              in Inr (r, k, s\<lparr>peer_entry := p\<rparr>, st\<lparr>rs_bus := b, rs_reader := store_peer k i (rs_reader st)\<rparr>))
         else Inr (r, [], s, st\<lparr>rs_bus := b\<rparr>)))"

definition catch_throw :: "'a result \<Rightarrow> (string \<Rightarrow> 'c result) \<Rightarrow> ('a \<Rightarrow> 'c result) \<Rightarrow> 'c result" where
  "catch_throw m h f = (case m of Inl (Throw t) \<Rightarrow> h t | Inl x \<Rightarrow> Inl x | Inr v \<Rightarrow> f v)"

definition ReadIncomingMsg :: "('ls, 'b) env \<Rightarrow> u32 \<times> u32 \<Rightarrow> 'b reader_state \<Rightarrow> 'b read_res result" where
  "ReadIncomingMsg e now st =
     (let st = st\<lparr>rs_reader := (rs_reader st)\<lparr>cached_hash_id := cl_hash_id (rs_client st)\<rparr>\<rparr>;
          fail = (\<lambda>st t. andThen (disconnect e TERM_REASON_OPENBMP_CONN_ERR t st) (\<lambda>st. Inr (Thrown t st)))
      in catch_throw (handleMessage (ntop6 (e_ext e)) now (new_parseBMP (rs_in st) (rs_err st))) (fail st) (\<lambda>s.
         andThen (announce_peer e s st) (\<lambda>(r, k, s, st).
         let st = (if bmp_type s = TYPE_INIT_MSG then st\<lparr>rs_client := (rs_client st)\<lparr>initRec := True\<rparr>\<rparr> else st)
         in catch_throw (dispatch e (uint (fst now)) r k s st) (fail st) (\<lambda>(p, s', st).
            andThen (send_bmp_raw (e_bus e) (cached_hash_id (rs_reader st)) p (bmp_packet s') (rs_bus st)) (\<lambda>b.
              Inr (Returned (bmp_type s \<noteq> TYPE_TERM_MSG) (st\<lparr>rs_bus := b, rs_in := sock_in s', rs_err := sock_err s'\<rparr>)))))))"

text \<open>
  The loop of the thread. \<open>run i\<close> is the flag as the thread reads it before its \<open>i\<close>-th message, \<open>clock i\<close> the time
  of that message. The first argument bounds the number of messages.
\<close>

fun readerThreadLoop :: "nat \<Rightarrow> (nat \<Rightarrow> bool) \<Rightarrow> (nat \<Rightarrow> u32 \<times> u32) \<Rightarrow> nat \<Rightarrow> ('ls, 'b) env \<Rightarrow> 'b reader_state \<Rightarrow>
    'b reader_state result option" where
  "readerThreadLoop 0 run clock i e st = None"
| "readerThreadLoop (Suc n) run clock i e st =
     (if \<not> run i then Some (Inr st)
      else (case ReadIncomingMsg e (clock i) st of
              Inl x \<Rightarrow> Some (Inl x)
            | Inr (Thrown t st) \<Rightarrow> Some (Inr st)
            | Inr (Returned False st) \<Rightarrow> Some (Inr st)
            | Inr (Returned True st) \<Rightarrow> readerThreadLoop n run clock (Suc i) e st))"

section \<open>Framing and termination\<close>

lemma catch_throw_Inr:
  "catch_throw m h f = Inr y \<longleftrightarrow> (\<exists>t. m = Inl (Throw t) \<and> h t = Inr y) \<or> (\<exists>x. m = Inr x \<and> f x = Inr y)"
  by (auto simp: catch_throw_def split: sum.splits fault.splits)

lemma announce_peer_ret:
  "ret (announce_peer e s st) (\<lambda>(r, k, s', st'). sock_in s' = sock_in s \<and> bmp_len s' = bmp_len s \<and> bmp_type s' = bmp_type s \<and>
     bmp_data s' = bmp_data s \<and> rs_client st' = rs_client st \<and> rs_cfg st' = rs_cfg st)"
  by (simp add: announce_peer_def wp Let_def case_prod_unfold)

lemmas announce_peer_fields = retD [OF announce_peer_ret, unfolded split_conv]

lemma peer_down_frame:
  assumes "peer_down e r k s st = Inr (p, s', st')"
  shows "sock_in s' = drop (unat (bmp_len s)) (sock_in s)" "bmp_len s \<le> 68021"
proof -
  obtain d s1 where "parsePeerDownEventHdr zero_down s = (True, d, s1)" "bufferBMPMessage s1 = Inr s'"
    using assms by (auto simp: peer_down_def Let_def andThen_eq_Inr split: prod.splits if_splits)
  from down_frame [OF this] show "sock_in s' = drop (unat (bmp_len s)) (sock_in s)" "bmp_len s \<le> 68021" .
qed

lemma peer_up_frame:
  assumes "peer_up e k s st = Inr (p, s', st')"
  shows "sock_in s' = drop (unat (bmp_len s)) (sock_in s) \<and> bmp_len s \<le> 68021 \<or> sock_in s' = []"
proof -
  obtain good u s1 where u: "parsePeerUpEventHdr (ntop6 (e_ext e)) zero_up s = Inr (good, u, s1)"
    "s' = s1 \<or> bufferBMPMessage s1 = Inr s'"
    using assms by (auto simp: peer_up_def Let_def andThen_eq_Inr split: prod.splits if_splits)
  then have "sock_in s' = sock_in s1" using buffer_frame(1) [of s1 s'] up_len0 [OF u(1)] by auto
  with up_frame [OF u(1)] show ?thesis by simp
qed

lemma dispatch_frame:
  assumes "dispatch e now r k s st = Inr (p, s', st')" "bmp_type s \<in> {0, 2, 3, 4, 5}"
  shows "sock_in s' = drop (unat (bmp_len s)) (sock_in s) \<and> bmp_len s \<le> 68021 \<or> sock_in s' = []"
proof -
  have buf: ?thesis if "bufferBMPMessage s = Inr s'"
    using buffer_frame(1,3) [OF that] by (simp add: word_le_nat_alt)
  consider "peer_down e r k s st = Inr (p, s', st')" | "peer_up e k s st = Inr (p, s', st')"
    | "route_mon e now k s st = Inr (p, s', st')" | "init_msg e r s st = Inr (p, s', st')" | "term_msg e r s st = Inr (p, s', st')"
    using assms by (auto simp: dispatch_def bmp_types split: if_splits)
  then show ?thesis
  proof cases
    case 1
    from peer_down_frame [OF this] show ?thesis by simp
  next
    case 2
    then show ?thesis by (rule peer_up_frame)
  next
    case 3
    then show ?thesis by (intro buf) (auto simp: route_mon_def Let_def andThen_eq_Inr split: prod.splits)
  next
    case 4
    then show ?thesis by (intro buf) (auto simp: init_msg_def handleInitMsg_def andThen_eq_Inr split: prod.splits)
  next
    case 5
    then show ?thesis by (intro buf) (auto simp: term_msg_def handleTermMsg_def andThen_eq_Inr split: prod.splits)
  qed
qed

lemma dispatch_length:
  assumes "dispatch e now r k s st = Inr (p, s', st')"
  shows "length (sock_in s') \<le> length (sock_in s)"
proof (cases "bmp_type s \<in> {0, 2, 3, 4, 5}")
  case True
  from dispatch_frame [OF assms this] show ?thesis by auto
next
  case False
  with assms have "s' = s \<or> (\<exists>x. handleStatsReport new_stats s = Inr (x, s'))"
    by (auto simp: dispatch_def bmp_types stats_report_def andThen_eq_Inr split: if_splits prod.splits)
  then show ?thesis by (auto dest: stats_length)
qed

lemma catch_throw_simps [simp]:
  "catch_throw (Inr x) h f = f x" "catch_throw (Inl (Throw t)) h f = h t"
  by (simp_all add: catch_throw_def)

text \<open>A message whose headers are read, and what is left to do for it.\<close>

lemma Read_stages:
  assumes "handleMessage (ntop6 (e_ext e)) now (new_parseBMP (rs_in st) (rs_err st)) = Inr s1"
    "announce_peer e s1 (st\<lparr>rs_reader := (rs_reader st)\<lparr>cached_hash_id := cl_hash_id (rs_client st)\<rparr>\<rparr>) = Inr (r, k, s2, st1)"
    "st2 = (if bmp_type s2 = TYPE_INIT_MSG then st1\<lparr>rs_client := (rs_client st1)\<lparr>initRec := True\<rparr>\<rparr> else st1)"
  shows "ReadIncomingMsg e now st =
    catch_throw (dispatch e (uint (fst now)) r k s2 st2)
      (\<lambda>t. andThen (disconnect e TERM_REASON_OPENBMP_CONN_ERR t st2) (\<lambda>st. Inr (Thrown t st))) (\<lambda>(p, s', st).
      andThen (send_bmp_raw (e_bus e) (cached_hash_id (rs_reader st)) p (bmp_packet s') (rs_bus st)) (\<lambda>b.
        Inr (Returned (bmp_type s2 \<noteq> TYPE_TERM_MSG) (st\<lparr>rs_bus := b, rs_in := sock_in s', rs_err := sock_err s'\<rparr>))))"
  unfolding assms(3) using assms(1,2) by (simp add: ReadIncomingMsg_def Let_def)

lemma ReadIncomingMsg_Returned:
  assumes "ReadIncomingMsg e now st = Inr (Returned b st')"
  obtains s1 r k s2 st2 p s3 st3 where
    "handleMessage (ntop6 (e_ext e)) now (new_parseBMP (rs_in st) (rs_err st)) = Inr s1"
    "dispatch e (uint (fst now)) r k s2 st2 = Inr (p, s3, st3)" "sock_in s2 = sock_in s1" "bmp_len s2 = bmp_len s1"
    "bmp_type s2 = bmp_type s1" "rs_in st' = sock_in s3" "b = (bmp_type s1 \<noteq> TYPE_TERM_MSG)" "rs_client st' = rs_client st3"
proof -
  let ?st = "st\<lparr>rs_reader := (rs_reader st)\<lparr>cached_hash_id := cl_hash_id (rs_client st)\<rparr>\<rparr>"
  let ?hm = "handleMessage (ntop6 (e_ext e)) now (new_parseBMP (rs_in st) (rs_err st))"
  obtain s1 where hm: "?hm = Inr s1"
    using assms by (cases ?hm) (auto simp: ReadIncomingMsg_def Let_def catch_throw_def andThen_eq_Inr split: fault.splits)
  obtain r k s2 st1 where an: "announce_peer e s1 ?st = Inr (r, k, s2, st1)"
    using assms by (cases "announce_peer e s1 ?st") (auto simp: ReadIncomingMsg_def Let_def hm)
  note f = announce_peer_fields [OF an]
  define st2 where "st2 = (if bmp_type s2 = TYPE_INIT_MSG then st1\<lparr>rs_client := (rs_client st1)\<lparr>initRec := True\<rparr>\<rparr> else st1)"
  note run = assms [unfolded Read_stages [OF hm an st2_def]]
  obtain p s3 st3 where d: "dispatch e (uint (fst now)) r k s2 st2 = Inr (p, s3, st3)"
    using run by (cases "dispatch e (uint (fst now)) r k s2 st2")
      (auto simp: catch_throw_def andThen_eq_Inr split: fault.splits)
  have st': "b = (bmp_type s2 \<noteq> TYPE_TERM_MSG)" "rs_in st' = sock_in s3" "rs_client st' = rs_client st3"
    using run by (auto simp: d andThen_eq_Inr)
  from that [OF hm d] st' f show ?thesis by simp
qed

lemma ReadIncomingMsg_shrinks:
  assumes "ReadIncomingMsg e now st = Inr (Returned b st')"
  shows "length (rs_in st') < length (rs_in st)"
proof -
  obtain s1 r k s2 st2 p s3 st3 where
    hm: "handleMessage (ntop6 (e_ext e)) now (new_parseBMP (rs_in st) (rs_err st)) = Inr s1" and
    d: "dispatch e (uint (fst now)) r k s2 st2 = Inr (p, s3, st3)" "sock_in s2 = sock_in s1" "rs_in st' = sock_in s3"
    using ReadIncomingMsg_Returned [OF assms] .
  from handleMessage_shrinks(1,2) [OF hm] obtain n where "0 < n" "sock_in s1 = drop n (rs_in st)" "rs_in st \<noteq> []"
    by (auto simp: new_parseBMP_def)
  then have "length (sock_in s1) < length (rs_in st)" by (cases "rs_in st") auto
  with dispatch_length [OF d(1)] d(2,3) show ?thesis by simp
qed

lemma disconnect_closed: "ret (disconnect e c t st) (\<lambda>st'. \<not> sock_open (rs_client st'))"
  by (simp add: disconnect_def wp Let_def case_prod_unfold)

lemma term_closed: "ret (term_msg e r s st) (\<lambda>(p, s', st'). \<not> sock_open (rs_client st'))"
  by (simp add: term_msg_def wp case_prod_unfold)

lemma ret_catch: "(\<And>t. ret (h t) P) \<Longrightarrow> (\<And>x. ret (f x) P) \<Longrightarrow> ret (catch_throw m h f) P"
  by (cases m) (auto simp: catch_throw_def wp split: fault.split)

lemma Thrown_closed:
  "ret (ReadIncomingMsg e now st) (\<lambda>res. case res of Thrown t st' \<Rightarrow> \<not> sock_open (rs_client st') | Returned b st' \<Rightarrow> True)"
  unfolding ReadIncomingMsg_def Let_def
proof (rule ret_catch, goal_cases)
  case (1 t)
  show ?case using disconnect_closed by (simp add: wp)
next
  case (2 s)
  show ?case
    unfolding ret_wp(3) split_beta
    by (rule ret_mono [OF ret_True], rule ret_catch) (simp_all add: wp disconnect_closed)
qed

lemma ReadIncomingMsg_closed:
  "ReadIncomingMsg e now st = Inr (Thrown t st') \<Longrightarrow> \<not> sock_open (rs_client st')"
  "ReadIncomingMsg e now st = Inr (Returned False st') \<Longrightarrow> \<not> sock_open (rs_client st')"
proof -
  show "ReadIncomingMsg e now st = Inr (Thrown t st') \<Longrightarrow> \<not> sock_open (rs_client st')"
    using Thrown_closed [of e now st] by (simp add: ret_def)
  assume "ReadIncomingMsg e now st = Inr (Returned False st')"
  then show "\<not> sock_open (rs_client st')"
  proof (rule ReadIncomingMsg_Returned)
    fix s1 r k s2 st2 p s3 st3
    assume d: "dispatch e (uint (fst now)) r k s2 st2 = Inr (p, s3, st3)" "bmp_type s2 = bmp_type s1"
      "False = (bmp_type s1 \<noteq> TYPE_TERM_MSG)" "rs_client st' = rs_client st3"
    then have "term_msg e r s2 st2 = Inr (p, s3, st3)" by (simp add: dispatch_def bmp_types)
    from retD [OF term_closed this] d(4) show ?thesis by simp
  qed
qed

lemma loop_returns:
  "length (rs_in st) < n \<Longrightarrow>
   \<exists>res. readerThreadLoop n run clock i e st = Some res \<and>
     (\<forall>st'. res = Inr st' \<longrightarrow> (\<forall>j. run j) \<longrightarrow> \<not> sock_open (rs_client st'))"
proof (induction n arbitrary: i st)
  case (Suc n)
  show ?case
  proof (cases "ReadIncomingMsg e (clock i) st")
    case (Inr res)
    show ?thesis
    proof (cases res)
      case (Thrown t st')
      with Inr ReadIncomingMsg_closed(1) [of e "clock i" st t st'] show ?thesis by auto
    next
      case (Returned b st')
      from ReadIncomingMsg_shrinks [OF Inr [unfolded this]] Suc.prems have "length (rs_in st') < n" by simp
      from Suc.IH [OF this, of "Suc i"] show ?thesis
        using Inr Returned ReadIncomingMsg_closed(2) [of e "clock i" st st'] by (cases b) auto
    qed
  qed auto
qed simp

lemma Returned_frame:
  assumes "ReadIncomingMsg e now st = Inr (Returned b st')" "hd (rs_in st) = 3" "rs_in st ! 5 \<noteq> 1"
  shows "rs_in st' = drop (msg_len (rs_in st)) (rs_in st) \<or> rs_in st' = []"
  using assms(1)
proof (rule ReadIncomingMsg_Returned)
  fix s1 r k s2 st2 p s3 st3
  assume hm: "handleMessage (ntop6 (e_ext e)) now (new_parseBMP (rs_in st) (rs_err st)) = Inr s1"
    and d: "dispatch e (uint (fst now)) r k s2 st2 = Inr (p, s3, st3)" "sock_in s2 = sock_in s1" "bmp_len s2 = bmp_len s1"
      "bmp_type s2 = bmp_type s1" "rs_in st' = sock_in s3"
  let ?s = "new_parseBMP (rs_in st) (rs_err st)"
  have inp: "sock_in ?s = rs_in st" by (simp add: new_parseBMP_def)
  have hd3: "hd (sock_in ?s) = 3" using assms(2) inp by simp
  note hdr = handleMessage_v3 [OF hm hd3]
  have "bmp_type s2 \<in> {0, 2, 3, 4, 5}"
    using hdr(3,6) assms(3) inp d(4) by (auto split: if_splits)
  from dispatch_frame [OF d(1) this] show ?thesis
    using message_frame [OF hm hd3] inp d(2,3,5) by auto
qed

section \<open>Route monitoring\<close>

text \<open>A message of version 3 with a peer header.\<close>

definition bmp_bytes :: "u8 \<Rightarrow> bytes \<Rightarrow> bytes \<Rightarrow> bytes" where
  "bmp_bytes t hdr body = [3] @ be_bytes 4 (48 + length body) @ [t] @ hdr @ body"

text \<open>The router and peer entries of the message, the peer's key and what is known about the peer.\<close>

definition first_router :: "'b reader_state \<Rightarrow> obj_router" where
  "first_router st = zero_router\<lparr>router_hash := cl_hash_id (rs_client st), router_ip_addr := cl_ip (rs_client st)\<rparr>"

definition first_peer :: "('ls, 'b) env \<Rightarrow> u32 \<times> u32 \<Rightarrow> bytes \<Rightarrow> obj_router \<Rightarrow> obj_bgp_peer" where
  "first_peer e now hdr r = (peer_of_hdr (ntop6 (e_ext e)) now hdr zero_peer)\<lparr>router_hash_id := router_hash r\<rparr>"

definition known_peer :: "'b reader_state \<Rightarrow> string \<Rightarrow> obj_bgp_peer \<Rightarrow> peer_info" where
  "known_peer st k p = (let i = lookup_peer k (rs_reader st)
     in if \<not> using_2_octet_asn i \<and> isTwoOctet p then i\<lparr>using_2_octet_asn := True\<rparr> else i)"

lemma lookup_store [simp]: "lookup_peer k (store_peer k' i rdr) = (if k = k' then i else lookup_peer k rdr)"
  by (simp add: lookup_peer_def store_peer_def update_conv)

lemma cached_store [simp]: "cached_hash_id (store_peer k i rdr) = cached_hash_id rdr"
  by (simp add: store_peer_def)

lemma read_headers:
  assumes "rs_in st = bmp_bytes t hdr body @ rest" "length hdr = 42" "length body \<le> 65493" "t \<in> {0, 1, 2}"
    and calls: "update_Router (e_bus e) (first_router st) ROUTER_ACTION_FIRST (rs_bus st) = Inr (r, b1)"
      "update_Peer (e_bus e) (first_peer e now hdr r) None None PEER_ACTION_FIRST b1 = Inr (p, b2)"
    and k: "k = peer_key (first_peer e now hdr r)"
  shows "\<exists>s1 s2 st1. handleMessage (ntop6 (e_ext e)) now (new_parseBMP (rs_in st) (rs_err st)) = Inr s1 \<and>
    announce_peer e s1 (st\<lparr>rs_reader := (rs_reader st)\<lparr>cached_hash_id := cl_hash_id (rs_client st)\<rparr>\<rparr>) = Inr (r, k, s2, st1) \<and>
    bmp_type s2 = t \<and> sock_in s2 = body @ rest \<and> bmp_len s2 = of_nat (length body) \<and> bmp_data s2 = [] \<and> peer_entry s2 = p \<and>
    bmp_packet s2 = [3] @ be_bytes 4 (48 + length body) @ [t] @ hdr \<and>
    rs_bus st1 = b2 \<and> rs_client st1 = rs_client st \<and> rs_cfg st1 = rs_cfg st \<and>
    lookup_peer k (rs_reader st1) = known_peer st k p \<and> cached_hash_id (rs_reader st1) = cl_hash_id (rs_client st)"
proof -
  let ?s = "new_parseBMP (rs_in st) (rs_err st)" and ?st = "st\<lparr>rs_reader := (rs_reader st)\<lparr>cached_hash_id := cl_hash_id (rs_client st)\<rparr>\<rparr>"
  have inp: "sock_in ?s = [3] @ be_bytes 4 (48 + length body) @ [t] @ hdr @ (body @ rest)"
    using assms(1) by (simp add: new_parseBMP_def bmp_bytes_def del: be_bytes_numeral)
  have nP: "peer_entry ?s = zero_peer" "bmp_data ?s = []" "bmp_packet ?s = []" by (simp_all add: new_parseBMP_def)
  obtain s1 where s1: "handleMessage (ntop6 (e_ext e)) now ?s = Inr s1" "sock_in s1 = body @ rest" "bmp_type s1 = t"
    "bmp_len s1 = of_nat (length body)" "bmp_data s1 = []" "peer_entry s1 = peer_of_hdr (ntop6 (e_ext e)) now hdr zero_peer"
    "bmp_packet s1 = [3] @ be_bytes 4 (48 + length body) @ [t] @ hdr"
    using handleMessage_run [OF inp assms(2), of "ntop6 (e_ext e)" now] assms(3,4) nP by auto
  have r0: "router_object (rs_reader ?st) (rs_client ?st) = first_router st"
    by (simp add: router_object_def first_router_def)
  have t4: "sint t < 4" "t \<noteq> TYPE_INIT_MSG" "t \<noteq> TYPE_PEER_UP" using assms(4) by (auto simp: bmp_types)
  have p1: "(peer_entry s1)\<lparr>router_hash_id := router_hash r\<rparr> = first_peer e now hdr r" by (simp add: s1 first_peer_def)
  have an: "announce_peer e s1 ?st = Inr (r, k, s1\<lparr>peer_entry := p\<rparr>,
      ?st\<lparr>rs_bus := b2, rs_reader := store_peer k (known_peer st k p) (rs_reader ?st)\<rparr>)"
    using t4 calls unfolding announce_peer_def r0 k
    by (simp add: s1(3) p1 Let_def known_peer_def lookup_peer_def)
  show ?thesis
    by (rule exI [of _ s1], rule exI [of _ "s1\<lparr>peer_entry := p\<rparr>"],
        rule exI [of _ "?st\<lparr>rs_bus := b2, rs_reader := store_peer k (known_peer st k p) (rs_reader ?st)\<rparr>"])
      (simp add: s1 an del: be_bytes_numeral)
qed

lemma catch_andThen:
  "catch_throw (andThen m (\<lambda>x. Inr (g x))) h f = catch_throw m h (\<lambda>x. f (g x))"
  by (simp add: catch_throw_def andThen_def split: sum.split fault.split)

lemma route_monitoring_run:
  fixes st :: "'b reader_state"
  assumes inp: "rs_in st = bmp_bytes TYPE_ROUTE_MON hdr body @ rest" "length hdr = 42"
      "body = bgp_bytes mk BGP_MSG_UPDATE (encode_update octets ap wd fas adv)" "length body \<le> 65493" "length mk = 16"
    and calls: "update_Router (e_bus e) (first_router st) ROUTER_ACTION_FIRST (rs_bus st) = Inr (r, b1)"
      "update_Peer (e_bus e) (first_peer e now hdr r) None None PEER_ACTION_FIRST b1 = Inr (p, b2)"
    and peer: "k = peer_key (first_peer e now hdr r)" "pi = known_peer st k p"
      "isAddPathEnabled (pi_add_path_capability pi) (int BGP_AFI_IPV4) (int BGP_SAFI_UNICAST) = Inr ap"
      "octets = (if using_2_octet_asn pi then 2 else 4)"
    and ok: "list_all (entry_ok True) wd" "list_all (attr_ok octets) fas" "list_all (entry_ok True) adv"
    and build: "e_redis e" "\<not> initRec (rs_client st)"
    and tuples: "ats = map (entry_tuple (ntop6 (e_ext e)) True ap) adv" "wts = map (entry_tuple (ntop6 (e_ext e)) True ap) wd"
  shows "\<exists>st' h. ReadIncomingMsg e now st = catch_throw (update_calls (e_bus e) (new_parseBGP p pi) ats wts b2) h (\<lambda>b.
        andThen (send_bmp_raw (e_bus e) (cl_hash_id (rs_client st)) p (bmp_bytes TYPE_ROUTE_MON hdr body) b) (\<lambda>b.
          Inr (Returned True (st'\<lparr>rs_bus := b\<rparr>)))) \<and>
      rs_in st' = rest \<and> rs_client st' = rs_client st \<and> rs_cfg st' = rs_cfg st \<and>
      lookup_peer k (rs_reader st') = pi\<lparr>endOfRIB := endOfRIB pi \<or> (wd = [] \<and> fas = [] \<and> adv = [])\<rparr>"
proof -
  obtain s1 s2 st1 where
    hm: "handleMessage (ntop6 (e_ext e)) now (new_parseBMP (rs_in st) (rs_err st)) = Inr s1" and
    an: "announce_peer e s1 (st\<lparr>rs_reader := (rs_reader st)\<lparr>cached_hash_id := cl_hash_id (rs_client st)\<rparr>\<rparr>) = Inr (r, k, s2, st1)" and
    s2: "bmp_type s2 = TYPE_ROUTE_MON" "sock_in s2 = body @ rest" "bmp_len s2 = of_nat (length body)" "bmp_data s2 = []"
      "peer_entry s2 = p" "bmp_packet s2 = [3] @ be_bytes 4 (48 + length body) @ [TYPE_ROUTE_MON] @ hdr" and
    st1: "rs_bus st1 = b2" "rs_client st1 = rs_client st" "rs_cfg st1 = rs_cfg st" "lookup_peer k (rs_reader st1) = pi"
      "cached_hash_id (rs_reader st1) = cl_hash_id (rs_client st)"
    using read_headers [OF inp(1,2,4) _ calls peer(1)] peer(2) by (auto simp: bmp_types)
  have l: "length body = 19 + length (encode_update octets ap wd fas adv)" using inp(3,5) by (simp add: length_bgp_bytes)
  then obtain s3 where s3: "bufferBMPMessage s2 = Inr s3" "sock_in s3 = rest" "bmp_data s3 = body"
    "bmp_packet s3 = bmp_bytes TYPE_ROUTE_MON hdr body"
    using buffer_run [OF s2(2,3) _ s2(4)] s2(6) inp(2,4) by (auto simp: bmp_bytes_def simp del: be_bytes_numeral)
  define z where "z = replicate (BMP_PACKET_BUF_SIZE + 1 - length body) (0 :: u8)"
  have buf: "bmp_buf s3 = body @ z" by (simp add: bmp_buf_def s3 z_def)
  have pbi: "p_info (new_parseBGP p pi) = pi" by (simp add: new_parseBGP_def)
  obtain pb where pb: "p_info pb = pi\<lparr>endOfRIB := endOfRIB pi \<or> (wd = [] \<and> fas = [] \<and> adv = [])\<rparr>"
    "handleUpdate True (e_ext e) (e_ls_db e) (e_ls0 e) (e_bus e) (body @ z) (length body) (new_parseBGP p pi) b2 =
      andThen (update_calls (e_bus e) (new_parseBGP p pi) ats wts b2) (\<lambda>b. Inr (False, pb, b))"
    using update_calls_run [where pb = "new_parseBGP p pi", unfolded pbi, OF peer(3,4) ok inp(5) _ refl tuples, of "e_ls_db e" "e_ls0 e" "e_bus e" z b2]
      l inp(4) unfolding inp(3) by auto
  define st2 where "st2 = st1\<lparr>rs_reader := store_peer k (p_info pb) (rs_reader st1)\<rparr>"
  have cb: "check_baseline e now' p (st1\<lparr>rs_bus := b, rs_reader := store_peer k (p_info pb) (rs_reader st1)\<rparr>) = Inr (st2\<lparr>rs_bus := b\<rparr>)" for now' b
    using build(2) by (simp add: check_baseline_def st2_def st1)
  have d: "dispatch e now' r k s2 st1 = andThen (update_calls (e_bus e) (new_parseBGP p pi) ats wts b2) (\<lambda>b. Inr (p, s3, st2\<lparr>rs_bus := b\<rparr>))" for now'
    using s2(1) build(1) by (simp add: dispatch_def bmp_types route_mon_def s2(5) s3 buf st1 pb(2) cb andThen_assoc Let_def)
  let ?st = "st2\<lparr>rs_in := rest, rs_err := sock_err s3\<rparr>"
  have st2: "st1 = (if bmp_type s2 = TYPE_INIT_MSG then st1\<lparr>rs_client := (rs_client st1)\<lparr>initRec := True\<rparr>\<rparr> else st1)"
    by (simp add: s2(1) bmp_types)
  have comm: "x\<lparr>rs_bus := b, rs_in := i, rs_err := er\<rparr> = x\<lparr>rs_in := i, rs_err := er, rs_bus := b\<rparr>"
    for x :: "'b reader_state" and b i er by (cases x) simp
  show ?thesis
    unfolding Read_stages [OF hm an st2] d catch_andThen split_conv comm
    by (rule exI [of _ ?st], rule exI) (auto simp: s2(1) bmp_types s3 st2_def st1 pb(1))
qed

section \<open>The rate check\<close>

text \<open>The flag of the rate check is set before it is read, as long as the bus counts from zero.\<close>

definition rate_inv :: "reader \<Rightarrow> bool" where
  "rate_inv rdr \<longleftrightarrow> 0 \<le> maxRIBdumpRate rdr \<and> (isBelowThresholdDumpRate rdr = None \<longrightarrow> maxRIBdumpRate rdr = 0) \<and>
     (isBelowThresholdDumpRate rdr = Some True \<longrightarrow> belowThresholdInitTime rdr \<noteq> None)"

lemma checkRIBdumpRate_tot:
  assumes "0 \<le> seq" "rate_inv rdr"
  shows "tot (checkRIBdumpRate ts seq rdr) (\<lambda>(d, rdr'). rate_inv rdr')"
proof (cases "hasPrevRIBdumpTime rdr \<and> sint (ts - prevRIBdumpTime rdr) > 0")
  case True
  let ?rate = "int_div seq (sint (ts - prevRIBdumpTime rdr))"
  have pos: "0 \<le> ?rate" using assms(1) True by (simp add: int_div_def pos_imp_zdiv_nonneg_iff)
  show ?thesis
  proof (cases "100 * ?rate < 15 * max ?rate (maxRIBdumpRate rdr)")
    case low: True
    with pos assms(2) obtain below where b: "isBelowThresholdDumpRate rdr = Some below"
      by (cases "isBelowThresholdDumpRate rdr") (auto simp: rate_inv_def)
    with True low pos assms(2) show ?thesis
      by (cases below) (auto simp: checkRIBdumpRate_def Let_def wp rate_inv_def)
  next
    case False
    with True pos assms(2) show ?thesis by (auto simp: checkRIBdumpRate_def Let_def wp rate_inv_def)
  qed
next
  case False
  with assms(2) show ?thesis by (auto simp: checkRIBdumpRate_def Let_def wp rate_inv_def)
qed

section \<open>Properties\<close>

text \<open>A router that has just connected, with the bus that counts.\<close>

definition sample_env :: "(unit, nat \<times> nat) env" where
  "sample_env = \<lparr>e_redis = True, e_ext = plain_ext, e_ls_db = (\<lambda>_ l _ b. Inr (l, b)), e_ls0 = (), e_bus = count_bus\<rparr>"

definition new_session :: "bytes \<Rightarrow> 'b \<Rightarrow> 'b reader_state" where
  "new_session inp b = \<lparr>rs_client = \<lparr>cl_hash_id = replicate 16 0, initRec = False, cl_ip = ''198.51.100.7'', startTime = 0, sock_open = True\<rparr>,
     rs_cfg = \<lparr>pat_enabled = False, c_hash_id = replicate 16 0, router_baseline_time = Map.empty\<rparr>, rs_reader = new_BMPReader,
     rs_in = inp, rs_err = False, rs_bus = b\<rparr>"

text \<open>
  C9. The reader stays aligned with the stream: every message of version 3 that is not a statistics report
  and does not end the connection takes exactly its announced length from the socket, whatever it contains
  and however its content is rejected, unless the stream has ended.
\<close>

theorem reader_framing:
  assumes "ReadIncomingMsg e now st = Inr (Returned b st')" "hd (rs_in st) = 3" "rs_in st ! 5 \<noteq> 1"
  shows "rs_in st' = drop (msg_len (rs_in st)) (rs_in st) \<or> rs_in st' = []"
  using Returned_frame [OF assms] .

theorem reader_framing_witness:
  "\<exists>st'. ReadIncomingMsg sample_env (0, 0) (new_session [3, 0, 0, 0, 6, 4, 9] (0, 0)) = Inr (Returned True st') \<and> rs_in st' = [9]"
proof -
  let ?st = "new_session [3, 0, 0, 0, 6, 4, 9] (0, 0)"
  obtain st' where st': "ReadIncomingMsg sample_env (0, 0) ?st = Inr (Returned True st')" "rs_in st' \<noteq> []"
    by (simp add: ReadIncomingMsg_def new_session_def sample_env_def new_parseBMP_def handleMessage_def parseBMPv3_def Recv_taken
        recv_cnt_def bmp_lens bmp_types be_val_def BGP_MAX_MSG_SIZE_def announce_peer_def dispatch_def init_msg_def handleInitMsg_def
        bufferBMPMessage_def tlv_loop.simps count_bus_def router_object_def zero_router_def Let_def)
  moreover have "msg_len (rs_in ?st) = 6" by (simp add: msg_len_def new_session_def be_val_def)
  ultimately show ?thesis
    using reader_framing [OF st'(1)] by (auto simp: new_session_def)
qed



text \<open>
  The check of the dump rate never reads a member that has no value: with sequence numbers that do not
  wrap to negative numbers, any sequence of checks from a new reader returns.
\<close>

theorem rate_check_initialised:
  assumes "list_all (\<lambda>(ts, seq). 0 \<le> seq) calls"
  shows "okay (foldl (\<lambda>m (ts, seq). andThen m (\<lambda>rdr. andThen (checkRIBdumpRate ts seq rdr) (\<lambda>(d, rdr). Inr rdr))) (Inr new_BMPReader) calls)"
proof -
  let ?f = "\<lambda>m (ts, seq). andThen m (\<lambda>rdr. andThen (checkRIBdumpRate ts seq rdr) (\<lambda>(d, rdr). Inr rdr))"
  have keep: "tot m rate_inv \<Longrightarrow> list_all (\<lambda>(ts, seq). 0 \<le> seq) calls \<Longrightarrow> tot (foldl ?f m calls) rate_inv" for m
  proof (induction calls arbitrary: m)
    case (Cons c calls)
    obtain ts seq where c: "c = (ts, seq)" by (cases c)
    have "tot (?f m c) rate_inv"
      using Cons.prems checkRIBdumpRate_tot [of seq _ ts] by (fastforce simp: c tot_iff wp)
    with Cons show ?case by simp
  qed simp
  have "tot (Inr new_BMPReader) rate_inv" by (simp add: wp rate_inv_def new_BMPReader_def)
  from tot_okay [OF keep [OF this assms]] show ?thesis .
qed

theorem rate_check_initialised_example:
  "okay (foldl (\<lambda>m (ts, seq). andThen m (\<lambda>rdr. andThen (checkRIBdumpRate ts seq rdr) (\<lambda>(d, rdr). Inr rdr))) (Inr new_BMPReader)
     [(10, 100), (11, 200), (20, 5), (30, 0)])"
  using rate_check_initialised [of "[(10, 100), (11, 200), (20, 5), (30, 0)]"] by simp

end
