(* ===== verification/LinkState.thy ===== *)
theory LinkState
  imports ParseBgp Md5
begin

text \<open>
  \<open>bgp/linkstate/MPLinkState.cpp\<close>: link-state routes in MP\_REACH\_NLRI and MP\_UNREACH\_NLRI. A route is a node, a
  link or a prefix; it holds a TLV with the descriptors of its node or nodes, and a link or prefix more
  descriptors behind it, each a TLV. \<open>parsed_data_ls\<close> collects the routes. The lengths of the source are kept:
  the counters of the outer loop are 16 bits wide and wrap around, the remaining length of a route is an
  \<open>int\<close> and may become negative.
\<close>

section \<open>Data\<close>

record parsed_data_ls =
  ls_nodes :: "obj_ls_node list"
  ls_links :: "obj_ls_link list"
  ls_prefixes :: "obj_ls_prefix list"

definition no_ls_data :: parsed_data_ls where
  "no_ls_data = \<lparr>ls_nodes = [], ls_links = [], ls_prefixes = []\<rparr>"

text \<open>The link-state part of \<open>parsed_update_data\<close>; an attribute is an array of 255 bytes.\<close>

record ls_info =
  ls_attrs :: "nat \<rightharpoonup> bytes"
  ls :: parsed_data_ls
  ls_withdrawn :: parsed_data_ls

definition no_ls_info :: ls_info where
  "no_ls_info = \<lparr>ls_attrs = (\<lambda>_. None), ls = no_ls_data, ls_withdrawn = no_ls_data\<rparr>"

definition NLRI_TYPE_NODE :: nat where "NLRI_TYPE_NODE = 1"
definition NLRI_TYPE_LINK :: nat where "NLRI_TYPE_LINK = 2"
definition NLRI_TYPE_IPV4_PREFIX :: nat where "NLRI_TYPE_IPV4_PREFIX = 3"
definition NLRI_TYPE_IPV6_PREFIX :: nat where "NLRI_TYPE_IPV6_PREFIX = 4"

definition NODE_DESCR_LOCAL_DESCR :: nat where "NODE_DESCR_LOCAL_DESCR = 256"
definition NODE_DESCR_REMOTE_DESCR :: nat where "NODE_DESCR_REMOTE_DESCR = 257"
definition NODE_DESCR_AS :: nat where "NODE_DESCR_AS = 512"
definition NODE_DESCR_BGP_LS_ID :: nat where "NODE_DESCR_BGP_LS_ID = 513"
definition NODE_DESCR_OSPF_AREA_ID :: nat where "NODE_DESCR_OSPF_AREA_ID = 514"
definition NODE_DESCR_IGP_ROUTER_ID :: nat where "NODE_DESCR_IGP_ROUTER_ID = 515"
definition NODE_DESCR_BGP_ROUTER_ID :: nat where "NODE_DESCR_BGP_ROUTER_ID = 516"

definition LINK_DESCR_ID :: nat where "LINK_DESCR_ID = 258"
definition LINK_DESCR_IPV4_INTF_ADDR :: nat where "LINK_DESCR_IPV4_INTF_ADDR = 259"
definition LINK_DESCR_IPV4_NEI_ADDR :: nat where "LINK_DESCR_IPV4_NEI_ADDR = 260"
definition LINK_DESCR_IPV6_INTF_ADDR :: nat where "LINK_DESCR_IPV6_INTF_ADDR = 261"
definition LINK_DESCR_IPV6_NEI_ADDR :: nat where "LINK_DESCR_IPV6_NEI_ADDR = 262"
definition LINK_DESCR_MT_ID :: nat where "LINK_DESCR_MT_ID = 263"

definition PREFIX_DESCR_MT_ID :: nat where "PREFIX_DESCR_MT_ID = 263"
definition PREFIX_DESCR_OSPF_ROUTE_TYPE :: nat where "PREFIX_DESCR_OSPF_ROUTE_TYPE = 264"
definition PREFIX_DESCR_IP_REACH_INFO :: nat where "PREFIX_DESCR_IP_REACH_INFO = 265"

lemmas ls_type_defs =
  NLRI_TYPE_NODE_def NLRI_TYPE_LINK_def NLRI_TYPE_IPV4_PREFIX_def NLRI_TYPE_IPV6_PREFIX_def
  NODE_DESCR_LOCAL_DESCR_def NODE_DESCR_REMOTE_DESCR_def NODE_DESCR_AS_def NODE_DESCR_BGP_LS_ID_def
  NODE_DESCR_OSPF_AREA_ID_def NODE_DESCR_IGP_ROUTER_ID_def NODE_DESCR_BGP_ROUTER_ID_def
  LINK_DESCR_ID_def LINK_DESCR_IPV4_INTF_ADDR_def LINK_DESCR_IPV4_NEI_ADDR_def LINK_DESCR_IPV6_INTF_ADDR_def
  LINK_DESCR_IPV6_NEI_ADDR_def LINK_DESCR_MT_ID_def
  PREFIX_DESCR_MT_ID_def PREFIX_DESCR_OSPF_ROUTE_TYPE_def PREFIX_DESCR_IP_REACH_INFO_def

definition decodeNlriProtocolId :: "u8 \<Rightarrow> string" where
  "decodeNlriProtocolId proto_id =
     (if proto_id = 4 then ''Direct'' else if proto_id = 5 then ''Static''
      else if proto_id = 1 then ''IS-IS_L1'' else if proto_id = 2 then ''IS-IS_L2''
      else if proto_id = 3 then ''OSPFv2'' else if proto_id = 6 then ''OSPFv3''
      else if proto_id = 7 then ''EPE'' else '''')"

text \<open>A 32-bit number as it lies in the memory of the host, and the number in such bytes.\<close>

definition mem32 :: "u32 \<Rightarrow> bytes" where
  "mem32 v = rev (be_bytes 4 (unat v))"

definition num32 :: "bytes \<Rightarrow> u32" where
  "num32 bs = of_nat (le_val bs)"

text \<open>
  The head the three descriptor parsers share. A TLV that is cut short or announces more than is left takes
  all that is left; otherwise \<open>body\<close> gets its type, its length and the bytes behind its header. The number is
  the count of the bytes that were read.
\<close>

definition sub_tlv :: "(nat \<Rightarrow> nat \<Rightarrow> bytes \<Rightarrow> (nat \<times> 'i) result) \<Rightarrow> bytes \<Rightarrow> nat \<Rightarrow> 'i \<Rightarrow> (nat \<times> 'i) result" where
  "sub_tlv body data data_len info =
     (if data_len < 4 then Inr (data_len, info)
      else andThen (ntoh 2 data) (\<lambda>t.
           andThen (ntoh 2 (drop 2 data)) (\<lambda>len.
             if len > data_len - 4 then Inr (data_len, info) else body t len (drop 4 data))))"

lemma sub_tlv_bounds:
  assumes "\<And>t len d. len + 4 \<le> n \<Longrightarrow> ret (body t len d) (\<lambda>(k, _). 0 < k \<and> k \<le> 4 + len + m)"
  shows "ret (sub_tlv body data n info) (\<lambda>(k, _). k \<le> n + m \<and> (0 < n \<longrightarrow> 0 < k))"
proof -
  have "ret (body t len d) (\<lambda>(k, _). k \<le> n + m \<and> 0 < k)" if "len + 4 \<le> n" for t len d
    by (rule ret_mono [OF assms [OF that, of t d]]) (use that in auto)
  then show ?thesis by (auto simp: sub_tlv_def wp)
qed

section \<open>Node descriptors\<close>

text \<open>\<open>bgp_router_id\<close> is not converted and kept in the order of the message.\<close>

record node_descriptor =
  nd_asn :: u32
  nd_bgp_ls_id :: u32
  nd_igp_router_id :: bytes
  nd_ospf_area_Id :: bytes
  nd_bgp_router_id :: bytes
  nd_hash_bin :: bytes

definition zero_node_descr :: node_descriptor where
  "zero_node_descr = \<lparr>nd_asn = 0, nd_bgp_ls_id = 0, nd_igp_router_id = replicate 8 0, nd_ospf_area_Id = replicate 4 0,
     nd_bgp_router_id = replicate 4 0, nd_hash_bin = replicate 16 0\<rparr>"

definition node_descr :: "nat \<Rightarrow> node_descriptor \<Rightarrow> nat \<Rightarrow> nat \<Rightarrow> bytes \<Rightarrow> (nat \<times> node_descriptor) result" where
  "node_descr data_len info t len data =
     (if t = NODE_DESCR_AS then
        if len \<noteq> 4 then Inr (4 + len, info)
        else andThen (ntoh 4 data) (\<lambda>v. Inr (4 + 4, info\<lparr>nd_asn := of_nat v\<rparr>))
      else if t = NODE_DESCR_BGP_LS_ID then
        if len \<noteq> 4 then Inr (4 + len, info)
        else andThen (ntoh 4 data) (\<lambda>v. Inr (4 + 4, info\<lparr>nd_bgp_ls_id := of_nat v\<rparr>))
      else if t = NODE_DESCR_OSPF_AREA_ID then
        if len \<noteq> 4 then Inr (4 + (if len \<le> data_len then len else data_len), info)
        else andThen (rd 4 data) (\<lambda>b. Inr (4 + 4, info\<lparr>nd_ospf_area_Id := b\<rparr>))
      else if t = NODE_DESCR_IGP_ROUTER_ID then
        if len > data_len \<or> len > 8 then Inr (4 + len, info)
        else andThen (rd len data) (\<lambda>b. Inr (4 + len, info\<lparr>nd_igp_router_id := poke 0 b (replicate 8 0)\<rparr>))
      else if t = NODE_DESCR_BGP_ROUTER_ID then
        if len \<noteq> 4 then Inr (4 + (if len \<le> data_len then len else data_len), info)
        else andThen (rd 4 data) (\<lambda>b. Inr (4 + 4, info\<lparr>nd_bgp_router_id := b\<rparr>))
      else Inr (4 + len, info))"

definition parseDescrLocalRemoteNode :: "bytes \<Rightarrow> nat \<Rightarrow> node_descriptor \<Rightarrow> (nat \<times> node_descriptor) result" where
  "parseDescrLocalRemoteNode data data_len info = sub_tlv (node_descr data_len info) data data_len info"

lemma node_descr_ret: "len \<le> data_len \<Longrightarrow> ret (node_descr data_len info t len d) (\<lambda>(k, _). k = 4 + len)"
  by (simp add: node_descr_def wp)

lemma parseDescrNode_bounds: "ret (parseDescrLocalRemoteNode data n info) (\<lambda>(k, _). k \<le> n \<and> (0 < n \<longrightarrow> 0 < k))"
  unfolding parseDescrLocalRemoteNode_def
  by (rule sub_tlv_bounds [where m = 0, simplified]) (auto intro!: ret_mono [OF node_descr_ret])

text \<open>The loop over the descriptors of a node: \<open>len\<close> bytes of the TLV are left, \<open>data_len\<close> of the route.\<close>

function node_descr_loop :: "bytes \<Rightarrow> nat \<Rightarrow> int \<Rightarrow> node_descriptor \<Rightarrow> (bytes \<times> int \<times> node_descriptor) result" where
  "node_descr_loop data len data_len info =
     (if len > 0
      then andThen (parseDescrLocalRemoteNode data len info) (\<lambda>(n, info).
             node_descr_loop (drop n data) (len - n) (data_len - int n) info)
      else Inr (data, data_len, info))"
  by pat_completeness auto
termination
  by (relation "measure (\<lambda>(_, len, _, _). len)") (auto dest!: retD [OF parseDescrNode_bounds])

declare node_descr_loop.simps [simp del]

definition genNodeHashId :: "node_descriptor \<Rightarrow> node_descriptor" where
  "genNodeHashId info = info\<lparr>nd_hash_bin :=
     hash_of [nd_igp_router_id info, mem32 (nd_bgp_ls_id info), mem32 (nd_asn info), nd_ospf_area_Id info]\<rparr>"

section \<open>Nodes\<close>

definition parseNlriNode :: "bytes \<Rightarrow> nat \<Rightarrow> u64 \<Rightarrow> u8 \<Rightarrow> parsed_data_ls \<Rightarrow> parsed_data_ls result" where
  "parseNlriNode data data_len i proto_id lsd =
     (if data_len < 4 then Inr lsd
      else andThen (ntoh 2 data) (\<lambda>t.
           andThen (ntoh 2 (drop 2 data)) (\<lambda>len.
             let data_len = int data_len - 4
             in if int len > data_len \<or> t \<noteq> NODE_DESCR_LOCAL_DESCR then Inr lsd
                else andThen (node_descr_loop (drop 4 data) len data_len zero_node_descr) (\<lambda>(_, _, info).
                  let info = genNodeHashId info
                  in Inr (lsd\<lparr>ls_nodes := ls_nodes lsd @ [zero_ls_node
                       \<lparr>node_hash := nd_hash_bin info, node_id := i, node_isIPv4 := True, node_asn := nd_asn info,
                        node_bgp_ls_id := nd_bgp_ls_id info, node_igp_router_id := nd_igp_router_id info,
                        node_ospf_area_Id := nd_ospf_area_Id info,
                        node_protocol := snprintf 32 (decodeNlriProtocolId proto_id)\<rparr>]\<rparr>)))))"

section \<open>Links\<close>

record link_descriptor =
  ld_local_id :: u32
  ld_remote_id :: u32
  ld_intf_addr :: bytes
  ld_nei_addr :: bytes
  ld_mt_id :: u32
  ld_isIPv4 :: bool

definition zero_link_descr :: link_descriptor where
  "zero_link_descr = \<lparr>ld_local_id = 0, ld_remote_id = 0, ld_intf_addr = replicate 16 0, ld_nei_addr = replicate 16 0,
     ld_mt_id = 0, ld_isIPv4 = False\<rparr>"

text \<open>\<open>memcpy\<close> of two to four bytes into a number, \<open>SWAP_BYTES\<close> of all four, and a shift.\<close>

definition read_mt_id :: "bytes \<Rightarrow> u32 \<Rightarrow> u32" where
  "read_mt_id bs old = drop_bit 16 (num32 (SWAP_BYTES (poke 0 bs (mem32 old)) 4))"

definition link_descr :: "nat \<Rightarrow> link_descriptor \<Rightarrow> nat \<Rightarrow> nat \<Rightarrow> bytes \<Rightarrow> (nat \<times> link_descriptor) result" where
  "link_descr data_len info t len data =
     (let skip = (if len \<le> data_len then len else data_len)
      in if t = LINK_DESCR_ID then
           if len \<noteq> 8 then Inr (4 + len, info)
           else andThen (ntoh 4 data) (\<lambda>l. andThen (ntoh 4 (drop 4 data)) (\<lambda>r.
                  Inr (4 + 8, info\<lparr>ld_local_id := of_nat l, ld_remote_id := of_nat r\<rparr>)))
         else if t = LINK_DESCR_MT_ID then
           if len < 2 then Inr (4 + len, info)
           else if len > 4 then Inr (4 + len, info\<lparr>ld_mt_id := 0\<rparr>)
           else andThen (rd len data) (\<lambda>b. Inr (4 + len, info\<lparr>ld_mt_id := read_mt_id b (ld_mt_id info)\<rparr>))
         else if t = LINK_DESCR_IPV4_INTF_ADDR then
           let info = info\<lparr>ld_isIPv4 := True\<rparr>
           in if len \<noteq> 4 then Inr (4 + skip, info)
              else andThen (rd 4 data) (\<lambda>b. Inr (4 + 4, info\<lparr>ld_intf_addr := poke 0 b (ld_intf_addr info)\<rparr>))
         else if t = LINK_DESCR_IPV6_INTF_ADDR then
           let info = info\<lparr>ld_isIPv4 := False\<rparr>
           in if len \<noteq> 16 then Inr (4 + skip, info)
              else andThen (rd 16 data) (\<lambda>b. Inr (4 + 16, info\<lparr>ld_intf_addr := poke 0 b (ld_intf_addr info)\<rparr>))
         else if t = LINK_DESCR_IPV4_NEI_ADDR then
           let info = info\<lparr>ld_isIPv4 := True\<rparr>
           in if len \<noteq> 4 then Inr (4 + skip, info)
              else andThen (rd 4 data) (\<lambda>b. Inr (4 + 4, info\<lparr>ld_nei_addr := poke 0 b (ld_nei_addr info)\<rparr>))
         else if t = LINK_DESCR_IPV6_NEI_ADDR then
           let info = info\<lparr>ld_isIPv4 := False\<rparr>
           in if len \<noteq> 16 then Inr (4 + skip, info)
              else andThen (rd 16 data) (\<lambda>b. Inr (4 + 16, info\<lparr>ld_nei_addr := poke 0 b (ld_nei_addr info)\<rparr>))
         else Inr (4 + len, info))"

definition parseDescrLink :: "bytes \<Rightarrow> nat \<Rightarrow> link_descriptor \<Rightarrow> (nat \<times> link_descriptor) result" where
  "parseDescrLink data data_len info = sub_tlv (link_descr data_len info) data data_len info"

lemma link_descr_ret: "len \<le> data_len \<Longrightarrow> ret (link_descr data_len info t len d) (\<lambda>(k, _). k = 4 + len)"
  by (simp add: link_descr_def wp Let_def)

lemma parseDescrLink_bounds: "ret (parseDescrLink data n info) (\<lambda>(k, _). k \<le> n \<and> (0 < n \<longrightarrow> 0 < k))"
  unfolding parseDescrLink_def
  by (rule sub_tlv_bounds [where m = 0, simplified]) (auto intro!: ret_mono [OF link_descr_ret])

function link_descr_loop :: "bytes \<Rightarrow> int \<Rightarrow> link_descriptor \<Rightarrow> link_descriptor result" where
  "link_descr_loop data data_len info =
     (if data_len > 0
      then andThen (parseDescrLink data (nat data_len) info) (\<lambda>(n, info).
             link_descr_loop (drop n data) (data_len - int n) info)
      else Inr info)"
  by pat_completeness auto
termination
  by (relation "measure (\<lambda>(_, data_len, _). nat data_len)") (auto dest!: retD [OF parseDescrLink_bounds])

declare link_descr_loop.simps [simp del]

text \<open>
  One round of the loop over the local and the remote node. \<open>None\<close> is the early return, which leaves the
  parsed routes as they are.
\<close>

definition set_link_node :: "nat \<Rightarrow> node_descriptor \<Rightarrow> obj_ls_link \<Rightarrow> obj_ls_link" where
  "set_link_node t info l =
     (if t = NODE_DESCR_LOCAL_DESCR then
        l\<lparr>local_node_hash_id := nd_hash_bin info, link_ospf_area_Id := nd_ospf_area_Id info,
          link_bgp_ls_id := nd_bgp_ls_id info, local_node_asn := nd_asn info,
          link_igp_router_id := nd_igp_router_id info, local_bgp_router_id := nd_bgp_router_id info\<rparr>
      else if t = NODE_DESCR_REMOTE_DESCR then
        l\<lparr>remote_node_hash_id := nd_hash_bin info, remote_igp_router_id := nd_igp_router_id info,
          remote_node_asn := nd_asn info, remote_bgp_router_id := nd_bgp_router_id info\<rparr>
      else l)"

definition link_node :: "bytes \<Rightarrow> int \<Rightarrow> obj_ls_link \<Rightarrow> (bytes \<times> int \<times> obj_ls_link) option result" where
  "link_node data data_len l =
     andThen (ntoh 2 data) (\<lambda>t.
     andThen (ntoh 2 (drop 2 data)) (\<lambda>len.
       let data_len = data_len - 4
       in if int len > data_len then Inr None
          else andThen (node_descr_loop (drop 4 data) len data_len zero_node_descr) (\<lambda>(data, data_len, info).
            Inr (Some (data, data_len, set_link_node t (genNodeHashId info) l)))))"

definition parseNlriLink :: "bytes \<Rightarrow> nat \<Rightarrow> u64 \<Rightarrow> u8 \<Rightarrow> parsed_data_ls \<Rightarrow> parsed_data_ls result" where
  "parseNlriLink data data_len i proto_id lsd =
     (if data_len < 4 then Inr lsd
      else let l = zero_ls_link\<lparr>link_id := i, link_protocol := snprintf 32 (decodeNlriProtocolId proto_id)\<rparr>
      in andThen (link_node data (int data_len) l) (\<lambda>r.
           case r of None \<Rightarrow> Inr lsd | Some (data, data_len, l) \<Rightarrow>
         andThen (link_node data data_len l) (\<lambda>r.
           case r of None \<Rightarrow> Inr lsd | Some (data, data_len, l) \<Rightarrow>
         andThen (link_descr_loop data data_len zero_link_descr) (\<lambda>info.
           Inr (lsd\<lparr>ls_links := ls_links lsd @ [l
             \<lparr>link_isIPv4 := ld_isIPv4 info, link_mt_id := ld_mt_id info, local_link_id := ld_local_id info,
              remote_link_id := ld_remote_id info, intf_addr := ld_intf_addr info, nei_addr := ld_nei_addr info\<rparr>]\<rparr>)))))"

section \<open>Prefixes\<close>

record prefix_descriptor =
  pd_ospf_route_type :: string
  pd_mt_id :: u32
  pd_prefix :: bytes
  pd_prefix_bcast :: bytes
  pd_prefix_len :: u8

definition zero_prefix_descr :: prefix_descriptor where
  "zero_prefix_descr = \<lparr>pd_ospf_route_type = [], pd_mt_id = 0, pd_prefix = replicate 16 0, pd_prefix_bcast = replicate 16 0,
     pd_prefix_len = 0\<rparr>"

definition ls_bcast :: "bool \<Rightarrow> u8 \<Rightarrow> bytes \<Rightarrow> bytes \<Rightarrow> bytes" where
  "ls_bcast v4 pl bin old =
     (let l = unat pl
      in if v4 then
           if l < 32 then poke 0 (bcast_u32 pl bin) old else bin
         else if l < 128 then
           if l \<ge> 64 then poke 8 (bcast_u64 (l - 64) (drop 8 bin)) (poke 0 (take 8 bin) old)
           else poke 0 (bcast_u64 l bin) (poke 8 (replicate 8 0xFF) old)
         else bin)"

definition route_type_text :: "u8 \<Rightarrow> string" where
  "route_type_text b =
     (if b = 3 then ''Ext-1'' else if b = 4 then ''Ext-2'' else if b = 2 then ''Inter'' else if b = 1 then ''Intra''
      else if b = 5 then ''NSSA-1'' else if b = 6 then ''NSSA-2'' else ''Intra'')"

definition prefix_descr :: "bool \<Rightarrow> prefix_descriptor \<Rightarrow> nat \<Rightarrow> nat \<Rightarrow> bytes \<Rightarrow> (nat \<times> prefix_descriptor) result" where
  "prefix_descr v4 info t len data =
     (if t = PREFIX_DESCR_IP_REACH_INFO then
        if len < 1 then Inr (4 + len, info)
        else andThen (rd_u8 data) (\<lambda>pl.
             andThen (rd (len - 1) (drop 1 data)) (\<lambda>b.
             andThen (copy16 b) (\<lambda>bin.
               Inr (4 + len, info\<lparr>pd_prefix_len := pl, pd_prefix := bin,
                 pd_prefix_bcast := ls_bcast v4 pl bin (pd_prefix_bcast info)\<rparr>))))
      else if t = PREFIX_DESCR_MT_ID then
        if len < 2 then Inr (4 + len, info)
        else if len > 4 then Inr (4 + len, info\<lparr>pd_mt_id := 0\<rparr>)
        else andThen (rd len data) (\<lambda>b. Inr (4 + len, info\<lparr>pd_mt_id := read_mt_id b (pd_mt_id info)\<rparr>))
      else if t = PREFIX_DESCR_OSPF_ROUTE_TYPE then
        andThen (rd_u8 data) (\<lambda>b. Inr (4 + 1, info\<lparr>pd_ospf_route_type := snprintf 32 (route_type_text b)\<rparr>))
      else Inr (4 + len, info))"

definition parseDescrPrefix :: "bytes \<Rightarrow> nat \<Rightarrow> prefix_descriptor \<Rightarrow> bool \<Rightarrow> (nat \<times> prefix_descriptor) result" where
  "parseDescrPrefix data data_len info v4 = sub_tlv (prefix_descr v4 info) data data_len info"

lemma copy16_wp [wp]:
  "ret (copy16 b) P = (length b \<le> 16 \<longrightarrow> P (pad16 b))" "tot (copy16 b) P = (length b \<le> 16 \<and> P (pad16 b))"
  by (simp_all add: copy16_def wp)

lemma prefix_descr_ret: "ret (prefix_descr v4 info t len d) (\<lambda>(k, _). 0 < k \<and> k \<le> 4 + len + 1)"
  by (simp add: prefix_descr_def wp)

lemma parseDescrPrefix_bounds: "ret (parseDescrPrefix data n info v4) (\<lambda>(k, _). k \<le> n + 1 \<and> (0 < n \<longrightarrow> 0 < k))"
  unfolding parseDescrPrefix_def by (rule sub_tlv_bounds [OF prefix_descr_ret])

function prefix_descr_loop :: "bool \<Rightarrow> bytes \<Rightarrow> int \<Rightarrow> prefix_descriptor \<Rightarrow> prefix_descriptor result" where
  "prefix_descr_loop v4 data data_len info =
     (if data_len > 0
      then andThen (parseDescrPrefix data (nat data_len) info v4) (\<lambda>(n, info).
             prefix_descr_loop v4 (drop n data) (data_len - int n) info)
      else Inr info)"
  by pat_completeness auto
termination
  by (relation "measure (\<lambda>(_, _, data_len, _). nat data_len)") (auto dest!: retD [OF parseDescrPrefix_bounds])

declare prefix_descr_loop.simps [simp del]

definition parseNlriPrefix :: "bytes \<Rightarrow> nat \<Rightarrow> u64 \<Rightarrow> u8 \<Rightarrow> bool \<Rightarrow> parsed_data_ls \<Rightarrow> parsed_data_ls result" where
  "parseNlriPrefix data data_len i proto_id v4 lsd =
     (if data_len < 4 then Inr lsd
      else andThen (ntoh 2 data) (\<lambda>t.
           andThen (ntoh 2 (drop 2 data)) (\<lambda>len.
             let data_len = int data_len - 4
             in if int len > data_len \<or> t \<noteq> NODE_DESCR_LOCAL_DESCR then Inr lsd
                else andThen (node_descr_loop (drop 4 data) len data_len zero_node_descr) (\<lambda>(data, data_len, local_node).
                     let local_node = genNodeHashId local_node
                     in andThen (prefix_descr_loop v4 data data_len zero_prefix_descr) (\<lambda>info.
                       Inr (lsd\<lparr>ls_prefixes := ls_prefixes lsd @ [zero_ls_prefix
                         \<lparr>lsp_id := i, lsp_protocol := snprintf 32 (decodeNlriProtocolId proto_id), lsp_isIPv4 := v4,
                          lsp_prefix_len := pd_prefix_len info, lsp_mt_id := pd_mt_id info,
                          lsp_ospf_area_Id := nd_ospf_area_Id local_node, lsp_bgp_ls_id := nd_bgp_ls_id local_node,
                          lsp_igp_router_id := nd_igp_router_id local_node, lsp_local_node_hash_id := nd_hash_bin local_node,
                          lsp_prefix_bin := pd_prefix info, lsp_prefix_bcast_bin := pd_prefix_bcast info,
                          lsp_ospf_route_type := pd_ospf_route_type info\<rparr>]\<rparr>))))))"

section \<open>Routes\<close>

text \<open>\<open>None\<close>: the type of the route is not known.\<close>

definition parse_ls_route :: "nat \<Rightarrow> bytes \<Rightarrow> nat \<Rightarrow> u64 \<Rightarrow> u8 \<Rightarrow> parsed_data_ls \<Rightarrow> parsed_data_ls option result" where
  "parse_ls_route t data len i proto_id lsd =
     (if t = NLRI_TYPE_NODE then andThen (parseNlriNode data len i proto_id lsd) (\<lambda>l. Inr (Some l))
      else if t = NLRI_TYPE_LINK then andThen (parseNlriLink data len i proto_id lsd) (\<lambda>l. Inr (Some l))
      else if t = NLRI_TYPE_IPV4_PREFIX then andThen (parseNlriPrefix data len i proto_id True lsd) (\<lambda>l. Inr (Some l))
      else if t = NLRI_TYPE_IPV6_PREFIX then andThen (parseNlriPrefix data len i proto_id False lsd) (\<lambda>l. Inr (Some l))
      else Inr None)"

function parseLinkStateNlriData :: "bytes \<Rightarrow> nat \<Rightarrow> nat \<Rightarrow> parsed_data_ls \<Rightarrow> parsed_data_ls result" where
  "parseLinkStateNlriData data len nlri_len_read lsd =
     (if nlri_len_read < len
      then andThen (ntoh 2 data) (\<lambda>t.
           andThen (ntoh 2 (drop 2 data)) (\<lambda>l.
             if l > len then Inr lsd
             else andThen (rd_u8 (drop 4 data)) (\<lambda>proto_id.
                  andThen (ntoh 8 (drop 5 data)) (\<lambda>i.
                    let l = (l + 2 ^ 16 - 9) mod 2 ^ 16
                    in andThen (parse_ls_route t (drop 13 data) l (of_nat i) proto_id lsd) (\<lambda>r.
                         case r of None \<Rightarrow> Inr lsd
                         | Some lsd \<Rightarrow> parseLinkStateNlriData (drop (13 + l) data) len ((nlri_len_read + 13 + l) mod 2 ^ 16) lsd)))))
      else Inr lsd)"
  by pat_completeness auto
termination
  by (relation "measure (\<lambda>(data, _, _, _). length data)") (auto dest!: ntoh_Inr_bound)

declare parseLinkStateNlriData.simps [simp del]

section \<open>MP\_REACH\_NLRI and MP\_UNREACH\_NLRI\<close>

text \<open>
  The next hop is copied into an array of 16 bytes and printed from there; bytes that were not copied have no
  value, and neither has the text when nothing was printed.
\<close>

definition ls_next_hop :: "(bytes \<Rightarrow> string) \<Rightarrow> mp_reach_nlri \<Rightarrow> string result" where
  "ls_next_hop f6 n =
     (let l = unat (nh_len n)
      in if l = 4 then andThen (rd 4 (next_hop n)) (\<lambda>b. Inr (inet_ntop4 b))
         else if l > 16 then Inl BufferOverflow
         else if l = 16 then andThen (rd 16 (next_hop n)) (\<lambda>b. Inr (f6 b))
         else Inl Uninit)"

definition parseReachLinkState :: "(bytes \<Rightarrow> string) \<Rightarrow> ls_info ls_parser" where
  "parseReachLinkState f6 n pd =
     andThen (ls_next_hop f6 n) (\<lambda>nh.
       let pd = set_next_hop nh pd; i = ls_part pd
       in if safi n = BGP_SAFI_BGPLS
          then andThen (parseLinkStateNlriData (nlri_data n) (nlri_len n) 0 (ls i)) (\<lambda>l.
                 Inr (pd\<lparr>ls_part := i\<lparr>ls := l\<rparr>\<rparr>))
          else Inr pd)"

definition parseUnReachLinkState :: "ls_info ls_parser" where
  "parseUnReachLinkState n pd =
     (let i = ls_part pd
      in if safi n = BGP_SAFI_BGPLS
         then andThen (parseLinkStateNlriData (nlri_data n) (nlri_len n) 0 (ls_withdrawn i)) (\<lambda>l.
                Inr (pd\<lparr>ls_part := i\<lparr>ls_withdrawn := l\<rparr>\<rparr>))
         else Inr pd)"

section \<open>Decoding what was encoded\<close>

text \<open>
  A loop that counts the bytes that are left down to zero: on the encoding of a record it takes exactly that
  encoding and adds the record. Lengths are those of 16-bit fields.
\<close>

locale countdown_stream =
  fixes valid :: "'e \<Rightarrow> bool"
    and enc :: "'e \<Rightarrow> bytes"
    and add_rec :: "'acc \<Rightarrow> 'e \<Rightarrow> 'acc"
    and loop :: "bytes \<Rightarrow> nat \<Rightarrow> 'acc \<Rightarrow> 'r result"
  assumes take_rec: "valid e \<Longrightarrow> length (enc e) \<le> n \<Longrightarrow> n < 2 ^ 16 \<Longrightarrow>
      loop (enc e @ rest) n acc = loop rest (n - length (enc e)) (add_rec acc e)"
begin

lemma take_all:
  "list_all valid es \<Longrightarrow> length (concat (map enc es)) \<le> n \<Longrightarrow> n < 2 ^ 16 \<Longrightarrow>
   loop (concat (map enc es) @ rest) n acc = loop rest (n - length (concat (map enc es))) (foldl add_rec acc es)"
proof (induction es arbitrary: n acc)
  case (Cons e es)
  then have "loop (concat (map enc (e # es)) @ rest) n acc = loop (concat (map enc es) @ rest) (n - length (enc e)) (add_rec acc e)"
    by (simp add: take_rec)
  also have "\<dots> = loop rest (n - length (enc e) - length (concat (map enc es))) (foldl add_rec (add_rec acc e) es)"
    using Cons by simp
  finally show ?case by simp
qed simp

end

definition ls_tlv :: "nat \<Rightarrow> bytes \<Rightarrow> bytes" where
  "ls_tlv t v = be_bytes 2 t @ be_bytes 2 (length v) @ v"

lemma length_ls_tlv [simp]: "length (ls_tlv t v) = 4 + length v"
  by (simp add: ls_tlv_def del: be_bytes_numeral)

lemma ls_tlv_read:
  assumes "t < 2 ^ 16" "length v < 2 ^ 16"
  shows "ntoh 2 (ls_tlv t v @ rest) = Inr t" "ntoh 2 (drop 2 (ls_tlv t v @ rest)) = Inr (length v)"
    "drop 4 (ls_tlv t v @ rest) = v @ rest"
  using assms by (simp_all add: ls_tlv_def be_val_be_bytes del: be_bytes_numeral)

subsection \<open>Node descriptors\<close>

datatype node_tlv = Nd_AS u32 | Nd_Ls_Id u32 | Nd_Area bytes | Nd_Igp bytes | Nd_Bgp bytes

fun node_tlv_ok :: "node_tlv \<Rightarrow> bool" where
  "node_tlv_ok (Nd_AS v) = True"
| "node_tlv_ok (Nd_Ls_Id v) = True"
| "node_tlv_ok (Nd_Area b) = (length b = 4)"
| "node_tlv_ok (Nd_Igp b) = (length b \<le> 8)"
| "node_tlv_ok (Nd_Bgp b) = (length b = 4)"

fun enc_node_tlv :: "node_tlv \<Rightarrow> bytes" where
  "enc_node_tlv (Nd_AS v) = ls_tlv NODE_DESCR_AS (be_bytes 4 (unat v))"
| "enc_node_tlv (Nd_Ls_Id v) = ls_tlv NODE_DESCR_BGP_LS_ID (be_bytes 4 (unat v))"
| "enc_node_tlv (Nd_Area b) = ls_tlv NODE_DESCR_OSPF_AREA_ID b"
| "enc_node_tlv (Nd_Igp b) = ls_tlv NODE_DESCR_IGP_ROUTER_ID b"
| "enc_node_tlv (Nd_Bgp b) = ls_tlv NODE_DESCR_BGP_ROUTER_ID b"

fun add_node_tlv :: "node_descriptor \<Rightarrow> node_tlv \<Rightarrow> node_descriptor" where
  "add_node_tlv info (Nd_AS v) = info\<lparr>nd_asn := v\<rparr>"
| "add_node_tlv info (Nd_Ls_Id v) = info\<lparr>nd_bgp_ls_id := v\<rparr>"
| "add_node_tlv info (Nd_Area b) = info\<lparr>nd_ospf_area_Id := b\<rparr>"
| "add_node_tlv info (Nd_Igp b) = info\<lparr>nd_igp_router_id := b @ replicate (8 - length b) 0\<rparr>"
| "add_node_tlv info (Nd_Bgp b) = info\<lparr>nd_bgp_router_id := b\<rparr>"

definition enc_node :: "node_tlv list \<Rightarrow> bytes" where
  "enc_node ns = concat (map enc_node_tlv ns)"

definition node_of :: "node_tlv list \<Rightarrow> node_descriptor" where
  "node_of ns = genNodeHashId (foldl add_node_tlv zero_node_descr ns)"

lemma unat_u32_less: "unat (v :: u32) < 256 ^ 4"
  using unsigned_less [of v, where 'a = nat] by simp

lemma ntoh_u32: "ntoh 4 (be_bytes 4 (unat (v :: u32)) @ rest) = Inr (unat v)"
  by (rule ntoh_be_bytes [OF unat_u32_less])

lemma sub_tlv_run:
  assumes "t < 2 ^ 16" "4 + length v \<le> n" "n < 2 ^ 16"
  shows "sub_tlv body (ls_tlv t v @ rest) n info = body t (length v) (v @ rest)"
proof -
  have "\<not> length v > n - 4" "\<not> n < 4" "length v < 2 ^ 16" using assms(2,3) by simp_all
  with ls_tlv_read [OF assms(1), of v rest] show ?thesis by (simp add: sub_tlv_def del: drop_append)
qed

lemma parseDescrNode_run:
  assumes "node_tlv_ok e" "length (enc_node_tlv e) \<le> n" "n < 2 ^ 16"
  shows "parseDescrLocalRemoteNode (enc_node_tlv e @ rest) n info = Inr (length (enc_node_tlv e), add_node_tlv info e)"
  using assms
  by (cases e) (simp_all add: parseDescrLocalRemoteNode_def sub_tlv_run node_descr_def ntoh_u32 ls_type_defs poke_def
      del: be_bytes_numeral)

interpretation node_stream: countdown_stream node_tlv_ok enc_node_tlv
  "\<lambda>(dl, info) e. (dl - int (length (enc_node_tlv e)), add_node_tlv info e)" "\<lambda>d n (dl, info). node_descr_loop d n dl info"
proof unfold_locales
  fix e n rest and acc :: "int \<times> node_descriptor"
  assume ok: "node_tlv_ok e" "length (enc_node_tlv e) \<le> n" "n < 2 ^ 16"
  have "0 < length (enc_node_tlv e)" by (cases e) simp_all
  with ok(2) have "0 < n" by linarith
  with parseDescrNode_run [OF ok] have "node_descr_loop (enc_node_tlv e @ rest) n dl info =
      node_descr_loop rest (n - length (enc_node_tlv e)) (dl - int (length (enc_node_tlv e))) (add_node_tlv info e)" for dl info
    by (subst node_descr_loop.simps) simp
  then show "(case acc of (dl, info) \<Rightarrow> node_descr_loop (enc_node_tlv e @ rest) n dl info) =
      (case (case acc of (dl, info) \<Rightarrow> \<lambda>e. (dl - int (length (enc_node_tlv e)), add_node_tlv info e)) e of
        (dl, info) \<Rightarrow> node_descr_loop rest (n - length (enc_node_tlv e)) dl info)"
    by (cases acc) simp
qed

lemma node_fold:
  "foldl (\<lambda>(dl, info) e. (dl - int (length (enc_node_tlv e)), add_node_tlv info e)) (dl, info) es =
   (dl - int (length (enc_node es)), foldl add_node_tlv info es)"
  by (induction es arbitrary: dl info) (simp_all add: enc_node_def)

lemma node_descr_run:
  assumes "list_all node_tlv_ok ns" "length (enc_node ns) < 2 ^ 16"
  shows "node_descr_loop (enc_node ns @ rest) (length (enc_node ns)) dl zero_node_descr =
    Inr (rest, dl - int (length (enc_node ns)), foldl add_node_tlv zero_node_descr ns)"
  using node_stream.take_all [of ns "length (enc_node ns)" rest "(dl, zero_node_descr)"] assms
  unfolding node_fold by (simp add: enc_node_def node_descr_loop.simps)

subsection \<open>Link descriptors\<close>

text \<open>An address of four bytes is an IPv4 address, one of 16 bytes an IPv6 address.\<close>

datatype link_tlv = Ld_Ids u32 u32 | Ld_Mt u16 | Ld_Intf bytes | Ld_Nei bytes

fun link_tlv_ok :: "link_tlv \<Rightarrow> bool" where
  "link_tlv_ok (Ld_Ids l r) = True"
| "link_tlv_ok (Ld_Mt m) = True"
| "link_tlv_ok (Ld_Intf b) = (length b = 4 \<or> length b = 16)"
| "link_tlv_ok (Ld_Nei b) = (length b = 4 \<or> length b = 16)"

fun enc_link_tlv :: "link_tlv \<Rightarrow> bytes" where
  "enc_link_tlv (Ld_Ids l r) = ls_tlv LINK_DESCR_ID (be_bytes 4 (unat l) @ be_bytes 4 (unat r))"
| "enc_link_tlv (Ld_Mt m) = ls_tlv LINK_DESCR_MT_ID (be_bytes 2 (unat m))"
| "enc_link_tlv (Ld_Intf b) = ls_tlv (if length b = 4 then LINK_DESCR_IPV4_INTF_ADDR else LINK_DESCR_IPV6_INTF_ADDR) b"
| "enc_link_tlv (Ld_Nei b) = ls_tlv (if length b = 4 then LINK_DESCR_IPV4_NEI_ADDR else LINK_DESCR_IPV6_NEI_ADDR) b"

fun add_link_tlv :: "link_descriptor \<Rightarrow> link_tlv \<Rightarrow> link_descriptor" where
  "add_link_tlv info (Ld_Ids l r) = info\<lparr>ld_local_id := l, ld_remote_id := r\<rparr>"
| "add_link_tlv info (Ld_Mt m) = info\<lparr>ld_mt_id := ucast m\<rparr>"
| "add_link_tlv info (Ld_Intf b) = info\<lparr>ld_isIPv4 := (length b = 4), ld_intf_addr := poke 0 b (ld_intf_addr info)\<rparr>"
| "add_link_tlv info (Ld_Nei b) = info\<lparr>ld_isIPv4 := (length b = 4), ld_nei_addr := poke 0 b (ld_nei_addr info)\<rparr>"

lemma length_mem32 [simp]: "length (mem32 v) = 4"
  by (simp add: mem32_def del: be_bytes_numeral)

lemma unat_u16_less: "unat (v :: u16) < 256 ^ 2"
  using unsigned_less [of v, where 'a = nat] by simp

lemma be_val_append2: "be_val (xs @ ys) = be_val xs * 256 ^ length ys + be_val ys"
  by (simp add: be_val_def le_val_append)

text \<open>Whatever the number was before, the first two of the copied bytes are the result.\<close>

lemma read_mt_id_u16: "read_mt_id (be_bytes 2 (unat m)) old = ucast (m :: u16)"
proof -
  let ?hi = "be_bytes 2 (unat m)" and ?lo = "drop 2 (mem32 old)"
  have "num32 (SWAP_BYTES (poke 0 ?hi (mem32 old)) 4) = (of_nat (be_val (?hi @ ?lo)) :: u32)"
    by (simp add: num32_def poke_def numeral_2_eq_2 del: be_bytes_numeral be_bytes.simps)
  also have "be_val (?hi @ ?lo) = unat m * 2 ^ 16 + be_val ?lo"
    using unat_u16_less [of m] by (simp add: be_val_append2 be_val_be_bytes del: be_bytes_numeral)
  finally have num: "num32 (SWAP_BYTES (poke 0 ?hi (mem32 old)) 4) = of_nat (unat m * 2 ^ 16 + be_val ?lo)" .
  have lo: "be_val ?lo < 2 ^ 16" using be_val_bound [of ?lo] by simp
  then have "unat m * 2 ^ 16 + be_val ?lo < 2 ^ 32" using unat_u16_less [of m] by simp
  then have "unat (of_nat (unat m * 2 ^ 16 + be_val ?lo) :: u32) = unat m * 2 ^ 16 + be_val ?lo"
    by (simp only: unat_of_nat) simp
  then have "unat (drop_bit 16 (of_nat (unat m * 2 ^ 16 + be_val ?lo) :: u32)) = (unat m * 2 ^ 16 + be_val ?lo) div 2 ^ 16"
    by (simp only: unat_drop_bit_eq drop_bit_nat_def)
  also have "\<dots> = unat m" using lo by simp
  also have "\<dots> = unat (ucast m :: u32)" using unat_u16_less [of m] by (simp add: unsigned_ucast_eq take_bit_nat_eq_self)
  finally show ?thesis unfolding read_mt_id_def num by (simp add: word_unat_eq_iff)
qed

lemma parseDescrLink_run:
  assumes "link_tlv_ok e" "length (enc_link_tlv e) \<le> n" "n < 2 ^ 16"
  shows "parseDescrLink (enc_link_tlv e @ rest) n info = Inr (length (enc_link_tlv e), add_link_tlv info e)"
  using assms
  by (cases e) (auto simp: parseDescrLink_def sub_tlv_run link_descr_def ntoh_u32 read_mt_id_u16 ls_type_defs Let_def
      simp del: be_bytes_numeral)

interpretation link_stream: countdown_stream link_tlv_ok enc_link_tlv add_link_tlv "\<lambda>d n. link_descr_loop d (int n)"
proof unfold_locales
  fix e n rest info
  assume ok: "link_tlv_ok e" "length (enc_link_tlv e) \<le> n" "n < 2 ^ 16"
  have "0 < length (enc_link_tlv e)" by (cases e) simp_all
  with ok(2) have "0 < n" by linarith
  with ok parseDescrLink_run [OF ok]
  show "link_descr_loop (enc_link_tlv e @ rest) (int n) info = link_descr_loop rest (int (n - length (enc_link_tlv e))) (add_link_tlv info e)"
    by (subst link_descr_loop.simps) (simp add: of_nat_diff)
qed

subsection \<open>Prefix descriptors\<close>

datatype prefix_tlv = Pd_Reach u8 bytes | Pd_Mt u16 | Pd_Type u8

fun prefix_tlv_ok :: "prefix_tlv \<Rightarrow> bool" where
  "prefix_tlv_ok (Pd_Reach l b) = (length b \<le> 16)"
| "prefix_tlv_ok (Pd_Mt m) = True"
| "prefix_tlv_ok (Pd_Type c) = True"

fun enc_prefix_tlv :: "prefix_tlv \<Rightarrow> bytes" where
  "enc_prefix_tlv (Pd_Reach l b) = ls_tlv PREFIX_DESCR_IP_REACH_INFO (l # b)"
| "enc_prefix_tlv (Pd_Mt m) = ls_tlv PREFIX_DESCR_MT_ID (be_bytes 2 (unat m))"
| "enc_prefix_tlv (Pd_Type c) = ls_tlv PREFIX_DESCR_OSPF_ROUTE_TYPE [c]"

fun add_prefix_tlv :: "bool \<Rightarrow> prefix_descriptor \<Rightarrow> prefix_tlv \<Rightarrow> prefix_descriptor" where
  "add_prefix_tlv v4 info (Pd_Reach l b) =
     info\<lparr>pd_prefix_len := l, pd_prefix := pad16 b, pd_prefix_bcast := ls_bcast v4 l (pad16 b) (pd_prefix_bcast info)\<rparr>"
| "add_prefix_tlv v4 info (Pd_Mt m) = info\<lparr>pd_mt_id := ucast m\<rparr>"
| "add_prefix_tlv v4 info (Pd_Type c) = info\<lparr>pd_ospf_route_type := route_type_text c\<rparr>"

lemma route_type_snprintf [simp]: "snprintf 32 (route_type_text c) = route_type_text c"
  by (rule snprintf_text) (simp_all add: route_type_text_def)

lemma parseDescrPrefix_run:
  assumes "prefix_tlv_ok e" "length (enc_prefix_tlv e) \<le> n" "n < 2 ^ 16"
  shows "parseDescrPrefix (enc_prefix_tlv e @ rest) n info v4 = Inr (length (enc_prefix_tlv e), add_prefix_tlv v4 info e)"
  using assms
  by (cases e) (auto simp: parseDescrPrefix_def sub_tlv_run prefix_descr_def read_mt_id_u16 copy16_def ls_type_defs
      simp del: be_bytes_numeral)

interpretation prefix_stream: countdown_stream prefix_tlv_ok enc_prefix_tlv "add_prefix_tlv v4" "\<lambda>d n. prefix_descr_loop v4 d (int n)"
  for v4
proof unfold_locales
  fix e n rest info
  assume ok: "prefix_tlv_ok e" "length (enc_prefix_tlv e) \<le> n" "n < 2 ^ 16"
  have "0 < length (enc_prefix_tlv e)" by (cases e) simp_all
  with ok(2) have "0 < n" by linarith
  with ok parseDescrPrefix_run [OF ok]
  show "prefix_descr_loop v4 (enc_prefix_tlv e @ rest) (int n) info =
      prefix_descr_loop v4 rest (int (n - length (enc_prefix_tlv e))) (add_prefix_tlv v4 info e)"
    by (subst prefix_descr_loop.simps) (simp add: of_nat_diff)
qed

subsection \<open>Routes\<close>

datatype ls_body = LsNode "node_tlv list" | LsLink "node_tlv list" "node_tlv list" "link_tlv list"
  | LsPrefix bool "node_tlv list" "prefix_tlv list"

type_synonym ls_route = "u64 \<times> u8 \<times> ls_body"

definition node_part :: "nat \<Rightarrow> node_tlv list \<Rightarrow> bytes" where
  "node_part t ns = ls_tlv t (enc_node ns)"

fun enc_body :: "ls_body \<Rightarrow> bytes" where
  "enc_body (LsNode ns) = node_part NODE_DESCR_LOCAL_DESCR ns"
| "enc_body (LsLink ns rs ds) = node_part NODE_DESCR_LOCAL_DESCR ns @ node_part NODE_DESCR_REMOTE_DESCR rs @ concat (map enc_link_tlv ds)"
| "enc_body (LsPrefix v4 ns ds) = node_part NODE_DESCR_LOCAL_DESCR ns @ concat (map enc_prefix_tlv ds)"

fun body_type :: "ls_body \<Rightarrow> nat" where
  "body_type (LsNode _) = NLRI_TYPE_NODE"
| "body_type (LsLink _ _ _) = NLRI_TYPE_LINK"
| "body_type (LsPrefix v4 _ _) = (if v4 then NLRI_TYPE_IPV4_PREFIX else NLRI_TYPE_IPV6_PREFIX)"

fun body_ok :: "ls_body \<Rightarrow> bool" where
  "body_ok (LsNode ns) = list_all node_tlv_ok ns"
| "body_ok (LsLink ns rs ds) = (list_all node_tlv_ok ns \<and> list_all node_tlv_ok rs \<and> list_all link_tlv_ok ds)"
| "body_ok (LsPrefix v4 ns ds) = (list_all node_tlv_ok ns \<and> list_all prefix_tlv_ok ds)"

fun route_ok :: "ls_route \<Rightarrow> bool" where
  "route_ok (i, p, b) = body_ok b"

fun enc_route :: "ls_route \<Rightarrow> bytes" where
  "enc_route (i, p, b) = ls_tlv (body_type b) (p # be_bytes 8 (unat i) @ enc_body b)"

text \<open>What a route says, as the objects of the message bus.\<close>

definition node_obj :: "u64 \<Rightarrow> u8 \<Rightarrow> node_tlv list \<Rightarrow> obj_ls_node" where
  "node_obj i p ns =
     (let n = node_of ns
      in zero_ls_node\<lparr>node_hash := nd_hash_bin n, node_id := i, node_isIPv4 := True, node_asn := nd_asn n,
           node_bgp_ls_id := nd_bgp_ls_id n, node_igp_router_id := nd_igp_router_id n,
           node_ospf_area_Id := nd_ospf_area_Id n, node_protocol := decodeNlriProtocolId p\<rparr>)"

definition link_obj :: "u64 \<Rightarrow> u8 \<Rightarrow> node_tlv list \<Rightarrow> node_tlv list \<Rightarrow> link_tlv list \<Rightarrow> obj_ls_link" where
  "link_obj i p ns rs ds =
     (let n = node_of ns; r = node_of rs; d = foldl add_link_tlv zero_link_descr ds
      in zero_ls_link\<lparr>link_id := i, link_protocol := decodeNlriProtocolId p,
           local_node_hash_id := nd_hash_bin n, link_ospf_area_Id := nd_ospf_area_Id n, link_bgp_ls_id := nd_bgp_ls_id n,
           local_node_asn := nd_asn n, link_igp_router_id := nd_igp_router_id n, local_bgp_router_id := nd_bgp_router_id n,
           remote_node_hash_id := nd_hash_bin r, remote_igp_router_id := nd_igp_router_id r, remote_node_asn := nd_asn r,
           remote_bgp_router_id := nd_bgp_router_id r, link_isIPv4 := ld_isIPv4 d, link_mt_id := ld_mt_id d,
           local_link_id := ld_local_id d, remote_link_id := ld_remote_id d, intf_addr := ld_intf_addr d, nei_addr := ld_nei_addr d\<rparr>)"

definition prefix_obj :: "u64 \<Rightarrow> u8 \<Rightarrow> bool \<Rightarrow> node_tlv list \<Rightarrow> prefix_tlv list \<Rightarrow> obj_ls_prefix" where
  "prefix_obj i p v4 ns ds =
     (let n = node_of ns; d = foldl (add_prefix_tlv v4) zero_prefix_descr ds
      in zero_ls_prefix\<lparr>lsp_id := i, lsp_protocol := decodeNlriProtocolId p, lsp_isIPv4 := v4, lsp_prefix_len := pd_prefix_len d,
           lsp_mt_id := pd_mt_id d, lsp_ospf_area_Id := nd_ospf_area_Id n, lsp_bgp_ls_id := nd_bgp_ls_id n,
           lsp_igp_router_id := nd_igp_router_id n, lsp_local_node_hash_id := nd_hash_bin n, lsp_prefix_bin := pd_prefix d,
           lsp_prefix_bcast_bin := pd_prefix_bcast d, lsp_ospf_route_type := pd_ospf_route_type d\<rparr>)"

fun add_route :: "parsed_data_ls \<Rightarrow> ls_route \<Rightarrow> parsed_data_ls" where
  "add_route lsd (i, p, LsNode ns) = lsd\<lparr>ls_nodes := ls_nodes lsd @ [node_obj i p ns]\<rparr>"
| "add_route lsd (i, p, LsLink ns rs ds) = lsd\<lparr>ls_links := ls_links lsd @ [link_obj i p ns rs ds]\<rparr>"
| "add_route lsd (i, p, LsPrefix v4 ns ds) = lsd\<lparr>ls_prefixes := ls_prefixes lsd @ [prefix_obj i p v4 ns ds]\<rparr>"

lemma protocol_snprintf [simp]: "snprintf 32 (decodeNlriProtocolId p) = decodeNlriProtocolId p"
  by (rule snprintf_text) (simp_all add: decodeNlriProtocolId_def)

lemma length_node_part [simp]: "length (node_part t ns) = 4 + length (enc_node ns)"
  by (simp add: node_part_def)

lemma node_part_read:
  assumes "t < 2 ^ 16" "length (enc_node ns) < 2 ^ 16"
  shows "ntoh 2 (node_part t ns @ rest) = Inr t" "ntoh 2 (drop 2 (node_part t ns @ rest)) = Inr (length (enc_node ns))"
    "drop 4 (node_part t ns @ rest) = enc_node ns @ rest"
  using ls_tlv_read [OF assms] by (simp_all add: node_part_def del: drop_append)

lemma local_part:
  assumes "length (enc_node ns) < 2 ^ 16"
  shows "ntoh 2 (node_part NODE_DESCR_LOCAL_DESCR ns @ rest) = Inr NODE_DESCR_LOCAL_DESCR"
    "ntoh 2 (drop 2 (node_part NODE_DESCR_LOCAL_DESCR ns @ rest)) = Inr (length (enc_node ns))"
    "drop 4 (node_part NODE_DESCR_LOCAL_DESCR ns @ rest) = enc_node ns @ rest"
  using assms by (auto intro!: node_part_read simp: NODE_DESCR_LOCAL_DESCR_def simp del: drop_append)

lemma parseNlriNode_run:
  assumes "list_all node_tlv_ok ns" "length (enc_body (LsNode ns)) \<le> n" "n < 2 ^ 16"
  shows "parseNlriNode (enc_body (LsNode ns) @ rest) n i p lsd = Inr (add_route lsd (i, p, LsNode ns))"
  using assms node_descr_run [OF assms(1), of rest]
  by (simp add: parseNlriNode_def local_part node_obj_def node_of_def Let_def del: drop_append)

lemma link_node_run:
  assumes "t < 2 ^ 16" "list_all node_tlv_ok ns" "length (enc_node ns) < 2 ^ 16" "int (length (enc_node ns)) + 4 \<le> dl"
  shows "link_node (node_part t ns @ rest) dl l =
    Inr (Some (rest, dl - 4 - int (length (enc_node ns)), set_link_node t (node_of ns) l))"
  using assms(4) node_part_read [OF assms(1,3), of rest] node_descr_run [OF assms(2,3), of rest]
  by (simp add: link_node_def node_of_def Let_def del: drop_append)

lemma parseNlriLink_run:
  assumes "body_ok (LsLink ns rs ds)" "length (enc_body (LsLink ns rs ds)) < 2 ^ 16"
  shows "parseNlriLink (enc_body (LsLink ns rs ds) @ rest) (length (enc_body (LsLink ns rs ds))) i p lsd =
    Inr (add_route lsd (i, p, LsLink ns rs ds))"
proof -
  let ?l = "zero_ls_link\<lparr>link_id := i, link_protocol := decodeNlriProtocolId p\<rparr>" and ?ds = "concat (map enc_link_tlv ds)"
  have ok: "list_all node_tlv_ok ns" "list_all node_tlv_ok rs" "list_all link_tlv_ok ds" using assms(1) by simp_all
  have len: "length (enc_node ns) < 2 ^ 16" "length (enc_node rs) < 2 ^ 16" "length ?ds < 2 ^ 16" using assms(2) by simp_all
  have t: "NODE_DESCR_LOCAL_DESCR < 2 ^ 16" "NODE_DESCR_REMOTE_DESCR < 2 ^ 16" by (simp_all add: ls_type_defs)
  have "link_descr_loop (?ds @ rest) (int (length ?ds)) zero_link_descr = Inr (foldl add_link_tlv zero_link_descr ds)"
    using link_stream.take_all [OF ok(3) order_refl len(3)] by (simp add: link_descr_loop.simps)
  moreover have "link_node (enc_body (LsLink ns rs ds) @ rest) (int (length (enc_body (LsLink ns rs ds)))) ?l =
      Inr (Some (node_part NODE_DESCR_REMOTE_DESCR rs @ ?ds @ rest, 4 + int (length (enc_node rs)) + int (length ?ds),
        set_link_node NODE_DESCR_LOCAL_DESCR (node_of ns) ?l))"
    using link_node_run [OF t(1) ok(1) len(1), of "int (length (enc_body (LsLink ns rs ds)))"] by simp
  moreover have "link_node (node_part NODE_DESCR_REMOTE_DESCR rs @ ?ds @ rest) (4 + int (length (enc_node rs)) + int (length ?ds)) l =
      Inr (Some (?ds @ rest, int (length ?ds), set_link_node NODE_DESCR_REMOTE_DESCR (node_of rs) l))" for l
    using link_node_run [OF t(2) ok(2) len(2), of "4 + int (length (enc_node rs)) + int (length ?ds)"] by simp
  moreover have "\<not> length (enc_body (LsLink ns rs ds)) < 4" by simp
  ultimately show ?thesis
    unfolding parseNlriLink_def by (simp add: link_obj_def set_link_node_def ls_type_defs Let_def del: enc_body.simps)
qed

lemma parseNlriPrefix_run:
  assumes "body_ok (LsPrefix v4 ns ds)" "length (enc_body (LsPrefix v4 ns ds)) < 2 ^ 16"
  shows "parseNlriPrefix (enc_body (LsPrefix v4 ns ds) @ rest) (length (enc_body (LsPrefix v4 ns ds))) i p v4 lsd =
    Inr (add_route lsd (i, p, LsPrefix v4 ns ds))"
proof -
  let ?ds = "concat (map enc_prefix_tlv ds)"
  have ok: "list_all node_tlv_ok ns" "list_all prefix_tlv_ok ds" using assms(1) by simp_all
  have len: "length (enc_node ns) < 2 ^ 16" "length ?ds < 2 ^ 16" using assms(2) by simp_all
  have "prefix_descr_loop v4 (?ds @ rest) (int (length ?ds)) zero_prefix_descr = Inr (foldl (add_prefix_tlv v4) zero_prefix_descr ds)"
    using prefix_stream.take_all [OF ok(2) order_refl len(2)] by (simp add: prefix_descr_loop.simps)
  with len(1) node_descr_run [OF ok(1) len(1), of "?ds @ rest"] show ?thesis
    by (simp add: parseNlriPrefix_def local_part prefix_obj_def node_of_def Let_def del: drop_append)
qed

lemma parse_ls_route_run:
  assumes "body_ok b" "length (enc_body b) < 2 ^ 16"
  shows "parse_ls_route (body_type b) (enc_body b @ rest) (length (enc_body b)) i p lsd = Inr (Some (add_route lsd (i, p, b)))"
proof (cases b)
  case (LsNode ns)
  with assms parseNlriNode_run [of ns "length (enc_body (LsNode ns))" rest i p lsd] show ?thesis by (simp add: parse_ls_route_def del: enc_body.simps)
next
  case (LsLink ns rs ds)
  with assms parseNlriLink_run [of ns rs ds rest i p lsd] show ?thesis
    by (simp add: parse_ls_route_def ls_type_defs del: enc_body.simps)
next
  case (LsPrefix v4 ns ds)
  with assms parseNlriPrefix_run [of v4 ns ds rest i p lsd] show ?thesis
    by (cases v4) (simp_all add: parse_ls_route_def ls_type_defs del: enc_body.simps)
qed

lemma length_enc_route: "length (enc_route (i, p, b)) = 13 + length (enc_body b)"
  by (simp del: be_bytes_numeral)

lemma u64_be_bytes: "ntoh 8 (be_bytes 8 (unat (i :: u64)) @ rest) = Inr (unat i)"
  using unsigned_less [of i, where 'a = nat] by (intro ntoh_be_bytes) simp

lemma body_type_less: "body_type b < 2 ^ 16"
  by (cases b) (simp_all add: ls_type_defs)

lemma enc_route_read:
  assumes "length (enc_route (i, p, b)) < 2 ^ 16"
  shows "ntoh 2 (enc_route (i, p, b) @ rest) = Inr (body_type b)"
    "ntoh 2 (drop 2 (enc_route (i, p, b) @ rest)) = Inr (9 + length (enc_body b))"
    "rd_u8 (drop 4 (enc_route (i, p, b) @ rest)) = Inr p"
    "ntoh 8 (drop 5 (enc_route (i, p, b) @ rest)) = Inr (unat i)"
    "drop 13 (enc_route (i, p, b) @ rest) = enc_body b @ rest"
    "drop (13 + length (enc_body b)) (enc_route (i, p, b) @ rest) = rest"
proof -
  let ?v = "p # be_bytes 8 (unat i) @ enc_body b"
  have r: "enc_route (i, p, b) = ls_tlv (body_type b) ?v" by simp
  have l: "length ?v = 9 + length (enc_body b)" "length ?v < 2 ^ 16"
    using assms unfolding length_enc_route by (simp_all del: be_bytes_numeral)
  note h = ls_tlv_read [OF body_type_less l(2), of b rest, folded r]
  from h(1) show "ntoh 2 (enc_route (i, p, b) @ rest) = Inr (body_type b)" .
  from h(2) show "ntoh 2 (drop 2 (enc_route (i, p, b) @ rest)) = Inr (9 + length (enc_body b))" unfolding l(1) .
  from h(3) show "rd_u8 (drop 4 (enc_route (i, p, b) @ rest)) = Inr p" by (simp del: be_bytes_numeral drop_append enc_route.simps)
  have d: "drop (4 + k) (enc_route (i, p, b) @ rest) = drop k (?v @ rest)" for k
    using arg_cong [OF h(3), of "drop k"] by (simp add: add.commute del: be_bytes_numeral drop_append enc_route.simps)
  from d [of 1] show "ntoh 8 (drop 5 (enc_route (i, p, b) @ rest)) = Inr (unat i)"
    using u64_be_bytes [of i "enc_body b @ rest"] by (simp del: be_bytes_numeral drop_append enc_route.simps)
  from d [of 9] show "drop 13 (enc_route (i, p, b) @ rest) = enc_body b @ rest"
    by (simp del: be_bytes_numeral enc_route.simps drop_append) (simp add: drop_append del: be_bytes_numeral)
  show "drop (13 + length (enc_body b)) (enc_route (i, p, b) @ rest) = rest"
    using length_enc_route [of i p b] by (simp del: enc_route.simps)
qed

lemma nlri_step:
  assumes "route_ok e" "r + length (enc_route e) \<le> len" "len < 2 ^ 16"
  shows "parseLinkStateNlriData (enc_route e @ rest) len r lsd = parseLinkStateNlriData rest len (r + length (enc_route e)) (add_route lsd e)"
proof -
  obtain i p b where e: "e = (i, p, b)" by (cases e)
  let ?n = "length (enc_body b)"
  have len: "length (enc_route (i, p, b)) < 2 ^ 16" using assms(2,3) by (simp add: e del: enc_route.simps)
  have n: "?n < 2 ^ 16" "r < len" "\<not> 9 + ?n > len" "(9 + ?n + 2 ^ 16 - 9) mod 2 ^ 16 = ?n" "(r + 13 + ?n) mod 2 ^ 16 = r + 13 + ?n"
    using assms(2,3) len unfolding e length_enc_route by simp_all
  have "body_ok b" using assms(1) by (simp add: e)
  note run = parse_ls_route_run [OF this n(1)]
  show ?thesis unfolding e length_enc_route
    by (subst parseLinkStateNlriData.simps)
      (use n run enc_route_read [OF len, of rest] in \<open>simp add: Let_def add.assoc del: enc_route.simps drop_append\<close>)
qed

lemma nlri_run:
  assumes "list_all route_ok es" "r + length (concat (map enc_route es)) = len" "len < 2 ^ 16"
  shows "parseLinkStateNlriData (concat (map enc_route es) @ rest) len r lsd = Inr (foldl add_route lsd es)"
  using assms
proof (induction es arbitrary: r lsd)
  case Nil
  then show ?case by (simp add: parseLinkStateNlriData.simps)
next
  case (Cons e es)
  then show ?case using nlri_step [of e r len "concat (map enc_route es) @ rest" lsd] by (simp del: enc_route.simps)
qed

subsection \<open>Arbitrary bytes\<close>

lemma sub_tlv_tot:
  assumes "\<And>t len d. len + 4 \<le> n \<Longrightarrow> len \<le> length d \<Longrightarrow> tot (body t len d) (\<lambda>(k, _). k = 4 + len)"
    "n \<le> length data" "0 < n"
  shows "tot (sub_tlv body data n info) (\<lambda>(k, _). 0 < k \<and> k \<le> n)"
proof -
  have "tot (body t len (drop 4 data)) (\<lambda>(k, _). 0 < k \<and> k \<le> n)" if "len + 4 \<le> n" for t len
    by (rule tot_mono [OF assms(1) [OF that]]) (use that assms(2) in auto)
  with assms(2,3) show ?thesis by (auto simp: sub_tlv_def wp)
qed

lemma node_descr_tot:
  "len \<le> data_len \<Longrightarrow> len \<le> length d \<Longrightarrow> tot (node_descr data_len info t len d) (\<lambda>(k, _). k = 4 + len)"
  by (simp add: node_descr_def wp)

lemma link_descr_tot:
  "len \<le> data_len \<Longrightarrow> len \<le> length d \<Longrightarrow> tot (link_descr data_len info t len d) (\<lambda>(k, _). k = 4 + len)"
  by (cases "len = 8") (auto simp: link_descr_def wp Let_def)

lemma parseDescrNode_tot:
  "n \<le> length data \<Longrightarrow> 0 < n \<Longrightarrow> tot (parseDescrLocalRemoteNode data n info) (\<lambda>(k, _). 0 < k \<and> k \<le> n)"
  unfolding parseDescrLocalRemoteNode_def by (rule sub_tlv_tot) (auto intro: node_descr_tot)

lemma parseDescrLink_tot:
  "n \<le> length data \<Longrightarrow> 0 < n \<Longrightarrow> tot (parseDescrLink data n info) (\<lambda>(k, _). 0 < k \<and> k \<le> n)"
  unfolding parseDescrLink_def by (rule sub_tlv_tot) (auto intro: link_descr_tot)

lemma node_descr_loop_tot:
  "len \<le> length data \<Longrightarrow> tot (node_descr_loop data len dl info) (\<lambda>(d, dl', _). d = drop len data \<and> dl' = dl - int len)"
proof (induction data len dl info rule: node_descr_loop.induct)
  case (1 data len dl info)
  show ?case
  proof (cases "0 < len")
    case True
    obtain k i where k: "parseDescrLocalRemoteNode data len info = Inr (k, i)" "0 < k" "k \<le> len"
      using parseDescrNode_tot [OF 1(2) True, of info] by (auto simp: tot_iff)
    then have "tot (node_descr_loop (drop k data) (len - k) (dl - int k) i)
        (\<lambda>(d, dl', _). d = drop (len - k) (drop k data) \<and> dl' = dl - int k - int (len - k))"
      using 1(1) [OF True k(1) refl] 1(2) by simp
    with k True show ?thesis by (subst node_descr_loop.simps) (simp add: of_nat_diff)
  qed (simp add: node_descr_loop.simps wp)
qed

lemma link_descr_loop_tot: "data_len \<le> int (length data) \<Longrightarrow> tot (link_descr_loop data data_len info) (\<lambda>_. True)"
proof (induction data data_len info rule: link_descr_loop.induct)
  case (1 data data_len info)
  show ?case
  proof (cases "0 < data_len")
    case True
    then obtain k i where k: "parseDescrLink data (nat data_len) info = Inr (k, i)" "0 < k" "k \<le> nat data_len"
      using parseDescrLink_tot [of "nat data_len" data info] 1(2) by (auto simp: tot_iff nat_le_iff)
    then show ?thesis using 1(1) [OF True k(1) refl] 1(2) True by (subst link_descr_loop.simps) auto
  qed (simp add: link_descr_loop.simps wp)
qed

lemma node_part_tot:
  assumes "int len \<le> dl" "dl \<le> int (length data)"
  shows "tot (node_descr_loop data len dl info) (\<lambda>(d, dl', _). 0 \<le> dl' \<and> dl' + int (length data) = dl + int (length d))"
  by (rule tot_mono [OF node_descr_loop_tot]) (use assms in auto)

lemma parseNlriNode_tot: "n \<le> length data \<Longrightarrow> okay (parseNlriNode data n i p lsd)"
proof -
  assume n: "n \<le> length data"
  have "tot (node_descr_loop (drop 4 data) len (int n - 4) zero_node_descr) (\<lambda>(_, _, _). True)" if "int len \<le> int n - 4" for len
    by (rule tot_mono [OF node_part_tot [OF that]]) (use n in auto)
  with n show ?thesis unfolding okay_tot parseNlriNode_def by (auto simp: wp Let_def split_def)
qed

lemma link_node_tot:
  assumes "dl + 4 \<le> int (length data)" "0 \<le> dl"
  shows "tot (link_node data dl l) (\<lambda>r. case r of None \<Rightarrow> True | Some (d, dl', _) \<Rightarrow> 0 \<le> dl' \<and> dl' + 4 \<le> int (length d))"
proof -
  have "tot (node_descr_loop (drop 4 data) len (dl - 4) zero_node_descr) (\<lambda>(d, dl', _). 0 \<le> dl' \<and> dl' + 4 \<le> int (length d))"
    if "int len \<le> dl - 4" for len
    by (rule tot_mono [OF node_part_tot [OF that]]) (use assms in auto)
  with assms show ?thesis unfolding link_node_def by (auto simp: wp Let_def split_def)
qed

lemma parseNlriLink_tot:
  assumes "n + 4 \<le> length data"
  shows "okay (parseNlriLink data n i p lsd)"
proof -
  let ?P = "\<lambda>r. case r of None \<Rightarrow> True | Some (d, dl, _) \<Rightarrow> (0 :: int) \<le> dl \<and> dl + 4 \<le> int (length (d :: bytes))"
  have descr: "tot (link_descr_loop d dl info) (\<lambda>_. True)" if "0 \<le> dl \<and> dl + 4 \<le> int (length d)" for d dl info
    using that by (intro link_descr_loop_tot) simp
  have second: "tot (link_node d dl l) ?P" if "0 \<le> dl \<and> dl + 4 \<le> int (length d)" for d dl l
    using that by (intro link_node_tot) simp_all
  have first: "tot (link_node data (int n) l) ?P" for l using assms by (intro link_node_tot) simp_all
  let ?l = "zero_ls_link\<lparr>link_id := i, link_protocol := snprintf 32 (decodeNlriProtocolId p)\<rparr>"
  obtain r1 where r1: "link_node data (int n) ?l = Inr r1" "?P r1" using first by (auto simp: tot_iff)
  show ?thesis
  proof (cases r1)
    case None
    with r1 show ?thesis by (simp add: parseNlriLink_def Let_def)
  next
    case (Some x1)
    obtain d1 dl1 l1 where x1: "x1 = (d1, dl1, l1)" by (cases x1)
    obtain r2 where r2: "link_node d1 dl1 l1 = Inr r2" "?P r2" using second [of dl1 d1 l1] r1 by (auto simp: Some x1 tot_iff)
    show ?thesis
    proof (cases r2)
      case None
      with r1 r2 Some x1 show ?thesis by (simp add: parseNlriLink_def Let_def)
    next
      case (Some x2)
      obtain d2 dl2 l2 where x2: "x2 = (d2, dl2, l2)" by (cases x2)
      obtain info where "link_descr_loop d2 dl2 zero_link_descr = Inr info"
        using descr [of dl2 d2 zero_link_descr] r2 by (auto simp: Some x2 tot_iff)
      with r1 r2 Some \<open>r1 = Some x1\<close> x1 x2 show ?thesis by (simp add: parseNlriLink_def Let_def)
    qed
  qed
qed

lemma reach_ls_run:
  assumes "list_all route_ok rs" "length nh = 4 \<or> length nh = 16" "nlri = concat (map enc_route rs)"
    "bs = mp_reach_bytes BGP_AFI_BGPLS (of_nat BGP_SAFI_BGPLS) nh nlri" "length bs < 2 ^ 16"
  shows "parseReachNlriAttr f6 (parseReachLinkState f6) (length bs) (bs @ rest) pi pd =
    Inr ((set_next_hop (if length nh = 4 then inet_ntop4 nh else f6 nh) pd)
      \<lparr>ls_part := (ls_part pd)\<lparr>ls := foldl add_route (ls (ls_part pd)) rs\<rparr>\<rparr>)"
proof -
  have l: "length bs = 5 + length nh + length nlri" by (simp add: assms(4) mp_reach_bytes_def)
  have "unat (of_nat (length nh) :: u8) = length nh" using assms(2) by auto
  moreover have "parseLinkStateNlriData (nlri @ rest) (length nlri) 0 (ls (ls_part pd)) = Inr (foldl add_route (ls (ls_part pd)) rs)"
    unfolding assms(3) using assms(1,5) l by (intro nlri_run) (simp_all add: assms(3))
  ultimately have "parseReachLinkState f6 \<lparr>afi = BGP_AFI_BGPLS, safi = BGP_SAFI_BGPLS, nh_len = of_nat (length nh),
        next_hop = nh @ [0] @ nlri @ rest, nlri_data = nlri @ rest, nlri_len = length nlri\<rparr> pd =
      Inr ((set_next_hop (if length nh = 4 then inet_ntop4 nh else f6 nh) pd)
        \<lparr>ls_part := (ls_part pd)\<lparr>ls := foldl add_route (ls (ls_part pd)) rs\<rparr>\<rparr>)"
    using assms(2) by (auto simp: parseReachLinkState_def ls_next_hop_def set_next_hop_def Let_def simp del: append_Cons append_Nil)
  then show ?thesis
    using parseReach_header [of BGP_AFI_BGPLS nh "of_nat BGP_SAFI_BGPLS" nlri f6 "parseReachLinkState f6" rest pi pd] assms(2,5)
    by (auto simp: assms(4) reach_parseAfi_def afi_safi_defs)
qed

section \<open>Properties\<close>

text \<open>
  C13. Link-state routes: an MP\_REACH\_NLRI attribute with any sequence of nodes, links and prefixes is decoded
  into the objects that its descriptors say, appended in order to the nodes, links and prefixes of the
  message, and its next hop is recorded.
\<close>

theorem ls_reach_roundtrip:
  assumes "list_all route_ok rs" "length nh = 4 \<or> length nh = 16" "nlri = concat (map enc_route rs)"
    "bs = mp_reach_bytes BGP_AFI_BGPLS (of_nat BGP_SAFI_BGPLS) nh nlri" "length bs < 2 ^ 16"
  shows "parseReachNlriAttr f6 (parseReachLinkState f6) (length bs) (bs @ rest) pi pd =
    Inr ((set_next_hop (if length nh = 4 then inet_ntop4 nh else f6 nh) pd)
      \<lparr>ls_part := (ls_part pd)\<lparr>ls := foldl add_route (ls (ls_part pd)) rs\<rparr>\<rparr>)"
  by (rule reach_ls_run [OF assms])

text \<open>A node with a router identifier and an area, a link between two nodes, and an IPv4 prefix.\<close>

definition sample_routes :: "ls_route list" where
  "sample_routes =
     [(0, 3, LsNode [Nd_AS 65001, Nd_Area [0, 0, 0, 1], Nd_Igp [10, 0, 0, 1]]),
      (0, 1, LsLink [Nd_AS 65001, Nd_Igp [0, 0, 0, 0, 0, 1]] [Nd_AS 65001, Nd_Igp [0, 0, 0, 0, 0, 2]]
         [Ld_Intf [10, 1, 0, 1], Ld_Nei [10, 1, 0, 2], Ld_Mt 2]),
      (7, 6, LsPrefix True [Nd_AS 65001] [Pd_Type 3, Pd_Reach 20 [10, 1, 16]])]"

theorem ls_reach_roundtrip_witness:
  "\<exists>pd. parseReachNlriAttr (\<lambda>_. []) (parseReachLinkState (\<lambda>_. [])) 167
      (mp_reach_bytes BGP_AFI_BGPLS (of_nat BGP_SAFI_BGPLS) [192, 0, 2, 1] (concat (map enc_route sample_routes)))
      plain_peer (empty_update no_ls_info) = Inr pd \<and>
    map node_protocol (ls_nodes (ls (ls_part pd))) = [''OSPFv2''] \<and>
    map link_mt_id (ls_links (ls (ls_part pd))) = [2] \<and>
    map lsp_ospf_route_type (ls_prefixes (ls (ls_part pd))) = [''Ext-1'']"
proof -
  let ?bs = "mp_reach_bytes BGP_AFI_BGPLS (of_nat BGP_SAFI_BGPLS) [192, 0, 2, 1] (concat (map enc_route sample_routes))"
  have "list_all route_ok sample_routes" by (simp add: sample_routes_def)
  moreover have "length ?bs = 167"
    by (simp add: mp_reach_bytes_def sample_routes_def length_enc_route enc_node_def del: enc_route.simps be_bytes_numeral)
  ultimately show ?thesis
    using ls_reach_roundtrip [of sample_routes "[192, 0, 2, 1]" _ ?bs "\<lambda>_. []" "[]" plain_peer "empty_update no_ls_info"]
    by (simp add: empty_update_def no_ls_info_def no_ls_data_def sample_routes_def node_obj_def link_obj_def prefix_obj_def
        set_next_hop_def decodeNlriProtocolId_def route_type_text_def zero_link_descr_def zero_prefix_descr_def Let_def
        del: enc_route.simps)
qed

text \<open>
  Arbitrary bytes: a node route reads only its announced bytes, a link route at most four more, the header
  of a remote node that is not there.
\<close>

theorem ls_reads_bounded:
  assumes "n + 4 \<le> length data"
  shows "okay (parseNlriNode (take n data) n i p lsd) \<and> okay (parseNlriLink (take (n + 4) data) n i p lsd)"
  using assms parseNlriNode_tot [of n "take n data"] parseNlriLink_tot [of n "take (n + 4) data"] by simp

theorem ls_reads_bounded_example:
  "okay (parseNlriNode (take 6 (replicate 10 0xFF)) 6 0 1 no_ls_data) \<and> okay (parseNlriLink (take (6 + 4) (replicate 10 0xFF)) 6 0 1 no_ls_data)"
  by (rule ls_reads_bounded) simp

text \<open>
  C36. The length of a prefix is not checked: a reachability descriptor with more than 16 address bytes is
  copied past the end of the array.
\<close>

theorem ls_prefix_overflow:
  assumes "list_all node_tlv_ok ns" "length b > 16" "e = (i, p, LsPrefix v4 ns [Pd_Reach l b])" "length (enc_route e) < 2 ^ 16"
  shows "parseLinkStateNlriData (enc_route e @ rest) (length (enc_route e)) 0 lsd = Inl BufferOverflow"
proof -
  let ?b = "LsPrefix v4 ns [Pd_Reach l b]" and ?d = "enc_prefix_tlv (Pd_Reach l b)"
  have len: "length (enc_route (i, p, ?b)) < 2 ^ 16" using assms(3,4) by simp
  then have n: "length (enc_node ns) < 2 ^ 16" "4 + length (l # b) < 2 ^ 16" "length (enc_body ?b) < 2 ^ 16"
    unfolding length_enc_route by simp_all
  have len_pos: "?d \<noteq> []" by (simp add: ls_tlv_def)
  have "sub_tlv (prefix_descr v4 info) (?d @ rest) (length ?d) info = Inl BufferOverflow" for info
    using sub_tlv_run [of PREFIX_DESCR_IP_REACH_INFO "l # b" "4 + length (l # b)" "prefix_descr v4 info" rest info] n(2) assms(2)
    by (simp add: prefix_descr_def copy16_def ls_type_defs)
  then have "prefix_descr_loop v4 (?d @ rest) (int (length ?d)) info = Inl BufferOverflow" for info
    by (subst prefix_descr_loop.simps) (simp add: parseDescrPrefix_def len_pos del: enc_prefix_tlv.simps drop_append)
  then have "parseNlriPrefix (enc_body ?b @ rest) (length (enc_body ?b)) i p v4 lsd = Inl BufferOverflow"
    using node_descr_run [OF assms(1) n(1), of "?d @ rest"] n(1)
    by (simp add: parseNlriPrefix_def local_part Let_def del: drop_append enc_prefix_tlv.simps)
  then have "parse_ls_route (body_type ?b) (enc_body ?b @ rest) (length (enc_body ?b)) i p lsd = Inl BufferOverflow"
    by (cases v4) (simp_all add: parse_ls_route_def ls_type_defs del: enc_body.simps)
  with enc_route_read [OF len, of rest] n(3) show ?thesis unfolding assms(3) length_enc_route
    by (subst parseLinkStateNlriData.simps) (simp add: Let_def del: enc_route.simps drop_append enc_body.simps)
qed

theorem ls_prefix_overflow_witness:
  "parseLinkStateNlriData (enc_route (0, 1, LsPrefix True [] [Pd_Reach 0 (replicate 17 0)]) @ []) (length (enc_route
     (0, 1, LsPrefix True [] [Pd_Reach 0 (replicate 17 0)]))) 0 no_ls_data = Inl BufferOverflow"
  by (rule ls_prefix_overflow [OF _ _ refl]) (simp_all add: enc_node_def del: be_bytes_numeral)

text \<open>
  A route that announces fewer than the nine bytes of its own header makes the 16-bit length wrap around:
  the parser takes a node from the bytes behind the attribute and returns without an error.
\<close>

theorem ls_short_route:
  assumes "l < 9" "list_all node_tlv_ok ns" "length (enc_body (LsNode ns)) \<le> 65527"
  shows "parseLinkStateNlriData (be_bytes 2 NLRI_TYPE_NODE @ be_bytes 2 l @ p # be_bytes 8 (unat i) @ enc_body (LsNode ns) @ rest)
    (4 + l) 0 lsd = Inr (add_route lsd (i, p, LsNode ns))"
proof -
  let ?d = "be_bytes 2 NLRI_TYPE_NODE @ be_bytes 2 l @ p # be_bytes 8 (unat i) @ enc_body (LsNode ns) @ rest"
  have "(4 + l + 2 ^ 16) mod 2 ^ 16 = 4 + l" using assms(1) by (simp only: mod_add_self2) simp
  then have m: "(l + 2 ^ 16 - 9) mod 2 ^ 16 = 65527 + l" "(0 + 13 + (65527 + l)) mod 2 ^ 16 = 4 + l"
    using assms(1) by (simp_all add: add.commute)
  have r: "ntoh 2 ?d = Inr NLRI_TYPE_NODE" "ntoh 2 (drop 2 ?d) = Inr l" "rd_u8 (drop 4 ?d) = Inr p"
    "ntoh 8 (drop 5 ?d) = Inr (unat i)" "drop 13 ?d = enc_body (LsNode ns) @ rest"
    using assms(1) u64_be_bytes [of i "enc_body (LsNode ns) @ rest"]
    by (simp_all add: NLRI_TYPE_NODE_def be_val_be_bytes del: be_bytes_numeral enc_body.simps)
  have "parse_ls_route NLRI_TYPE_NODE (enc_body (LsNode ns) @ rest) (65527 + l) i p lsd = Inr (Some (add_route lsd (i, p, LsNode ns)))"
    using parseNlriNode_run [OF assms(2), of "65527 + l" rest i p lsd] assms(1,3)
    by (simp add: parse_ls_route_def del: enc_body.simps add_route.simps)
  moreover have "parseLinkStateNlriData d (4 + l) (4 + l) s = Inr s" for d s by (simp add: parseLinkStateNlriData.simps)
  moreover have "0 < 4 + l" "\<not> l > 4 + l" "of_nat (unat i) = i" by simp_all
  ultimately show ?thesis
    by (subst parseLinkStateNlriData.simps) (simp only: r m if_True if_False andThen_Inr Let_def option.case)
qed

theorem ls_short_route_example:
  "parseLinkStateNlriData (be_bytes 2 NLRI_TYPE_NODE @ be_bytes 2 0 @ 3 # be_bytes 8 (unat (0 :: u64)) @ enc_body (LsNode [Nd_AS 7]) @ [])
    (4 + 0) 0 no_ls_data = Inr (add_route no_ls_data (0, 3, LsNode [Nd_AS 7]))"
  by (rule ls_short_route) (simp_all add: enc_node_def)

text \<open>
  The hash of a node is the MD5 of its IGP router identifier, BGP-LS identifier, AS number and OSPF area; the
  BGP router identifier is not part of it, so that nodes which differ only there get the same hash.
\<close>

theorem node_hash_fields:
  assumes "length (nd_igp_router_id info) = 8" "length (nd_ospf_area_Id info) = 4"
  shows "nd_hash_bin (genNodeHashId info) = md5_spec (nd_igp_router_id info @ rev (be_bytes 4 (unat (nd_bgp_ls_id info))) @
      rev (be_bytes 4 (unat (nd_asn info))) @ nd_ospf_area_Id info) \<and>
    nd_hash_bin (genNodeHashId (info\<lparr>nd_bgp_router_id := b\<rparr>)) = nd_hash_bin (genNodeHashId info)"
  using assms hash_of_spec [of "[nd_igp_router_id info, mem32 (nd_bgp_ls_id info), mem32 (nd_asn info), nd_ospf_area_Id info]"]
  by (simp add: genNodeHashId_def mem32_def del: be_bytes_numeral)

theorem node_hash_fields_example:
  "nd_hash_bin (genNodeHashId (zero_node_descr\<lparr>nd_bgp_router_id := [192, 0, 2, 1]\<rparr>)) = nd_hash_bin (genNodeHashId zero_node_descr)"
  using node_hash_fields [of zero_node_descr "[192, 0, 2, 1]"] by (simp add: zero_node_descr_def)

end
