(* ===== verification/LinkStateAttr.thy ===== *)
theory LinkStateAttr
  imports Complex_Main LinkState
begin

text \<open>
  \<open>bgp/linkstate/MPLinkStateAttr.cpp\<close>: the BGP-LS attribute, a list of TLVs about the nodes, links and prefixes
  of the message. The value of a TLV is stored in an array of 255 bytes, keyed by its type. The length of a
  TLV is not compared with the bytes that are left, so that a value is read wherever it lies.
\<close>

section \<open>Types and flags\<close>

definition ATTR_NODE_MT_ID :: nat where "ATTR_NODE_MT_ID = 263"
definition ATTR_NODE_FLAG :: nat where "ATTR_NODE_FLAG = 1024"
definition ATTR_NODE_NAME :: nat where "ATTR_NODE_NAME = 1026"
definition ATTR_NODE_ISIS_AREA_ID :: nat where "ATTR_NODE_ISIS_AREA_ID = 1027"
definition ATTR_NODE_IPV4_ROUTER_ID_LOCAL :: nat where "ATTR_NODE_IPV4_ROUTER_ID_LOCAL = 1028"
definition ATTR_NODE_IPV6_ROUTER_ID_LOCAL :: nat where "ATTR_NODE_IPV6_ROUTER_ID_LOCAL = 1029"
definition ATTR_NODE_SR_CAPABILITIES :: nat where "ATTR_NODE_SR_CAPABILITIES = 1034"
definition SUB_TLV_SID_LABEL :: nat where "SUB_TLV_SID_LABEL = 1161"
definition ATTR_LINK_IPV4_ROUTER_ID_REMOTE :: nat where "ATTR_LINK_IPV4_ROUTER_ID_REMOTE = 1030"
definition ATTR_LINK_IPV6_ROUTER_ID_REMOTE :: nat where "ATTR_LINK_IPV6_ROUTER_ID_REMOTE = 1031"
definition ATTR_LINK_ADMIN_GROUP :: nat where "ATTR_LINK_ADMIN_GROUP = 1088"
definition ATTR_LINK_MAX_LINK_BW :: nat where "ATTR_LINK_MAX_LINK_BW = 1089"
definition ATTR_LINK_MAX_RESV_BW :: nat where "ATTR_LINK_MAX_RESV_BW = 1090"
definition ATTR_LINK_UNRESV_BW :: nat where "ATTR_LINK_UNRESV_BW = 1091"
definition ATTR_LINK_TE_DEF_METRIC :: nat where "ATTR_LINK_TE_DEF_METRIC = 1092"
definition ATTR_LINK_PROTECTION_TYPE :: nat where "ATTR_LINK_PROTECTION_TYPE = 1093"
definition ATTR_LINK_MPLS_PROTO_MASK :: nat where "ATTR_LINK_MPLS_PROTO_MASK = 1094"
definition ATTR_LINK_IGP_METRIC :: nat where "ATTR_LINK_IGP_METRIC = 1095"
definition ATTR_LINK_SRLG :: nat where "ATTR_LINK_SRLG = 1096"
definition ATTR_LINK_NAME :: nat where "ATTR_LINK_NAME = 1098"
definition ATTR_LINK_ADJACENCY_SID :: nat where "ATTR_LINK_ADJACENCY_SID = 1099"
definition ATTR_LINK_PEER_EPE_NODE_SID :: nat where "ATTR_LINK_PEER_EPE_NODE_SID = 1101"
definition ATTR_PREFIX_IGP_FLAGS :: nat where "ATTR_PREFIX_IGP_FLAGS = 1152"
definition ATTR_PREFIX_ROUTE_TAG :: nat where "ATTR_PREFIX_ROUTE_TAG = 1153"
definition ATTR_PREFIX_EXTEND_TAG :: nat where "ATTR_PREFIX_EXTEND_TAG = 1154"
definition ATTR_PREFIX_PREFIX_METRIC :: nat where "ATTR_PREFIX_PREFIX_METRIC = 1155"
definition ATTR_PREFIX_OSPF_FWD_ADDR :: nat where "ATTR_PREFIX_OSPF_FWD_ADDR = 1156"
definition ATTR_PREFIX_SID :: nat where "ATTR_PREFIX_SID = 1158"

lemmas node_attr_types =
  ATTR_NODE_MT_ID_def ATTR_NODE_FLAG_def ATTR_NODE_NAME_def ATTR_NODE_ISIS_AREA_ID_def ATTR_NODE_IPV4_ROUTER_ID_LOCAL_def
  ATTR_NODE_IPV6_ROUTER_ID_LOCAL_def ATTR_NODE_SR_CAPABILITIES_def SUB_TLV_SID_LABEL_def
lemmas link_attr_types =
  ATTR_LINK_IPV4_ROUTER_ID_REMOTE_def ATTR_LINK_IPV6_ROUTER_ID_REMOTE_def ATTR_LINK_ADMIN_GROUP_def
  ATTR_LINK_MAX_LINK_BW_def ATTR_LINK_MAX_RESV_BW_def ATTR_LINK_UNRESV_BW_def ATTR_LINK_TE_DEF_METRIC_def
  ATTR_LINK_PROTECTION_TYPE_def ATTR_LINK_MPLS_PROTO_MASK_def ATTR_LINK_IGP_METRIC_def ATTR_LINK_SRLG_def
  ATTR_LINK_NAME_def ATTR_LINK_ADJACENCY_SID_def ATTR_LINK_PEER_EPE_NODE_SID_def
lemmas prefix_attr_types =
  ATTR_PREFIX_IGP_FLAGS_def ATTR_PREFIX_ROUTE_TAG_def ATTR_PREFIX_EXTEND_TAG_def ATTR_PREFIX_PREFIX_METRIC_def
  ATTR_PREFIX_OSPF_FWD_ADDR_def ATTR_PREFIX_SID_def
lemmas attr_types = node_attr_types link_attr_types prefix_attr_types

definition LS_FLAGS_NODE_NLRI :: "string list" where
  "LS_FLAGS_NODE_NLRI = [''O'', ''T'', ''E'', ''B'', ''R'', ''V'']"
definition LS_FLAGS_PEER_ADJ_SID_ISIS :: "string list" where
  "LS_FLAGS_PEER_ADJ_SID_ISIS = [''F'', ''B'', ''V'', ''L'', ''S'']"
definition LS_FLAGS_PEER_ADJ_SID_OSPF :: "string list" where
  "LS_FLAGS_PEER_ADJ_SID_OSPF = [''B'', ''V'', ''L'', ''G'']"
definition LS_FLAGS_SR_CAP_ISIS :: "string list" where
  "LS_FLAGS_SR_CAP_ISIS = [''I'', ''V'', ''H'']"
definition LS_FLAGS_PREFIX_SID_ISIS :: "string list" where
  "LS_FLAGS_PREFIX_SID_ISIS = [''R'', ''N'', ''P'', ''E'', ''V'', ''L'']"
definition LS_FLAGS_PREFIX_SID_OSPF :: "string list" where
  "LS_FLAGS_PREFIX_SID_OSPF = ['''', ''NP'', ''M'', ''E'', ''V'', ''L'']"

text \<open>The leftmost bit belongs to the first flag; the mask moves right by one bit per flag.\<close>

fun flags_from :: "u8 \<Rightarrow> u8 \<Rightarrow> string list \<Rightarrow> string" where
  "flags_from m data [] = ''''"
| "flags_from m data (f # fs) = (if m AND data \<noteq> 0 then f else '''') @ flags_from (drop_bit 1 m) data fs"

definition parse_flags_to_string :: "u8 \<Rightarrow> string list \<Rightarrow> string" where
  "parse_flags_to_string data flags_array = flags_from 0x80 data flags_array"

section \<open>Bandwidths\<close>

text \<open>Division of C, which rounds towards zero.\<close>

definition c_div :: "int \<Rightarrow> int \<Rightarrow> int" where
  "c_div a b = (if a < 0 then - ((- a) div b) else a div b)"

definition in_int64 :: "int \<Rightarrow> bool" where
  "in_int64 x \<longleftrightarrow> - (2 ^ 63) \<le> x \<and> x < 2 ^ 63"

definition ieee_float_to_kbps :: "u32 \<Rightarrow> u32 result" where
  "ieee_float_to_kbps float_val =
     (let sign = float_val AND 0x80000000; expo = float_val AND 0x7F800000; mantissa = float_val AND 0x007FFFFF
      in if float_val AND NOT 0x80000000 = 0 then Inr 0
         else if expo = 0x7F800000 then Inr (if sign \<noteq> 0 then 0x80000000 else 0x7FFFFFFF)
         else let e = int (unat (drop_bit 23 expo)) - 127
         in if e < 0 then Inr 0
            else let m = int (unat (mantissa OR 0x00800000));
                     bits_value = (if e \<le> 23 then m div 2 ^ nat (23 - e) else m * 2 ^ nat (e - 23))
            in if \<not> in_int64 bits_value then Inl Overflow
               else let bits_value = (if sign \<noteq> 0 then - bits_value else bits_value) * 8
               in if \<not> in_int64 bits_value then Inl Overflow
                  else Inr (of_int (c_div bits_value 1000)))"

section \<open>Arrays\<close>

definition attr_array :: "nat \<Rightarrow> ls_info \<Rightarrow> bytes" where
  "attr_array k st = (case ls_attrs st k of None \<Rightarrow> replicate 255 0 | Some a \<Rightarrow> a)"

definition set_array :: "nat \<Rightarrow> bytes \<Rightarrow> ls_info \<Rightarrow> ls_info" where
  "set_array k a st = st\<lparr>ls_attrs := (ls_attrs st)(k \<mapsto> a)\<rparr>"

text \<open>\<open>memcpy\<close> to the start of an array.\<close>

definition store_bytes :: "nat \<Rightarrow> bytes \<Rightarrow> ls_info \<Rightarrow> ls_info result" where
  "store_bytes k bs st = (if length bs \<le> 255 then Inr (set_array k (poke 0 bs (attr_array k st)) st) else Inl BufferOverflow)"

text \<open>\<open>fill(0)\<close> and a \<open>strncpy\<close> of \<open>n\<close> bytes from the message, which stops reading at a zero byte.\<close>

definition store_name :: "nat \<Rightarrow> nat \<Rightarrow> bytes \<Rightarrow> ls_info \<Rightarrow> ls_info result" where
  "store_name k n src st =
     (let t = takeWhile (\<lambda>b. b \<noteq> 0) (take n src)
      in if length t < n \<and> length t = length src then Inl OutOfBounds
         else if n > 255 then Inl BufferOverflow
         else Inr (set_array k (t @ replicate (255 - length t) 0) st))"

text \<open>\<open>strlen\<close> of an array, and \<open>strncat\<close> with the size of the array minus its length as the bound.\<close>

definition array_len :: "nat \<Rightarrow> ls_info \<Rightarrow> nat result" where
  "array_len k st = andThen (c_bytes (attr_array k st)) (\<lambda>t. Inr (length t))"

definition append_text :: "nat \<Rightarrow> string \<Rightarrow> ls_info \<Rightarrow> ls_info result" where
  "append_text k s st =
     andThen (array_len k st) (\<lambda>n.
       let t = take (255 - n) (text_bytes (c_str s))
       in if n + length t + 1 > 255 then Inl BufferOverflow
          else Inr (set_array k (poke n (t @ [0]) (attr_array k st)) st))"

text \<open>A number of at most four bytes: \<open>memcpy\<close> into a zeroed variable and \<open>SWAP_BYTES\<close> of the copied bytes.\<close>

definition short_number :: "nat \<Rightarrow> bytes \<Rightarrow> bytes result" where
  "short_number len data = andThen (rd len data) (\<lambda>b. Inr (SWAP_BYTES (b @ replicate (4 - len) 0) len))"

section \<open>Values\<close>

definition parse_sid_value :: "(bytes \<Rightarrow> string) \<Rightarrow> bytes \<Rightarrow> int \<Rightarrow> string result" where
  "parse_sid_value f6 data len =
     (if len = 3 then andThen (short_number 3 data) (\<lambda>v. Inr (dec_of_nat (unat (num32 v))))
      else if len \<ge> 16 then andThen (rd 16 data) (\<lambda>b. Inr (f6 b))
      else if len = 4 then andThen (ntoh 4 data) (\<lambda>v. Inr (dec_of_nat v))
      else Inr '''')"

text \<open>\<open>strcmp(s, t) >= 0\<close>, and the use the source makes of it to tell the protocols apart.\<close>

fun strcmp_ge :: "string \<Rightarrow> string \<Rightarrow> bool" where
  "strcmp_ge s [] = True"
| "strcmp_ge [] (b # bs) = False"
| "strcmp_ge (a # as) (b # bs) = (if a = b then strcmp_ge as bs else (of_char a :: nat) > of_char b)"

definition front_protocol :: "('a \<Rightarrow> string) \<Rightarrow> 'a list \<Rightarrow> string result" where
  "front_protocol f xs = (case xs of [] \<Rightarrow> Inl OutOfBounds | x # _ \<Rightarrow> Inr (f x))"

definition protocol_flags :: "string \<Rightarrow> (u8 \<Rightarrow> string) \<Rightarrow> (u8 \<Rightarrow> string) \<Rightarrow> bytes \<Rightarrow> string result" where
  "protocol_flags protocol isis ospf data =
     (if strcmp_ge protocol ''IS-IS'' then andThen (rd_u8 data) (\<lambda>b. Inr (isis b))
      else if strcmp_ge protocol ''OSPF'' then andThen (rd_u8 data) (\<lambda>b. Inr (ospf b))
      else Inr '''')"

text \<open>The numbers of \<open>ATTR_NODE_MT_ID\<close>: \<open>n\<close> bytes are left.\<close>

fun mt_id_text :: "bool \<Rightarrow> nat \<Rightarrow> bytes \<Rightarrow> string result" where
  "mt_id_text first n data =
     (if n = 0 then Inr ''''
      else andThen (ntoh 2 data) (\<lambda>v.
           andThen (mt_id_text False (n - 2) (drop 2 data)) (\<lambda>s.
             Inr ((if first then '''' else '', '') @ dec_of_nat v @ s))))"

declare mt_id_text.simps [simp del]

text \<open>
  The ranges of \<open>ATTR_NODE_SR_CAPABILITIES\<close>. The pointer is moved over the range and the header of the SID TLV
  and not over the SID.
\<close>

function sr_ranges :: "nat \<Rightarrow> nat \<Rightarrow> bytes \<Rightarrow> string result" where
  "sr_ranges l len data =
     (if l < len
      then andThen (rd 3 data) (\<lambda>b.
           andThen (ntoh 2 (drop 3 data)) (\<lambda>t.
           andThen (ntoh 2 (drop 5 data)) (\<lambda>sid_label_size.
             let s = (if l \<ge> 12 then '', '' else '''') @ dec_of_nat (unat (drop_bit 8 (num32 (SWAP_BYTES (b @ [0]) 4)))); data = drop 7 data
             in if t = SUB_TLV_SID_LABEL \<and> (sid_label_size = 3 \<or> sid_label_size = 4)
                then andThen (rd sid_label_size data) (\<lambda>v.
                     andThen (sr_ranges (if sid_label_size = 3 then l + 10 else l + 1 + 10) len data) (\<lambda>rest.
                       Inr (s @ '' '' @ dec_of_nat (be_val v) @ rest)))
                else Inr s)))
      else Inr '''')"
  by pat_completeness auto
termination by (relation "measure (\<lambda>(l, len, _). len - l)") auto

declare sr_ranges.simps [simp del]

definition sr_capabilities :: "string \<Rightarrow> nat \<Rightarrow> bytes \<Rightarrow> string result" where
  "sr_capabilities protocol len data =
     andThen (protocol_flags protocol (\<lambda>b. parse_flags_to_string b LS_FLAGS_SR_CAP_ISIS) (\<lambda>b. dec_of_nat (unat b)) data) (\<lambda>f.
     andThen (sr_ranges 2 len (drop 2 data)) (\<lambda>s. Inr (f @ '' '' @ s)))"

text \<open>Eight bandwidths, printed as signed numbers.\<close>

fun unreserved_text :: "nat \<Rightarrow> bytes \<Rightarrow> string result" where
  "unreserved_text 0 data = Inr ''''"
| "unreserved_text (Suc n) data =
     andThen (ntoh 4 data) (\<lambda>v.
     andThen (ieee_float_to_kbps (of_nat v)) (\<lambda>k.
     andThen (unreserved_text n (drop 4 data)) (\<lambda>s.
       Inr ((if Suc n = 8 then '''' else '', '') @ dec_of_int (sint k) @ s))))"

definition adjacency_sid :: "(bytes \<Rightarrow> string) \<Rightarrow> string \<Rightarrow> nat \<Rightarrow> nat \<Rightarrow> bytes \<Rightarrow> string result" where
  "adjacency_sid f6 protocol old_len len data =
     andThen (protocol_flags protocol (\<lambda>b. parse_flags_to_string b LS_FLAGS_PEER_ADJ_SID_ISIS)
                (\<lambda>b. parse_flags_to_string b LS_FLAGS_PEER_ADJ_SID_OSPF) data) (\<lambda>f.
     andThen (rd_u8 (drop 1 data)) (\<lambda>weight.
     andThen (parse_sid_value f6 (drop 4 data) (int len - 4)) (\<lambda>s.
       Inr ((if old_len > 0 then '', '' else '''') @ f @ '' '' @ dec_of_nat (unat weight) @ '' '' @ s))))"

definition prefix_sid :: "(bytes \<Rightarrow> string) \<Rightarrow> string \<Rightarrow> nat \<Rightarrow> nat \<Rightarrow> bytes \<Rightarrow> string result" where
  "prefix_sid f6 protocol old_len len data =
     andThen (protocol_flags protocol (\<lambda>b. parse_flags_to_string b LS_FLAGS_PREFIX_SID_ISIS)
                (\<lambda>b. parse_flags_to_string b LS_FLAGS_PREFIX_SID_OSPF) data) (\<lambda>f.
     andThen (rd_u8 (drop 1 data)) (\<lambda>alg.
     andThen (parse_sid_value f6 (drop 4 data) (int len - 4)) (\<lambda>s.
       Inr ((if old_len > 0 then '', '' else '''') @ f @ '' '' @
         (if alg = 0 then ''SPF '' else if alg = 1 then ''strict-SPF '' else '''') @ s))))"

definition epe_node_sid :: "(bytes \<Rightarrow> string) \<Rightarrow> nat \<Rightarrow> bytes \<Rightarrow> string result" where
  "epe_node_sid f6 len data =
     andThen (rd 2 data) (\<lambda>b.
     andThen (parse_sid_value f6 (drop 4 data) (int len - 4)) (\<lambda>s.
       Inr ((if b ! 0 AND 0x80 \<noteq> 0 then ''V'' else '''') @ (if b ! 0 AND 0x40 \<noteq> 0 then ''L'' else '''') @
         '' '' @ dec_of_nat (unat (b ! 1)) @ '' '' @ s)))"

section \<open>The attribute\<close>

definition fixed_value :: "nat \<Rightarrow> nat \<Rightarrow> nat \<Rightarrow> bytes \<Rightarrow> ls_info \<Rightarrow> ls_info result" where
  "fixed_value n k len data st = (if len \<noteq> n then Inr st else andThen (rd n data) (\<lambda>b. store_bytes k b st))"

definition bandwidth :: "nat \<Rightarrow> nat \<Rightarrow> bytes \<Rightarrow> ls_info \<Rightarrow> ls_info result" where
  "bandwidth k len data st =
     (if len \<noteq> 4 then Inr st
      else andThen (ntoh 4 data) (\<lambda>v. andThen (ieee_float_to_kbps (of_nat v)) (\<lambda>f. store_bytes k (mem32 f) st)))"

text \<open>The \<open>switch\<close> over the type of a TLV. Types that are only logged fall under the last case.\<close>

definition node_attr :: "nat \<Rightarrow> nat \<Rightarrow> bytes \<Rightarrow> ls_info \<Rightarrow> ls_info result" where
  "node_attr t len data st =
     (if t = ATTR_NODE_FLAG then
        andThen (rd_u8 data) (\<lambda>b. Inr (set_array t (poke 0 (text_bytes (parse_flags_to_string b LS_FLAGS_NODE_NLRI)) (replicate 255 0)) st))
      else if t = ATTR_NODE_IPV4_ROUTER_ID_LOCAL then fixed_value 4 t len data st
      else if t = ATTR_NODE_IPV6_ROUTER_ID_LOCAL then fixed_value 16 t len data st
      else if t = ATTR_NODE_ISIS_AREA_ID then
        andThen (if len \<le> 8 then rd len data else Inr []) (\<lambda>b.
          Inr (set_array t ((poke 0 b (attr_array t st))[8 := of_nat len]) st))
      else if t = ATTR_NODE_MT_ID then
        andThen (mt_id_text True len data) (\<lambda>s. store_bytes t (text_bytes s @ [0]) st)
      else if t = ATTR_NODE_NAME then store_name t len data st
      else if t = ATTR_NODE_SR_CAPABILITIES then
        andThen (front_protocol node_protocol (ls_nodes (ls st))) (\<lambda>p.
        andThen (sr_capabilities p len data) (\<lambda>s. store_bytes t (text_bytes s) st))
      else Inr st)"

definition link_attr :: "(bytes \<Rightarrow> string) \<Rightarrow> nat \<Rightarrow> nat \<Rightarrow> bytes \<Rightarrow> ls_info \<Rightarrow> ls_info result" where
  "link_attr f6 t len data st =
     (if t = ATTR_LINK_ADMIN_GROUP then
        if len \<noteq> 4 then Inr st else andThen (short_number len data) (\<lambda>v. store_bytes t v st)
      else if t = ATTR_LINK_IGP_METRIC then
        if len \<le> 4 then andThen (short_number len data) (\<lambda>v. store_bytes t v st) else Inr st
      else if t = ATTR_LINK_IPV4_ROUTER_ID_REMOTE then fixed_value 4 t len data st
      else if t = ATTR_LINK_IPV6_ROUTER_ID_REMOTE then fixed_value 16 t len data st
      else if t = ATTR_LINK_MAX_LINK_BW then bandwidth t len data st
      else if t = ATTR_LINK_MAX_RESV_BW then bandwidth t len data st
      else if t = ATTR_LINK_NAME then store_name t len data st
      else if t = ATTR_LINK_ADJACENCY_SID then
        andThen (array_len t st) (\<lambda>n.
        andThen (front_protocol link_protocol (ls_links (ls st))) (\<lambda>p.
        andThen (adjacency_sid f6 p n len data) (\<lambda>s. append_text t s st)))
      else if t = ATTR_LINK_TE_DEF_METRIC then
        if len = 0 then store_bytes t [] st
        else if len > 4 then Inr st
        else andThen (short_number len data) (\<lambda>v. store_bytes t (take len v) st)
      else if t = ATTR_LINK_UNRESV_BW then
        if len \<noteq> 32 then Inr st else andThen (unreserved_text 8 data) (\<lambda>s. store_bytes t (text_bytes s) st)
      else if t = ATTR_LINK_PEER_EPE_NODE_SID then
        andThen (epe_node_sid f6 len data) (\<lambda>s. store_bytes t (text_bytes s) st)
      else Inr st)"

definition prefix_attr :: "(bytes \<Rightarrow> string) \<Rightarrow> nat \<Rightarrow> nat \<Rightarrow> bytes \<Rightarrow> ls_info \<Rightarrow> ls_info result" where
  "prefix_attr f6 t len data st =
     (if t = ATTR_PREFIX_PREFIX_METRIC then
        andThen (if len \<le> 4 then short_number len data else Inr (replicate 4 0)) (\<lambda>v. store_bytes t v st)
      else if t = ATTR_PREFIX_ROUTE_TAG then
        if len = 4 then andThen (short_number len data) (\<lambda>v. store_bytes t v st) else Inr st
      else if t = ATTR_PREFIX_SID then
        andThen (array_len t st) (\<lambda>n.
        andThen (front_protocol lsp_protocol (ls_prefixes (ls st))) (\<lambda>p.
        andThen (prefix_sid f6 p n len data) (\<lambda>s. append_text t s st)))
      else Inr st)"

definition ls_attr_value :: "(bytes \<Rightarrow> string) \<Rightarrow> nat \<Rightarrow> nat \<Rightarrow> bytes \<Rightarrow> ls_info \<Rightarrow> ls_info result" where
  "ls_attr_value f6 t len data st =
     (if t < ATTR_LINK_IPV4_ROUTER_ID_REMOTE \<or> t = ATTR_NODE_SR_CAPABILITIES then node_attr t len data st
      else if t < ATTR_PREFIX_IGP_FLAGS then link_attr f6 t len data st
      else prefix_attr f6 t len data st)"

definition parseAttrLinkStateTLV :: "(bytes \<Rightarrow> string) \<Rightarrow> nat \<Rightarrow> bytes \<Rightarrow> ls_info \<Rightarrow> (nat \<times> ls_info) result" where
  "parseAttrLinkStateTLV f6 attr_len data st =
     (if attr_len < 4 then Inr (attr_len, st)
      else andThen (ntoh 2 data) (\<lambda>t.
           andThen (ntoh 2 (drop 2 data)) (\<lambda>len.
           andThen (ls_attr_value f6 t len (drop 4 data) st) (\<lambda>st. Inr (len + 4, st)))))"

lemma parseAttrTLV_pos: "ret (parseAttrLinkStateTLV f6 n data st) (\<lambda>(k, _). 0 < n \<longrightarrow> 0 < k)"
  by (simp add: parseAttrLinkStateTLV_def wp)

text \<open>The loop; \<open>attr_len\<close> may become negative in the source, which ends the loop like zero.\<close>

function ls_attr_loop :: "(bytes \<Rightarrow> string) \<Rightarrow> bytes \<Rightarrow> nat \<Rightarrow> ls_info \<Rightarrow> ls_info result" where
  "ls_attr_loop f6 data attr_len st =
     (if attr_len > 0
      then andThen (parseAttrLinkStateTLV f6 attr_len data st) (\<lambda>(tlv_len, st).
             ls_attr_loop f6 (drop tlv_len data) (attr_len - tlv_len) st)
      else Inr st)"
  by pat_completeness auto
termination
  by (relation "measure (\<lambda>(_, _, n, _). n)") (auto dest!: retD [OF parseAttrTLV_pos])

declare ls_attr_loop.simps [simp del]

definition parseAttrLinkState :: "(bytes \<Rightarrow> string) \<Rightarrow> nat \<Rightarrow> bytes \<Rightarrow> ls_info parsed_update_data \<Rightarrow> ls_info parsed_update_data result" where
  "parseAttrLinkState f6 attr_len data pd =
     andThen (ls_attr_loop f6 data attr_len (ls_part pd)) (\<lambda>st. Inr (pd\<lparr>ls_part := st\<rparr>))"

section \<open>The meaning of a bandwidth\<close>

text \<open>The value of a normal number in single precision, and rounding towards zero.\<close>

definition ieee_exponent :: "u32 \<Rightarrow> int" where
  "ieee_exponent w = int (unat (drop_bit 23 (w AND 0x7F800000))) - 127"

definition ieee_fraction :: "u32 \<Rightarrow> nat" where
  "ieee_fraction w = unat (w AND 0x007FFFFF)"

definition ieee_abs :: "u32 \<Rightarrow> real" where
  "ieee_abs w = (1 + real (ieee_fraction w) / 2 ^ 23) * 2 powr ieee_exponent w"

definition ieee_value :: "u32 \<Rightarrow> real" where
  "ieee_value w = (if w AND 0x80000000 \<noteq> 0 then -1 else 1) * ieee_abs w"

definition trunc_int :: "real \<Rightarrow> int" where
  "trunc_int x = (if x < 0 then - \<lfloor>- x\<rfloor> else \<lfloor>x\<rfloor>)"

lemma ieee_abs_ge: "0 \<le> ieee_abs w"
  by (simp add: ieee_abs_def)

lemma trunc_int_sign: "0 \<le> a \<Longrightarrow> trunc_int ((if s then -1 else 1) * a) = (if s then - \<lfloor>a\<rfloor> else \<lfloor>a\<rfloor>)"
  by (cases "a = 0") (auto simp: trunc_int_def)

lemma c_div_trunc: "0 < b \<Longrightarrow> c_div a b = trunc_int (of_int a / of_int b)"
  using floor_divide_of_int_eq [of "- a" b, where 'a = real] floor_divide_of_int_eq [of a b, where 'a = real]
  by (auto simp: c_div_def trunc_int_def divide_less_0_iff)

lemma ieee_fraction_less: "ieee_fraction w < 2 ^ 23"
proof -
  have "w AND 0x007FFFFF = take_bit 23 w" by (simp add: take_bit_eq_mask mask_eq_exp_minus_1)
  then have "ieee_fraction w = take_bit 23 (unat w)" by (simp add: ieee_fraction_def unsigned_take_bit_eq)
  then show ?thesis using take_bit_nat_less_exp [of 23 "unat w"] by simp
qed

lemma implied_bit: "int (unat ((w AND 0x007FFFFF) OR 0x00800000 :: u32)) = int (2 ^ 23 + ieee_fraction w)"
proof -
  have z: "(w AND 0x007FFFFF) AND 0x00800000 = (0 :: u32)" by (simp add: and.assoc)
  then have "(w AND 0x007FFFFF) OR 0x00800000 = (w AND 0x007FFFFF) + 0x00800000" by (simp add: disjunctive_add_eq_or)
  then have "unat ((w AND 0x007FFFFF) OR 0x00800000) = (ieee_fraction w + 2 ^ 23) mod 2 ^ 32"
    by (simp add: unat_word_ariths ieee_fraction_def)
  then show ?thesis using ieee_fraction_less [of w] by simp
qed

lemma ieee_abs_scaled:
  assumes "0 \<le> ieee_exponent w"
  shows "ieee_abs w =
    (if ieee_exponent w \<le> 23 then real_of_int (2 ^ 23 + ieee_fraction w) / 2 ^ nat (23 - ieee_exponent w)
     else real_of_int (2 ^ 23 + ieee_fraction w) * 2 ^ nat (ieee_exponent w - 23))" (is "_ = (if ?e \<le> 23 then ?m / _ else _)")
proof -
  have "1 + real (ieee_fraction w) / 2 ^ 23 = ?m / 2 ^ 23" by (simp add: field_simps)
  moreover have "2 powr of_int ?e = (2 :: real) ^ nat ?e" using assms by (simp add: powr_real_of_int)
  moreover have "?m / 2 ^ 23 * 2 ^ nat ?e = ?m / 2 ^ nat (23 - ?e)" if "?e \<le> 23"
  proof -
    have "(2 :: real) ^ 23 = 2 ^ nat (23 - ?e) * 2 ^ nat ?e" using that assms by (simp flip: power_add nat_add_distrib)
    then show ?thesis by (simp add: field_simps)
  qed
  moreover have "?m / 2 ^ 23 * 2 ^ nat ?e = ?m * 2 ^ nat (?e - 23)" if "\<not> ?e \<le> 23"
  proof -
    have "nat ?e = nat (?e - 23) + 23" using that by simp
    then have "(2 :: real) ^ nat ?e = 2 ^ nat (?e - 23) * 2 ^ 23" by (simp only: power_add)
    then show ?thesis by simp
  qed
  ultimately show ?thesis unfolding ieee_abs_def by presburger
qed

lemma ieee_floor:
  assumes "0 \<le> ieee_exponent w"
  shows "\<lfloor>ieee_abs w\<rfloor> =
    (let e = ieee_exponent w; m = int (unat ((w AND 0x007FFFFF) OR 0x00800000))
     in if e \<le> 23 then m div 2 ^ nat (23 - e) else m * 2 ^ nat (e - 23))"
proof -
  let ?m = "int (2 ^ 23 + ieee_fraction w)" and ?e = "ieee_exponent w"
  have "\<lfloor>real_of_int ?m / 2 ^ nat (23 - ?e)\<rfloor> = ?m div 2 ^ nat (23 - ?e)"
    using floor_divide_of_int_eq [of ?m "2 ^ nat (23 - ?e)", where 'a = real] by simp
  moreover have "\<lfloor>real_of_int ?m * 2 ^ nat (?e - 23)\<rfloor> = ?m * 2 ^ nat (?e - 23)"
    using floor_of_int [of "?m * 2 ^ nat (?e - 23)", where 'a = real] by simp
  ultimately show ?thesis
    by (simp only: ieee_abs_scaled [OF assms] implied_bit Let_def of_nat_add of_nat_power of_nat_numeral split: if_split) simp
qed

lemma ieee_small:
  assumes "ieee_exponent w < 0"
  shows "\<lfloor>ieee_abs w\<rfloor> = 0"
proof -
  have "1 + real (ieee_fraction w) / 2 ^ 23 < 2" using ieee_fraction_less [of w] by simp
  moreover have "2 powr of_int (ieee_exponent w) \<le> (2 :: real) powr (- 1)" using assms by (intro powr_mono) auto
  ultimately have "ieee_abs w < 2 * 2 powr (- 1)"
    unfolding ieee_abs_def by (intro mult_less_le_imp_less) auto
  then show ?thesis using ieee_abs_ge [of w] by (simp add: floor_eq_iff powr_minus)
qed

text \<open>
  C15. The bandwidth of a link. For a normal number of IEEE 754 in single precision with the value \<open>v\<close> (bytes per
  second) the result is the kilobits per second: \<open>v\<close> is cut to whole bytes, multiplied by eight and divided by
  thousand, rounding towards zero, and kept modulo \<open>2 ^ 32\<close>. The 64-bit arithmetic overflows exactly when
  the whole bytes are not in the range from \<open>- (2 ^ 60)\<close> to \<open>2 ^ 60 - 1\<close>.
\<close>

theorem kbps_of_value:
  assumes "w AND 0x7F800000 \<noteq> 0" "w AND 0x7F800000 \<noteq> 0x7F800000"
  shows "ieee_float_to_kbps w =
    (let t = trunc_int (ieee_value w)
     in if - (2 ^ 60) \<le> t \<and> t < 2 ^ 60 then Inr (of_int (trunc_int (8 * of_int t / 1000))) else Inl Overflow)"
proof -
  have t: "trunc_int (ieee_value w) = (if w AND 0x80000000 \<noteq> 0 then - \<lfloor>ieee_abs w\<rfloor> else \<lfloor>ieee_abs w\<rfloor>)"
    unfolding ieee_value_def by (rule trunc_int_sign [OF ieee_abs_ge])
  have "w AND NOT 0x80000000 \<noteq> 0"
  proof
    assume "w AND NOT 0x80000000 = 0"
    then have "(w AND NOT 0x80000000) AND 0x7F800000 = 0" by simp
    with assms(1) show False by (simp add: and.assoc)
  qed
  note head = this assms(2)
  show ?thesis
  proof (cases "ieee_exponent w < 0")
    case True
    with t ieee_small [OF this] head show ?thesis
      by (simp add: ieee_float_to_kbps_def ieee_exponent_def Let_def trunc_int_def)
  next
    case False
    then have f: "\<lfloor>ieee_abs w\<rfloor> = (let e = ieee_exponent w; m = int (unat ((w AND 0x007FFFFF) OR 0x00800000))
       in if e \<le> 23 then m div 2 ^ nat (23 - e) else m * 2 ^ nat (e - 23))" by (simp add: ieee_floor)
    have "ieee_float_to_kbps w = (let b = \<lfloor>ieee_abs w\<rfloor> in
      if \<not> in_int64 b then Inl Overflow
      else let v = (if w AND 0x80000000 \<noteq> 0 then - b else b) * 8
        in if \<not> in_int64 v then Inl Overflow else Inr (of_int (c_div v 1000)))"
      unfolding f ieee_float_to_kbps_def Let_def by (simp only: head False if_False flip: ieee_exponent_def)
    then show ?thesis using t ieee_abs_ge [of w] 
      by (auto simp: Let_def in_int64_def c_div_trunc mult.commute)
  qed
qed

text \<open>Of 12500000 bytes per second, \<open>0x4B3EBC20\<close>, 100000 kilobits per second remain.\<close>

theorem kbps_of_value_witness:
  "(0x4B3EBC20 :: u32) AND 0x7F800000 \<noteq> 0 \<and> (0x4B3EBC20 :: u32) AND 0x7F800000 \<noteq> 0x7F800000 \<and>
   trunc_int (ieee_value 0x4B3EBC20) = 12500000 \<and> ieee_float_to_kbps 0x4B3EBC20 = Inr 100000"
proof -
  have "ieee_value 0x4B3EBC20 = 12500000"
    by (simp add: ieee_value_def ieee_abs_def ieee_fraction_def ieee_exponent_def)
  then have "trunc_int (ieee_value 0x4B3EBC20) = 12500000" by (simp add: trunc_int_def)
  then show ?thesis using kbps_of_value [of "0x4B3EBC20"] by (simp add: trunc_int_def)
qed

section \<open>Decoding what was encoded\<close>

lemma attr_loop_take:
  assumes "t < 2 ^ 16" "4 + length v \<le> n" "n < 2 ^ 16"
  shows "ls_attr_loop f6 (ls_tlv t v @ rest) n st =
    andThen (ls_attr_value f6 t (length v) (v @ rest) st) (ls_attr_loop f6 rest (n - (4 + length v)))"
proof -
  have "ntoh 2 (ls_tlv t v @ rest) = Inr t" "ntoh 2 (drop 2 (ls_tlv t v @ rest)) = Inr (length v)"
    "drop 4 (ls_tlv t v @ rest) = v @ rest" "drop (length v + 4) (ls_tlv t v @ rest) = rest"
    using assms by (simp_all add: ls_tlv_def be_val_be_bytes del: be_bytes_numeral)
  then show ?thesis
    using assms
    by (cases "ls_attr_value f6 t (length v) (v @ rest) st"; subst ls_attr_loop.simps)
      (simp_all add: parseAttrLinkStateTLV_def add.commute del: drop_append)
qed

datatype attr_tlv =
    Flags_Tlv u8
  | Name_Tlv nat bytes
  | Area_Tlv bytes
  | Router_Tlv nat bytes
  | Mt_Tlv "u16 list"
  | Number_Tlv nat bytes
  | Te_Tlv bytes
  | Bandwidth_Tlv nat u32
  | Other_Tlv nat bytes

fun join_text :: "string list \<Rightarrow> string" where
  "join_text [] = ''''"
| "join_text [x] = x"
| "join_text (x # y # xs) = x @ '', '' @ join_text (y # xs)"

definition handled_types :: "nat set" where
  "handled_types = {263, 1024, 1026, 1027, 1028, 1029, 1034, 1030, 1031, 1088, 1089, 1090, 1091, 1092, 1095, 1098, 1099, 1101, 1153, 1155, 1158}"

fun tlv_type :: "attr_tlv \<Rightarrow> nat" where
  "tlv_type (Flags_Tlv f) = 1024"
| "tlv_type (Name_Tlv k bs) = k"
| "tlv_type (Area_Tlv bs) = 1027"
| "tlv_type (Router_Tlv k bs) = k"
| "tlv_type (Mt_Tlv vs) = 263"
| "tlv_type (Number_Tlv k bs) = k"
| "tlv_type (Te_Tlv bs) = 1092"
| "tlv_type (Bandwidth_Tlv k w) = k"
| "tlv_type (Other_Tlv k bs) = k"

fun tlv_value :: "attr_tlv \<Rightarrow> bytes" where
  "tlv_value (Flags_Tlv f) = [f]"
| "tlv_value (Name_Tlv k bs) = bs"
| "tlv_value (Area_Tlv bs) = bs"
| "tlv_value (Router_Tlv k bs) = bs"
| "tlv_value (Mt_Tlv vs) = concat (map (\<lambda>v. be_bytes 2 (unat v)) vs)"
| "tlv_value (Number_Tlv k bs) = bs"
| "tlv_value (Te_Tlv bs) = bs"
| "tlv_value (Bandwidth_Tlv k w) = be_bytes 4 (unat w)"
| "tlv_value (Other_Tlv k bs) = bs"

fun tlv_valid :: "attr_tlv \<Rightarrow> bool" where
  "tlv_valid (Flags_Tlv f) = True"
| "tlv_valid (Name_Tlv k bs) = (k \<in> {1026, 1098} \<and> length bs \<le> 255 \<and> 0 \<notin> set bs)"
| "tlv_valid (Area_Tlv bs) = (length bs \<le> 8)"
| "tlv_valid (Router_Tlv k bs) = (k \<in> {1028, 1030} \<and> length bs = 4 \<or> k \<in> {1029, 1031} \<and> length bs = 16)"
| "tlv_valid (Mt_Tlv vs) = (length (join_text (map (\<lambda>v. dec_of_nat (unat v)) vs)) < 255)"
| "tlv_valid (Number_Tlv k bs) = (k \<in> {1088, 1153} \<and> length bs = 4 \<or> k \<in> {1095, 1155} \<and> length bs \<le> 4)"
| "tlv_valid (Te_Tlv bs) = (1 \<le> length bs \<and> length bs \<le> 4)"
| "tlv_valid (Bandwidth_Tlv k w) = (k \<in> {1089, 1090} \<and> (case ieee_float_to_kbps w of Inl e \<Rightarrow> False | Inr v \<Rightarrow> True))"
| "tlv_valid (Other_Tlv k bs) = (k < 2 ^ 16 \<and> k \<notin> handled_types)"

definition enc_ls_tlv :: "attr_tlv \<Rightarrow> bytes" where
  "enc_ls_tlv x = ls_tlv (tlv_type x) (tlv_value x)"

text \<open>What a TLV leaves in the array of its type.\<close>

definition node_flags_text :: "u8 \<Rightarrow> string" where
  "node_flags_text f = concat (map (\<lambda>i. if bit f (7 - i) then LS_FLAGS_NODE_NLRI ! i else '''') [0..<6])"

fun tlv_array :: "attr_tlv \<Rightarrow> bytes \<Rightarrow> bytes" where
  "tlv_array (Flags_Tlv f) old = poke 0 (text_bytes (node_flags_text f)) (replicate 255 0)"
| "tlv_array (Name_Tlv k bs) old = bs @ replicate (255 - length bs) 0"
| "tlv_array (Area_Tlv bs) old = (poke 0 bs old)[8 := of_nat (length bs)]"
| "tlv_array (Router_Tlv k bs) old = poke 0 bs old"
| "tlv_array (Mt_Tlv vs) old = poke 0 (text_bytes (join_text (map (\<lambda>v. dec_of_nat (unat v)) vs)) @ [0]) old"
| "tlv_array (Number_Tlv k bs) old = poke 0 (mem32 (of_nat (be_val bs))) old"
| "tlv_array (Te_Tlv bs) old = poke 0 (rev bs) old"
| "tlv_array (Bandwidth_Tlv k w) old = poke 0 (mem32 (projr (ieee_float_to_kbps w))) old"
| "tlv_array (Other_Tlv k bs) old = old"

definition add_ls_tlv :: "ls_info \<Rightarrow> attr_tlv \<Rightarrow> ls_info" where
  "add_ls_tlv st x =
     (case x of Other_Tlv k bs \<Rightarrow> st | _ \<Rightarrow> set_array (tlv_type x) (tlv_array x (attr_array (tlv_type x) st)) st)"

lemma flags_node: "parse_flags_to_string b LS_FLAGS_NODE_NLRI = node_flags_text b"
proof -
  have "(0x80 AND b \<noteq> 0) = bit b 7" "(0x40 AND b \<noteq> 0) = bit b 6" "(0x20 AND b \<noteq> 0) = bit b 5" "(0x10 AND b \<noteq> 0) = bit b 4"
    "(8 AND b \<noteq> 0) = bit b 3" "(4 AND b \<noteq> 0) = bit b 2"
    using and_exp_eq_0_iff_not_bit [of b 7] and_exp_eq_0_iff_not_bit [of b 6] and_exp_eq_0_iff_not_bit [of b 5]
      and_exp_eq_0_iff_not_bit [of b 4] and_exp_eq_0_iff_not_bit [of b 3] and_exp_eq_0_iff_not_bit [of b 2]
    by (simp_all add: and.commute [of b])
  then show ?thesis
    by (simp add: parse_flags_to_string_def LS_FLAGS_NODE_NLRI_def node_flags_text_def upt_rec)
qed

lemma SWAP_BYTES_prefix: "SWAP_BYTES (b @ z) (length b) = rev b @ z"
proof (cases "length b \<le> 1")
  case True
  then show ?thesis by (cases b) (auto simp: SWAP_BYTES_def)
next
  case False
  then show ?thesis by (auto simp: SWAP_BYTES_def rev_nth intro!: nth_equalityI)
qed

lemma short_number_run: "length bs \<le> 4 \<Longrightarrow> short_number (length bs) (bs @ rest) = Inr (rev bs @ replicate (4 - length bs) 0)"
  by (simp add: short_number_def SWAP_BYTES_prefix)

lemma mem32_be_val:
  assumes "length bs \<le> 4"
  shows "mem32 (of_nat (be_val bs)) = rev bs @ replicate (4 - length bs) 0"
proof -
  let ?z = "replicate (4 - length bs) 0 @ bs"
  have "be_val (replicate k 0) = 0" for k
    by (induction k) (simp_all add: replicate_append_same [symmetric] be_val_snoc del: replicate_append_same)
  then have v: "be_val ?z = be_val bs" by (simp add: be_val_append2)
  have "be_val ?z < 256 ^ 4" using be_val_bound [of ?z] assms by simp
  then have "unat (of_nat (be_val bs) :: u32) = be_val ?z" by (simp add: v unat_of_nat)
  then have "mem32 (of_nat (be_val bs)) = rev (be_bytes 4 (be_val ?z))" by (simp only: mem32_def)
  also have "\<dots> = rev ?z" using be_bytes_be_val [of ?z] assms by simp
  finally show ?thesis by simp
qed

lemma mt_id_text_run:
  "mt_id_text first (2 * length vs) (concat (map (\<lambda>v. be_bytes 2 (unat v)) vs) @ rest) =
   Inr ((if first \<or> vs = [] then '''' else '', '') @ join_text (map (\<lambda>v. dec_of_nat (unat v)) (vs :: u16 list)))"
proof (induction vs arbitrary: first)
  case (Cons v vs)
  have "unat v < 2 ^ LENGTH(16)" by (rule unsigned_less)
  then have "unat v mod 65536 = unat v" by simp
  then show ?case using Cons
    by (cases vs) (subst mt_id_text.simps; simp add: be_val_be_bytes del: be_bytes_numeral)+
qed (simp add: mt_id_text.simps)

lemma ls_attr_value_run:
  assumes "tlv_valid x"
  shows "ls_attr_value f6 (tlv_type x) (length (tlv_value x)) (tlv_value x @ rest) st = Inr (add_ls_tlv st x)"
proof (cases x)
  case (Flags_Tlv f)
  then show ?thesis by (simp add: ls_attr_value_def node_attr_def attr_types add_ls_tlv_def flags_node)
next
  case (Name_Tlv k bs)
  then have t: "takeWhile (\<lambda>b. b \<noteq> 0) bs = bs" using assms by (auto simp: takeWhile_eq_all_conv)
  have "store_name k (length bs) (bs @ rest) st = Inr (add_ls_tlv st x)" using assms Name_Tlv
    by (simp add: store_name_def add_ls_tlv_def t)
  moreover have "k = 1026 \<or> k = 1098" using assms Name_Tlv by simp
  ultimately show ?thesis using Name_Tlv
    by (elim disjE) (simp_all add: ls_attr_value_def node_attr_def link_attr_def attr_types)
next
  case (Area_Tlv bs)
  then show ?thesis using assms by (simp add: ls_attr_value_def node_attr_def attr_types add_ls_tlv_def)
next
  case (Router_Tlv k bs)
  then have "fixed_value (length bs) k (length bs) (bs @ rest) st = Inr (add_ls_tlv st x)"
    using assms by (auto simp: fixed_value_def store_bytes_def add_ls_tlv_def)
  moreover have "k = 1028 \<and> length bs = 4 \<or> k = 1030 \<and> length bs = 4 \<or> k = 1029 \<and> length bs = 16 \<or> k = 1031 \<and> length bs = 16"
    using assms Router_Tlv by auto
  ultimately show ?thesis
    using Router_Tlv by (elim disjE) (simp_all add: ls_attr_value_def node_attr_def link_attr_def attr_types)
next
  case (Mt_Tlv vs)
  have "length (concat (map (\<lambda>v. be_bytes 2 (unat v)) vs)) = 2 * length vs" by (induction vs) (simp_all del: be_bytes_numeral)
  with Mt_Tlv show ?thesis using assms mt_id_text_run [of True vs rest]
    by (simp add: ls_attr_value_def node_attr_def attr_types add_ls_tlv_def store_bytes_def text_bytes_def)
next
  case (Number_Tlv k bs)
  then have len: "length bs \<le> 4" using assms by auto
  have "store_bytes k (rev bs @ replicate (4 - length bs) 0) st = Inr (add_ls_tlv st x)"
    using Number_Tlv len mem32_be_val [OF len] by (simp add: store_bytes_def add_ls_tlv_def)
  note run = this len short_number_run [OF len, of rest]
  have "k = 1088 \<and> length bs = 4 \<or> k = 1153 \<and> length bs = 4 \<or> k = 1095 \<or> k = 1155" using assms Number_Tlv by auto
  then show ?thesis
    using run Number_Tlv by (elim disjE) (simp_all add: ls_attr_value_def link_attr_def prefix_attr_def attr_types)
next
  case (Te_Tlv bs)
  then show ?thesis using assms short_number_run [of bs rest]
    by (auto simp: ls_attr_value_def link_attr_def attr_types add_ls_tlv_def store_bytes_def)
next
  case (Bandwidth_Tlv k w)
  have "unat w < 2 ^ LENGTH(32)" by (rule unsigned_less)
  then have "(of_nat (be_val (be_bytes 4 (unat w))) :: u32) = w" by (simp add: be_val_be_bytes del: be_bytes_numeral)
  with Bandwidth_Tlv assms show ?thesis
    by (auto simp: ls_attr_value_def link_attr_def attr_types add_ls_tlv_def bandwidth_def store_bytes_def mem32_def
      simp del: be_bytes_numeral split: sum.splits)
next
  case (Other_Tlv k bs)
  then show ?thesis using assms
    by (auto simp: ls_attr_value_def node_attr_def link_attr_def prefix_attr_def attr_types add_ls_tlv_def handled_types_def)
qed

interpretation ls_attr_stream: countdown_stream tlv_valid enc_ls_tlv add_ls_tlv "ls_attr_loop f6"
proof
  fix e n rest acc
  assume "tlv_valid e" "length (enc_ls_tlv e) \<le> n" "n < (2 ^ 16 :: nat)"
  moreover have "tlv_type e < 2 ^ 16" using \<open>tlv_valid e\<close> by (cases e) auto
  ultimately show "ls_attr_loop f6 (enc_ls_tlv e @ rest) n acc = ls_attr_loop f6 rest (n - length (enc_ls_tlv e)) (add_ls_tlv acc e)"
    by (simp add: enc_ls_tlv_def attr_loop_take ls_attr_value_run)
qed

section \<open>Lists of segment identifiers\<close>

text \<open>A prefix SID with an index: flags, algorithm and index.\<close>

type_synonym sid = "u8 \<times> u8 \<times> u32"

fun enc_sid :: "sid \<Rightarrow> bytes" where
  "enc_sid (f, a, i) = ls_tlv 1158 ([f, a, 0, 0] @ be_bytes 4 (unat i))"

fun sid_text :: "sid \<Rightarrow> string" where
  "sid_text (f, a, i) =
     parse_flags_to_string f LS_FLAGS_PREFIX_SID_ISIS @ '' '' @
     (if a = 0 then ''SPF '' else if a = 1 then ''strict-SPF '' else '''') @ dec_of_nat (unat i)"

definition isis_like :: "string \<Rightarrow> bool" where
  "isis_like protocol \<longleftrightarrow> protocol \<in> decodeNlriProtocolId ` {1, 2, 3, 5, 6}"

definition text_array :: "string \<Rightarrow> bytes" where
  "text_array s = text_bytes s @ replicate (255 - length s) 0"

definition more_text :: "string \<Rightarrow> string \<Rightarrow> string" where
  "more_text s t = (if s = '''' then t else s @ '', '' @ t)"

lemma of_char_u8_eq_0 [simp]: "(of_char c :: u8) = 0 \<longleftrightarrow> c = CHR 0x00"
proof -
  have "unat (of_char c :: u8) = of_char c"
    using nat_of_char_less_256 [of c] unat_of_nat [of "of_char c :: nat", where 'a = 8]
    by (simp add: of_nat_of_char)
  moreover have "(of_char c :: nat) = 0 \<longleftrightarrow> c = CHR 0x00" using of_char_eq_iff [of c "CHR 0x00", where 'a = nat] by simp
  ultimately show ?thesis by (simp flip: unat_eq_0)
qed

lemma c_bytes_text:
  assumes "CHR 0x00 \<notin> set s" "length s < 255"
  shows "c_bytes (text_array s) = Inr (text_bytes s)"
proof -
  have "takeWhile (\<lambda>b. b \<noteq> 0) (text_bytes s @ replicate (255 - length s) 0) = text_bytes s"
    using assms by (subst takeWhile_append2) (auto simp: text_bytes_def)
  moreover have "0 \<in> set (text_array s)" using assms(2) by (simp add: text_array_def)
  ultimately show ?thesis by (simp add: c_bytes_def text_array_def)
qed

lemma append_text_run:
  assumes "attr_array k st = text_array s" "CHR 0x00 \<notin> set s" "length s < 255" "CHR 0x00 \<notin> set t"
  shows "append_text k t st = (if length (s @ t) < 255 then Inr (set_array k (text_array (s @ t)) st) else Inl BufferOverflow)"
proof -
  have n: "array_len k st = Inr (length s)" using assms(1-3) by (simp add: array_len_def c_bytes_text text_bytes_def)
  have t: "c_str t = t" by (rule c_str_text [OF assms(4)])
  have "poke (length s) (text_bytes t @ [0]) (text_array s) = text_array (s @ t)" if "length (s @ t) < 255"
    using that by (simp add: poke_def text_array_def text_bytes_def flip: replicate_Suc replicate_append_same)
  then show ?thesis
    using assms(1,3) by (auto simp: append_text_def n t Let_def min_def text_bytes_def)
qed

lemma flags_from_no_NUL: "CHR 0x00 \<notin> set (concat fs) \<Longrightarrow> CHR 0x00 \<notin> set (flags_from m b fs)"
  by (induction fs arbitrary: m) auto

lemma sid_text_no_NUL: "CHR 0x00 \<notin> set (sid_text x)"
proof -
  have "CHR 0x00 \<notin> set (parse_flags_to_string f LS_FLAGS_PREFIX_SID_ISIS)" for f
    unfolding parse_flags_to_string_def by (rule flags_from_no_NUL) (simp add: LS_FLAGS_PREFIX_SID_ISIS_def)
  then show ?thesis by (cases x) simp
qed

lemma isis_like_flags: "isis_like p \<Longrightarrow> protocol_flags p f g data = andThen (rd_u8 data) (\<lambda>b. Inr (f b))"
  by (auto simp: isis_like_def protocol_flags_def decodeNlriProtocolId_def)

lemma more_text_length: "length s \<le> length (more_text s t)"
  by (simp add: more_text_def)

lemma prefix_sid_run:
  assumes "attr_array 1158 st = text_array s" "CHR 0x00 \<notin> set s" "length s < 255"
    and "ls_prefixes (ls st) = p # ps" "isis_like (lsp_protocol p)"
  shows "ls_attr_value f6 1158 8 ([f, a, 0, 0] @ be_bytes 4 (unat i) @ rest) st =
    (let t = more_text s (sid_text (f, a, i))
     in if length t < 255 then Inr (set_array 1158 (text_array t) st) else Inl BufferOverflow)"
proof -
  have i: "be_val (be_bytes 4 (unat i)) = unat i"
  proof -
    have "unat i < 2 ^ LENGTH(32)" by (rule unsigned_less)
    then show ?thesis by (simp add: be_val_be_bytes del: be_bytes_numeral)
  qed
  have "prefix_sid f6 (lsp_protocol p) (length s) 8 ([f, a, 0, 0] @ be_bytes 4 (unat i) @ rest) =
    Inr ((if s = '''' then '''' else '', '') @ sid_text (f, a, i))"
    using i by (simp add: prefix_sid_def isis_like_flags [OF assms(5)] parse_sid_value_def rd_u8_def del: be_bytes_numeral)
  moreover have "array_len 1158 st = Inr (length s)"
    using assms(1-3) by (simp add: array_len_def c_bytes_text text_bytes_def)
  moreover have "CHR 0x00 \<notin> set ((if s = '''' then '''' else '', '') @ sid_text (f, a, i))"
    using sid_text_no_NUL [of "(f, a, i)"] by simp
  note append_text_run [OF assms(1-3) this]
  ultimately show ?thesis
    using assms(4) by (simp add: ls_attr_value_def prefix_attr_def attr_types front_protocol_def more_text_def del: sid_text.simps)
qed

lemma join_text_Cons: "join_text ((s @ t) # ts) = s @ join_text (t # ts)"
  by (cases ts) simp_all

lemma foldl_more_text: "s \<noteq> '''' \<Longrightarrow> foldl more_text s ts = join_text (s # ts)"
proof (induction ts arbitrary: s)
  case (Cons t ts)
  have "more_text s t = s @ '', '' @ t" using Cons.prems by (simp add: more_text_def)
  then have "foldl more_text s (t # ts) = join_text ((s @ '', '' @ t) # ts)" using Cons.IH [of "s @ '', '' @ t"] by simp
  also have "\<dots> = s @ '', '' @ join_text (t # ts)" using join_text_Cons [of "s @ '', ''" t ts] by simp
  finally show ?case by simp
qed simp

lemma foldl_more_text_sids: "foldl more_text '''' (map sid_text xs) = join_text (map sid_text xs)"
proof (cases xs)
  case (Cons x ys)
  have "sid_text x \<noteq> ''''" by (cases x) simp
  then show ?thesis using Cons by (simp add: more_text_def foldl_more_text)
qed simp

lemma length_foldl_more_text: "length s \<le> length (foldl more_text s ts)"
  by (induction ts arbitrary: s) (auto intro: order_trans [OF more_text_length])

lemma more_text_no_NUL: "CHR 0x00 \<notin> set s \<Longrightarrow> CHR 0x00 \<notin> set t \<Longrightarrow> CHR 0x00 \<notin> set (more_text s t)"
  by (simp add: more_text_def)

lemma length_enc_sid [simp]: "length (enc_sid x) = 12"
  by (cases x) simp

lemma prefix_sids_run:
  assumes "attr_array 1158 st = text_array s" "CHR 0x00 \<notin> set s" "length s < 255"
    and "ls_prefixes (ls st) = p # ps" "isis_like (lsp_protocol p)" "12 * length xs < 2 ^ 16" "xs \<noteq> []"
  shows "ls_attr_loop f6 (concat (map enc_sid xs) @ rest) (12 * length xs) st =
    (let t = foldl more_text s (map sid_text xs)
     in if length t < 255 then Inr (set_array 1158 (text_array t) st) else Inl BufferOverflow)"
  using assms
proof (induction xs arbitrary: s st)
  case (Cons x xs)
  obtain f a i where x: "x = (f, a, i)" by (cases x)
  let ?t = "more_text s (sid_text x)" and ?n = "12 * length xs"
  have run: "ls_attr_loop f6 (concat (map enc_sid (x # xs)) @ rest) (12 * length (x # xs)) st =
    andThen (ls_attr_value f6 1158 8 ([f, a, 0, 0] @ be_bytes 4 (unat i) @ concat (map enc_sid xs) @ rest) st)
      (ls_attr_loop f6 (concat (map enc_sid xs) @ rest) ?n)"
    using attr_loop_take [of 1158 "[f, a, 0, 0] @ be_bytes 4 (unat i)" "12 + ?n" f6 "concat (map enc_sid xs) @ rest" st] Cons.prems(6)
    by (simp add: x del: be_bytes_numeral)
  note step = prefix_sid_run [OF Cons.prems(1-5), of f6 f a i "concat (map enc_sid xs) @ rest", folded x]
  show ?case
  proof (cases "length ?t < 255")
    case False
    moreover have "\<not> length (foldl more_text ?t (map sid_text xs)) < 255"
      using False length_foldl_more_text [of ?t "map sid_text xs"] by simp
    ultimately show ?thesis unfolding run step by simp
  next
    case True
    let ?st = "set_array 1158 (text_array ?t) st"
    have st: "attr_array 1158 ?st = text_array ?t" "ls ?st = ls st" "set_array 1158 u ?st = set_array 1158 u st" for u
      by (simp_all add: attr_array_def set_array_def)
    show ?thesis
    proof (cases "xs = []")
      case True
      then show ?thesis using \<open>length ?t < 255\<close> unfolding run step by (simp add: ls_attr_loop.simps [of _ _ 0])
    next
      case False
      with Cons.IH [of ?st ?t] True st Cons.prems more_text_no_NUL [OF Cons.prems(2) sid_text_no_NUL]
      show ?thesis unfolding run step by (simp add: Let_def)
    qed
  qed
qed simp

text \<open>
  The prefix SIDs of a message. For a prefix of IS-IS, OSPF or a static route the TLVs leave one text in their
  array, in which the SIDs are separated by commas, with the flags named as IS-IS names them whatever the
  protocol is. The text is stored whole when it is shorter than 255 characters; otherwise the terminator of
  \<open>strncat\<close>, or that of an earlier SID, is written behind the array.
\<close>

theorem prefix_sid_list:
  assumes "ls_attrs (ls_part pd) ATTR_PREFIX_SID = None" "ls_prefixes (ls (ls_part pd)) = p # ps"
    and "lsp_protocol p = decodeNlriProtocolId k" "k \<in> {1, 2, 3, 5, 6}" "xs \<noteq> []" "length bs < 2 ^ 16"
    and "bs = concat (map enc_sid xs)" "t = join_text (map sid_text xs)"
  shows "parseAttrLinkState f6 (length bs) (bs @ rest) pd =
    (if length t < 255 then Inr (pd\<lparr>ls_part := set_array ATTR_PREFIX_SID (text_array t) (ls_part pd)\<rparr>) else Inl BufferOverflow)"
proof -
  have "length bs = 12 * length xs" unfolding assms(7) by (induction xs) simp_all
  moreover have "attr_array 1158 (ls_part pd) = text_array ''''"
    using assms(1) by (simp add: attr_array_def text_array_def text_bytes_def attr_types)
  moreover have "isis_like (lsp_protocol p)" using assms(3,4) by (auto simp: isis_like_def)
  ultimately show ?thesis
    using prefix_sids_run [of "ls_part pd" "''''" p ps xs f6 rest] assms(2,5-8)
    by (simp add: parseAttrLinkState_def foldl_more_text_sids attr_types Let_def)
qed

theorem prefix_sid_list_example:
  "\<exists>pd. map lsp_protocol (ls_prefixes (ls (ls_part pd))) = [''OSPFv2''] \<and>
     parseAttrLinkState (\<lambda>_. []) 24 (enc_sid (0x40, 0, 16) @ enc_sid (0x60, 1, 900)) pd =
       Inr (pd\<lparr>ls_part := set_array ATTR_PREFIX_SID (text_array ''N SPF 16, NP strict-SPF 900'') (ls_part pd)\<rparr>)"
proof -
  let ?p = "zero_ls_prefix\<lparr>lsp_protocol := ''OSPFv2''\<rparr>" and ?xs = "[(0x40, 0, 16), (0x60, 1, 900)] :: sid list"
  let ?pd = "(empty_update no_ls_info)\<lparr>ls_part := no_ls_info\<lparr>ls := no_ls_data\<lparr>ls_prefixes := [?p]\<rparr>\<rparr>\<rparr>"
  have t: "join_text (map sid_text ?xs) = ''N SPF 16, NP strict-SPF 900''"
    by code_simp
  have "parseAttrLinkState (\<lambda>_. []) (length (concat (map enc_sid ?xs))) (concat (map enc_sid ?xs) @ []) ?pd =
    (if length ''N SPF 16, NP strict-SPF 900'' < 255
     then Inr (?pd\<lparr>ls_part := set_array ATTR_PREFIX_SID (text_array ''N SPF 16, NP strict-SPF 900'') (ls_part ?pd)\<rparr>) else Inl BufferOverflow)"
    by (rule prefix_sid_list [where k = 3 and p = ?p and ps = "[]", OF _ _ _ _ _ _ refl t [symmetric]])
      (simp_all add: no_ls_info_def decodeNlriProtocolId_def zero_ls_prefix_def)
  then show ?thesis by (intro exI [of _ ?pd]) (simp add: zero_ls_prefix_def)
qed

section \<open>SR capabilities\<close>

definition sr_range :: "nat \<Rightarrow> nat \<Rightarrow> bytes" where
  "sr_range r s = be_bytes 3 r @ be_bytes 2 SUB_TLV_SID_LABEL @ be_bytes 2 3 @ be_bytes 3 s"

text \<open>
  SR capabilities with two ranges, each with a label of three bytes. The second range is read from the label of
  the first one: instead of the size of the second range the label of the first is reported, and the type that
  follows is the start of the second range, so that the decoding stops there. (It goes on only for the 256
  sizes that begin with the bytes of the type.)
\<close>

theorem sr_second_range:
  assumes "isis_like protocol" "r1 < 2 ^ 24" "s1 < 2 ^ 24" "r2 < 2 ^ 24" "r2 div 256 \<noteq> SUB_TLV_SID_LABEL"
  shows "sr_capabilities protocol 22 ([flags, 0] @ sr_range r1 s1 @ sr_range r2 s2 @ rest) =
    Inr (parse_flags_to_string flags LS_FLAGS_SR_CAP_ISIS @ '' '' @
         dec_of_nat r1 @ '' '' @ dec_of_nat s1 @ '', '' @ dec_of_nat s1)"
proof -
  have d: "dec_of_nat (unat (drop_bit 8 (num32 (SWAP_BYTES (be_bytes 3 r @ [0]) 4)))) = dec_of_nat r" if "r < 2 ^ 24" for r
  proof -
    have "be_val (be_bytes 3 r @ [0]) = 256 * r" using that by (simp add: be_val_snoc be_val_be_bytes del: be_bytes_numeral)
    then have "num32 (SWAP_BYTES (be_bytes 3 r @ [0]) 4) = of_nat (256 * r)" by (simp add: num32_def del: be_bytes_numeral)
    moreover have "unat (of_nat (256 * r) :: u32) = 256 * r" using that unat_of_nat [of "256 * r", where 'a = 32] by simp
    ultimately show ?thesis by (simp only: unat_drop_bit_eq) (simp add: drop_bit_eq_div)
  qed
  have 1: "sr_ranges 2 22 (sr_range r1 s1 @ sr_range r2 s2 @ rest) =
    andThen (sr_ranges 12 22 (be_bytes 3 s1 @ sr_range r2 s2 @ rest)) (\<lambda>x. Inr (dec_of_nat r1 @ '' '' @ dec_of_nat s1 @ x))"
    using assms(2,3) d [of r1]
    by (subst sr_ranges.simps) (simp add: sr_range_def SUB_TLV_SID_LABEL_def be_val_be_bytes del: be_bytes_numeral)
  have r2: "be_bytes 3 r2 = be_bytes 2 (r2 div 256) @ [of_nat (r2 mod 256)]" by simp
  have t: "ntoh 2 (be_bytes 3 r2 @ ys) = Inr (r2 div 256)" for ys
    using assms(4) by (simp add: r2 be_val_be_bytes del: be_bytes_numeral)
  have "\<exists>v. ntoh 2 (drop 2 (be_bytes 3 r2) @ be_bytes 2 SUB_TLV_SID_LABEL @ ys) = Inr v" for ys
    by (rule exI, rule ntoh_enough) simp
  then obtain v where v: "ntoh 2 (drop 2 (be_bytes 3 r2) @ be_bytes 2 SUB_TLV_SID_LABEL @ be_bytes 2 3 @ be_bytes 3 s2 @ rest) = Inr v"
    by blast
  have 2: "sr_ranges 12 22 (be_bytes 3 s1 @ sr_range r2 s2 @ rest) = Inr ('', '' @ dec_of_nat s1)"
    using assms(3,4,5) d [of s1]
    by (subst sr_ranges.simps) (simp add: sr_range_def t v del: be_bytes_numeral)
  show ?thesis by (simp add: sr_capabilities_def isis_like_flags [OF assms(1)] rd_u8_def 1 2 del: be_bytes_numeral)
qed

theorem sr_second_range_example:
  "sr_capabilities ''IS-IS_L2'' 22 ([0x80, 0] @ sr_range 100 160 @ sr_range 200 240) = Inr ''I 100 160, 160''"
proof -
  have "isis_like ''IS-IS_L2''" by (auto simp: isis_like_def image_iff decodeNlriProtocolId_def intro: bexI [of _ 2])
  then have "sr_capabilities ''IS-IS_L2'' 22 ([0x80, 0] @ sr_range 100 160 @ sr_range 200 240 @ []) =
    Inr (parse_flags_to_string 0x80 LS_FLAGS_SR_CAP_ISIS @ '' '' @ dec_of_nat 100 @ '' '' @ dec_of_nat 160 @ '', '' @ dec_of_nat 160)"
    by (rule sr_second_range) (simp_all add: attr_types)
  moreover have "parse_flags_to_string 0x80 LS_FLAGS_SR_CAP_ISIS @ '' '' @ dec_of_nat 100 @ '' '' @ dec_of_nat 160 @ '', '' @ dec_of_nat 160 =
    ''I 100 160, 160''" by code_simp
  ultimately show ?thesis by simp
qed

lemma ls_attr_run:
  assumes "list_all tlv_valid xs" "bs = concat (map enc_ls_tlv xs)" "length bs < 2 ^ 16"
  shows "parseAttrLinkState f6 (length bs) (bs @ rest) pd = Inr (pd\<lparr>ls_part := foldl add_ls_tlv (ls_part pd) xs\<rparr>)"
  using ls_attr_stream.take_all [OF assms(1), of "length bs" f6 rest "ls_part pd"] assms(2,3)
  by (simp add: parseAttrLinkState_def ls_attr_loop.simps [of _ _ 0])

section \<open>Round trip and bounds\<close>

text \<open>
  C14. Link-state attributes survive the round trip: for TLVs of the kinds listed in \<open>attr_tlv\<close> (flags, names, areas,
  router identifiers, topologies, metrics, bandwidths and unknown types) the parser reads exactly their bytes,
  one TLV after the other, and leaves in the array of each type what \<open>tlv_array\<close> says; a later TLV of the same
  type overwrites an earlier one.
\<close>

theorem ls_attr_roundtrip:
  assumes "list_all tlv_valid xs" "bs = concat (map enc_ls_tlv xs)" "length bs < 2 ^ 16"
  shows "parseAttrLinkState f6 (length bs) (bs @ rest) pd = Inr (pd\<lparr>ls_part := foldl add_ls_tlv (ls_part pd) xs\<rparr>)"
  by (rule ls_attr_run [OF assms])

theorem ls_attr_roundtrip_witness:
  "\<exists>pd. parseAttrLinkState (\<lambda>_. []) 25
      (concat (map enc_ls_tlv [Name_Tlv 1026 [0x72, 0x31], Router_Tlv 1028 [10, 0, 0, 1], Number_Tlv 1155 [1, 2, 3], Other_Tlv 1157 []]))
      (empty_update no_ls_info) = Inr pd \<and>
    map_option (take 4) (ls_attrs (ls_part pd) 1026) = Some [0x72, 0x31, 0, 0] \<and>
    map_option (take 4) (ls_attrs (ls_part pd) 1028) = Some [10, 0, 0, 1] \<and>
    map_option (take 4) (ls_attrs (ls_part pd) 1155) = Some [3, 2, 1, 0]"
proof -
  let ?xs = "[Name_Tlv 1026 [0x72, 0x31], Router_Tlv 1028 [10, 0, 0, 1], Number_Tlv 1155 [1, 2, 3], Other_Tlv 1157 []]"
  have "parseAttrLinkState (\<lambda>_. []) (length (concat (map enc_ls_tlv ?xs))) (concat (map enc_ls_tlv ?xs) @ []) (empty_update no_ls_info) =
    Inr ((empty_update no_ls_info)\<lparr>ls_part := foldl add_ls_tlv (ls_part (empty_update no_ls_info)) ?xs\<rparr>)"
    by (rule ls_attr_roundtrip [OF _ refl]) (simp_all add: handled_types_def enc_ls_tlv_def)
  moreover have "length (concat (map enc_ls_tlv ?xs)) = 25" by (simp add: enc_ls_tlv_def)
  ultimately show ?thesis
    by (simp add: empty_update_def no_ls_info_def add_ls_tlv_def set_array_def attr_array_def poke_def mem32_be_val numeral_2_eq_2)
qed

text \<open>
  The length of a node or link name is not checked. A name of \<open>n\<close> bytes is stored whole up to 255 bytes, which
  leaves no place for a terminator at 255, and a longer one is written past the end of its array.
\<close>

theorem ls_name_overflow:
  assumes "k \<in> {ATTR_NODE_NAME, ATTR_LINK_NAME}" "0 \<notin> set name" "length name < 2 ^ 16 - 4"
  shows "parseAttrLinkState f6 (4 + length name) (ls_tlv k name @ rest) pd =
    (if length name \<le> 255
     then Inr (pd\<lparr>ls_part := set_array k (name @ replicate (255 - length name) 0) (ls_part pd)\<rparr>)
     else Inl BufferOverflow)"
proof -
  have t: "takeWhile (\<lambda>b. b \<noteq> 0) name = name" using assms(2) by (auto simp: takeWhile_eq_all_conv)
  have "store_name k (length name) (name @ rest) st = (if length name \<le> 255
     then Inr (set_array k (name @ replicate (255 - length name) 0) st) else Inl BufferOverflow)" for st
    by (simp add: store_name_def t)
  moreover have "k = 1026 \<or> k = 1098" using assms(1) by (simp add: attr_types)
  then have "ls_attr_value f6 k (length name) (name @ rest) st = store_name k (length name) (name @ rest) st" "k < 2 ^ 16" for st
    by (elim disjE; simp add: ls_attr_value_def node_attr_def link_attr_def attr_types)+
  ultimately show ?thesis
    using assms(3) by (simp add: parseAttrLinkState_def attr_loop_take ls_attr_loop.simps [of _ _ 0])
qed

theorem ls_name_overflow_example:
  "parseAttrLinkState (\<lambda>_. []) 260 (ls_tlv ATTR_NODE_NAME (replicate 256 0x61)) (empty_update no_ls_info) = Inl BufferOverflow"
  using ls_name_overflow [of ATTR_NODE_NAME "replicate 256 0x61" "\<lambda>_. []" "[]"] by simp

end
