(* ===== verification/LinkStateDb.thy ===== *)
theory LinkStateDb
  imports LinkStateAttr
begin

text \<open>
  The last step of a link-state message, \<open>UpdateDbBgpLs\<close> of \<open>bgp/parseBGP.cpp\<close>: the attributes of the message are
  copied into every node, link and prefix of it, and the three lists are handed to the message bus. With the
  parsers of the two theories before it closes the parameters that \<open>UpdateMsg\<close> and \<open>ParseBgp\<close> have for
  link state.
\<close>

section \<open>Merging attributes\<close>

text \<open>\<open>memcpy\<close> of the first bytes of an array of the attribute map, when it is there.\<close>

definition merge_attr :: "(nat \<rightharpoonup> bytes) \<Rightarrow> nat \<Rightarrow> nat \<Rightarrow> (bytes \<Rightarrow> 'o \<Rightarrow> 'o) \<Rightarrow> 'o \<Rightarrow> 'o" where
  "merge_attr a k n f x = (case a k of None \<Rightarrow> x | Some v \<Rightarrow> f (take n v) x)"

definition merge_node :: "(nat \<rightharpoonup> bytes) \<Rightarrow> obj_ls_node \<Rightarrow> obj_ls_node result" where
  "merge_node a x =
     (let x = merge_attr a ATTR_NODE_NAME 255 (\<lambda>v x. x\<lparr>node_name := v\<rparr>) x;
          x = merge_attr a ATTR_NODE_IPV4_ROUTER_ID_LOCAL 4 (\<lambda>v x. x\<lparr>node_router_id := poke 0 v (node_router_id x)\<rparr>) x;
          x = merge_attr a ATTR_NODE_IPV6_ROUTER_ID_LOCAL 16 (\<lambda>v x. x\<lparr>node_router_id := v, node_isIPv4 := False\<rparr>) x
      in andThen (case a ATTR_NODE_MT_ID of None \<Rightarrow> Inr x
                  | Some v \<Rightarrow> andThen (c_bytes v) (\<lambda>t. Inr (x\<lparr>node_mt_id := poke 0 (t @ [0]) (node_mt_id x)\<rparr>))) (\<lambda>x.
         let x = merge_attr a ATTR_NODE_FLAG 32 (\<lambda>v x. x\<lparr>node_flags := v\<rparr>) x;
             x = merge_attr a ATTR_NODE_ISIS_AREA_ID 9 (\<lambda>v x. x\<lparr>node_isis_area_id := v\<rparr>) x;
             x = merge_attr a ATTR_NODE_SR_CAPABILITIES 255 (\<lambda>v x. x\<lparr>sr_capabilities_tlv := v\<rparr>) x
         in Inr x))"

definition merge_link :: "(nat \<rightharpoonup> bytes) \<Rightarrow> obj_ls_link \<Rightarrow> obj_ls_link" where
  "merge_link a x =
     (let x = (if \<not> link_isIPv4 x \<and> a ATTR_NODE_IPV6_ROUTER_ID_LOCAL \<noteq> None
               then merge_attr a ATTR_NODE_IPV6_ROUTER_ID_LOCAL 16 (\<lambda>v x. x\<lparr>link_router_id := v\<rparr>) x
               else merge_attr a ATTR_NODE_IPV4_ROUTER_ID_LOCAL 4
                      (\<lambda>v x. x\<lparr>link_router_id := poke 0 v (link_router_id x), link_isIPv4 := True\<rparr>) x);
          x = (if \<not> link_isIPv4 x \<and> a ATTR_LINK_IPV6_ROUTER_ID_REMOTE \<noteq> None
               then merge_attr a ATTR_LINK_IPV6_ROUTER_ID_REMOTE 16 (\<lambda>v x. x\<lparr>remote_router_id := v\<rparr>) x
               else merge_attr a ATTR_LINK_IPV4_ROUTER_ID_REMOTE 4 (\<lambda>v x. x\<lparr>remote_router_id := poke 0 v (remote_router_id x)\<rparr>) x);
          x = merge_attr a ATTR_NODE_ISIS_AREA_ID 9 (\<lambda>v x. x\<lparr>link_isis_area_id := v\<rparr>) x;
          x = merge_attr a ATTR_LINK_ADMIN_GROUP 4 (\<lambda>v x. x\<lparr>admin_group := num32 v\<rparr>) x;
          x = merge_attr a ATTR_LINK_MAX_LINK_BW 4 (\<lambda>v x. x\<lparr>max_link_bw := num32 v\<rparr>) x;
          x = merge_attr a ATTR_LINK_MAX_RESV_BW 4 (\<lambda>v x. x\<lparr>max_resv_bw := num32 v\<rparr>) x;
          x = merge_attr a ATTR_LINK_UNRESV_BW 100 (\<lambda>v x. x\<lparr>unreserved_bw := v\<rparr>) x;
          x = merge_attr a ATTR_LINK_TE_DEF_METRIC 4 (\<lambda>v x. x\<lparr>te_def_metric := num32 v\<rparr>) x;
          x = merge_attr a ATTR_LINK_PROTECTION_TYPE 60 (\<lambda>v x. x\<lparr>protection_type := v\<rparr>) x;
          x = merge_attr a ATTR_LINK_MPLS_PROTO_MASK 32 (\<lambda>v x. x\<lparr>mpls_proto_mask := v\<rparr>) x;
          x = merge_attr a ATTR_LINK_IGP_METRIC 4 (\<lambda>v x. x\<lparr>igp_metric := num32 v\<rparr>) x;
          x = merge_attr a ATTR_LINK_SRLG 128 (\<lambda>v x. x\<lparr>srlg := v\<rparr>) x;
          x = merge_attr a ATTR_LINK_NAME 255 (\<lambda>v x. x\<lparr>link_name := v\<rparr>) x;
          x = merge_attr a ATTR_LINK_PEER_EPE_NODE_SID 128 (\<lambda>v x. x\<lparr>peer_node_sid := v\<rparr>) x
      in merge_attr a ATTR_LINK_ADJACENCY_SID 128 (\<lambda>v x. x\<lparr>peer_adj_sid := v\<rparr>) x)"

definition merge_prefix :: "(nat \<rightharpoonup> bytes) \<Rightarrow> obj_ls_prefix \<Rightarrow> obj_ls_prefix" where
  "merge_prefix a x =
     (let x = (if \<not> lsp_isIPv4 x \<and> a ATTR_NODE_IPV6_ROUTER_ID_LOCAL \<noteq> None
               then merge_attr a ATTR_NODE_IPV6_ROUTER_ID_LOCAL 16 (\<lambda>v x. x\<lparr>lsp_router_id := v\<rparr>) x
               else merge_attr a ATTR_NODE_IPV4_ROUTER_ID_LOCAL 4
                      (\<lambda>v x. x\<lparr>lsp_router_id := poke 0 v (lsp_router_id x), lsp_isIPv4 := True\<rparr>) x);
          x = merge_attr a ATTR_NODE_ISIS_AREA_ID 9 (\<lambda>v x. x\<lparr>lsp_isis_area_id := v\<rparr>) x;
          x = merge_attr a ATTR_PREFIX_IGP_FLAGS 32 (\<lambda>v x. x\<lparr>igp_flags := v\<rparr>) x;
          x = merge_attr a ATTR_PREFIX_ROUTE_TAG 4 (\<lambda>v x. x\<lparr>route_tag := num32 v\<rparr>) x;
          x = merge_attr a ATTR_PREFIX_EXTEND_TAG 8 (\<lambda>v x. x\<lparr>ext_route_tag := of_nat (le_val v)\<rparr>) x;
          x = merge_attr a ATTR_PREFIX_PREFIX_METRIC 4 (\<lambda>v x. x\<lparr>metric := num32 v\<rparr>) x;
          x = merge_attr a ATTR_PREFIX_OSPF_FWD_ADDR 16 (\<lambda>v x. x\<lparr>ospf_fwd_addr := v\<rparr>) x
      in merge_attr a ATTR_PREFIX_SID 128 (\<lambda>v x. x\<lparr>sid_tlv := v\<rparr>) x)"

fun merge_nodes :: "(nat \<rightharpoonup> bytes) \<Rightarrow> obj_ls_node list \<Rightarrow> obj_ls_node list result" where
  "merge_nodes a [] = Inr []"
| "merge_nodes a (x # xs) = andThen (merge_node a x) (\<lambda>x. andThen (merge_nodes a xs) (\<lambda>xs. Inr (x # xs)))"

section \<open>Publishing\<close>

definition UpdateDbBgpLs :: "'b msg_bus \<Rightarrow> bool \<Rightarrow> parsed_data_ls \<Rightarrow> (nat \<rightharpoonup> bytes) \<Rightarrow> parse_bgp \<Rightarrow> 'b \<Rightarrow> 'b result" where
  "UpdateDbBgpLs bus remove ls_data a pb b =
     (let action = (if remove then LS_ACTION_DEL else LS_ACTION_ADD)
      in andThen (if length (ls_nodes ls_data) > 0
                  then andThen (merge_nodes a (ls_nodes ls_data)) (\<lambda>ns. update_LsNode bus (p_entry pb) (base_attr pb) ns action b)
                  else Inr b) (\<lambda>b.
         andThen (if length (ls_links ls_data) > 0
                  then update_LsLink bus (p_entry pb) (base_attr pb) (map (merge_link a) (ls_links ls_data)) action b
                  else Inr b) (\<lambda>b.
           if length (ls_prefixes ls_data) > 0
           then update_LsPrefix bus (p_entry pb) (base_attr pb) (map (merge_prefix a) (ls_prefixes ls_data)) action b
           else Inr b)))"

text \<open>The two calls of \<open>UpdateDB\<close>; the attribute map is passed by reference and cleared by the first of them.\<close>

definition bgp_ls_db :: "'b msg_bus \<Rightarrow> (ls_info, 'b) ls_db" where
  "bgp_ls_db bus remove i pb b =
     andThen (UpdateDbBgpLs bus remove (if remove then ls_withdrawn i else ls i) (ls_attrs i) pb b) (\<lambda>b.
       Inr (i\<lparr>ls_attrs := (\<lambda>_. None)\<rparr>, b))"

text \<open>The parsers of the attributes, with link state.\<close>

definition ls_ext :: "(bytes \<Rightarrow> string) \<Rightarrow> ls_info ext" where
  "ls_ext f6 = \<lparr>ntop6 = f6, ls_reach = parseReachLinkState f6, ls_unreach = parseUnReachLinkState, ls_attr = parseAttrLinkState f6\<rparr>"

section \<open>Behaviour\<close>

lemma merge_none:
  "merge_node (\<lambda>_. None) x = Inr x" "merge_link (\<lambda>_. None) y = y" "merge_prefix (\<lambda>_. None) z = z"
  by (simp_all add: merge_node_def merge_link_def merge_prefix_def merge_attr_def)

lemma merge_nodes_none: "merge_nodes (\<lambda>_. None) xs = Inr xs"
  by (induction xs) (simp_all add: merge_none)

lemma UpdateDbBgpLs_empty: "UpdateDbBgpLs bus remove no_ls_data a pb b = Inr b"
  by (simp add: UpdateDbBgpLs_def no_ls_data_def)

text \<open>The calls on the bus for routes as they are.\<close>

definition ls_calls :: "'b msg_bus \<Rightarrow> ls_action_code \<Rightarrow> parsed_data_ls \<Rightarrow> parse_bgp \<Rightarrow> 'b \<Rightarrow> 'b result" where
  "ls_calls bus action d pb b =
     andThen (if ls_nodes d = [] then Inr b else update_LsNode bus (p_entry pb) (base_attr pb) (ls_nodes d) action b) (\<lambda>b.
     andThen (if ls_links d = [] then Inr b else update_LsLink bus (p_entry pb) (base_attr pb) (ls_links d) action b) (\<lambda>b.
       if ls_prefixes d = [] then Inr b else update_LsPrefix bus (p_entry pb) (base_attr pb) (ls_prefixes d) action b))"

definition merged :: "(nat \<rightharpoonup> bytes) \<Rightarrow> parsed_data_ls \<Rightarrow> parsed_data_ls result" where
  "merged a d = andThen (merge_nodes a (ls_nodes d)) (\<lambda>ns.
     Inr \<lparr>ls_nodes = ns, ls_links = map (merge_link a) (ls_links d), ls_prefixes = map (merge_prefix a) (ls_prefixes d)\<rparr>)"

lemma merge_nodes_empty: "merge_nodes a xs = Inr ys \<Longrightarrow> ys = [] \<longleftrightarrow> xs = []"
  by (cases xs) (auto simp: andThen_eq_Inr)

lemma UpdateDbBgpLs_calls:
  assumes "merged a d = Inr d'"
  shows "UpdateDbBgpLs bus remove d a pb b = ls_calls bus (if remove then LS_ACTION_DEL else LS_ACTION_ADD) d' pb b"
  using assms merge_nodes_empty [of a "ls_nodes d"]
  by (auto simp: merged_def UpdateDbBgpLs_def ls_calls_def andThen_eq_Inr Let_def)

lemma UpdateDB_ls:
  assumes "merged (ls_attrs (ls_part pd)) (ls (ls_part pd)) = Inr d"
    and "advertised pd = []" "withdrawn pd = []" "vpn pd = []" "vpn_withdrawn pd = []" "evpn pd = []" "evpn_withdrawn pd = []"
  shows "UpdateDB False (bgp_ls_db bus) bus pd pb b =
    andThen (UpdateDBAttrs bus (attrs pd) pb b) (\<lambda>(pb, b).
    andThen (ls_calls bus LS_ACTION_ADD d pb b) (\<lambda>b.
    andThen (ls_calls bus LS_ACTION_DEL (ls_withdrawn (ls_part pd)) pb b) (\<lambda>b. Inr (pb, b))))"
proof -
  have "merge_link (\<lambda>_. None) = (\<lambda>y. y)" "merge_prefix (\<lambda>_. None) = (\<lambda>z. z)" by (auto simp: merge_none)
  then have "merged (\<lambda>_. None) w = Inr w" for w by (simp add: merged_def merge_nodes_none)
  then have del: "UpdateDbBgpLs bus True w (\<lambda>_. None) pb b = ls_calls bus LS_ACTION_DEL w pb b" for w pb b
    using UpdateDbBgpLs_calls [of "\<lambda>_. None" w w bus True] by simp
  show ?thesis
    using UpdateDbBgpLs_calls [OF assms(1), of bus False] assms(2-)
    by (simp add: UpdateDB_def bgp_ls_db_def del UpdateDBAdvPrefixes_def UpdateDBWdrawnPrefixes_def UpdateDBL3Vpn_def
        UpdateDBeVPN_def andThen_assoc split_def)
qed

lemma add_ls_tlv_routes:
  "ls (add_ls_tlv i x) = ls i" "ls_withdrawn (add_ls_tlv i x) = ls_withdrawn i" "add_ls_tlv (i\<lparr>ls := l\<rparr>) x = (add_ls_tlv i x)\<lparr>ls := l\<rparr>"
  by (cases x; simp add: add_ls_tlv_def set_array_def attr_array_def)+

lemma foldl_add_ls_tlv:
  "ls_withdrawn (foldl add_ls_tlv i xs) = ls_withdrawn i" "foldl add_ls_tlv (i\<lparr>ls := l\<rparr>) xs = (foldl add_ls_tlv i xs)\<lparr>ls := l\<rparr>"
  by (induction xs arbitrary: i) (simp_all add: add_ls_tlv_routes)

lemma merged_okay:
  assumes "\<And>v. a ATTR_NODE_MT_ID = Some v \<Longrightarrow> 0 \<in> set v"
  shows "\<exists>d'. merged a d = Inr d'"
proof -
  have "\<exists>y. merge_node a x = Inr y" for x
    using assms by (cases "a ATTR_NODE_MT_ID") (auto simp: merge_node_def c_bytes_def Let_def)
  then have "\<exists>ys. merge_nodes a xs = Inr ys" for xs
    by (induction xs) (auto, metis andThen_Inr)
  then obtain ns where "merge_nodes a (ls_nodes d) = Inr ns" by blast
  then show ?thesis by (simp add: merged_def)
qed

lemma attr_mt_terminated:
  assumes "list_all tlv_valid xs" "\<And>v. ls_attrs i ATTR_NODE_MT_ID = Some v \<Longrightarrow> 0 \<in> set v"
  shows "ls_attrs (foldl add_ls_tlv i xs) ATTR_NODE_MT_ID = Some v \<Longrightarrow> 0 \<in> set v"
  using assms
proof (induction xs arbitrary: i)
  case (Cons x xs)
  have "0 \<in> set v" if "ls_attrs (add_ls_tlv i x) ATTR_NODE_MT_ID = Some v" for v
    using that Cons.prems
    by (cases x) (auto simp: add_ls_tlv_def set_array_def attr_types handled_types_def poke_def split: if_splits)
  with Cons.IH [of "add_ls_tlv i x"] Cons.prems(1,2) show ?case by simp
qed simp

section \<open>A message from the wire to the bus\<close>

definition ls_attr_bytes :: "u8 \<Rightarrow> bytes \<Rightarrow> bytes" where
  "ls_attr_bytes t v = [0x90, t] @ be_bytes 2 (length v) @ v"

lemma length_ls_attr_bytes [simp]: "length (ls_attr_bytes t v) = 4 + length v"
  by (simp add: ls_attr_bytes_def)

lemma ls_attr_bytes_step:
  assumes "v \<noteq> []" "r + 4 + length v \<le> len" "length v < 2 ^ 16" "parseAttrData x t (length v) (v @ rest) st = Inr st'"
  shows "attr_loop x len r (ls_attr_bytes t v @ rest) st = attr_loop x len (r + (4 + length v)) rest st'"
proof -
  have "attr_loop x len r (ls_attr_bytes t v @ rest) st = attr_loop x len (r + (2 + 2) + length v) rest st'"
  proof (rule attr_loop_step)
    show "rd 2 (ls_attr_bytes t v @ rest) = Inr [0x90, t]" by (simp add: ls_attr_bytes_def rd_def del: be_bytes_numeral)
    show "attr_length 0x90 (ls_attr_bytes t v @ rest) = Inr (length v, 4, 2)"
      using assms(3) by (simp add: attr_length_def ls_attr_bytes_def ATTR_FLAG_EXTENDED_def be_val_be_bytes del: be_bytes_numeral)
    show "drop 4 (ls_attr_bytes t v @ rest) = v @ rest" by (simp add: ls_attr_bytes_def del: be_bytes_numeral)
  qed (use assms in auto)
  then show ?thesis by (simp add: add.assoc)
qed

definition ls_update_body :: "bytes \<Rightarrow> bytes \<Rightarrow> bytes" where
  "ls_update_body r t =
     (let a = ls_attr_bytes 14 r @ ls_attr_bytes 29 t in be_bytes 2 0 @ be_bytes 2 (length a) @ a)"

lemma length_ls_update_body: "length (ls_update_body r t) = 12 + length r + length t"
  by (simp add: ls_update_body_def ls_attr_bytes_def Let_def)

lemma empty_ls [simp]:
  "attrs (empty_update l) = (\<lambda>_. None)" "ls_part (empty_update l) = l" "advertised (empty_update l) = []" "withdrawn (empty_update l) = []"
  "vpn (empty_update l) = []" "vpn_withdrawn (empty_update l) = []" "evpn (empty_update l) = []" "evpn_withdrawn (empty_update l) = []"
  "ls no_ls_info = no_ls_data" "ls_withdrawn no_ls_info = no_ls_data"
  by (simp_all add: empty_update_def no_ls_info_def)

lemma ls_update_run:
  assumes "list_all route_ok rs" "length nh = 4 \<or> length nh = 16" "list_all tlv_valid xs" "xs \<noteq> []"
    and r: "r = mp_reach_bytes BGP_AFI_BGPLS (of_nat BGP_SAFI_BGPLS) nh (concat (map enc_route rs))"
    and t: "t = concat (map enc_ls_tlv xs)" and len: "length (ls_update_body r t) < 2 ^ 16"
  shows "parseUpdateMsg (ls_ext f6) (ls_update_body r t @ rest) (of_nat (length (ls_update_body r t))) (p, empty_update no_ls_info) =
    Inr (of_nat (length (ls_update_body r t)), p,
      (empty_update no_ls_info)\<lparr>attrs := [3 \<mapsto> if length nh = 4 then inet_ntop4 nh else f6 nh],
        ls_part := (foldl add_ls_tlv no_ls_info xs)\<lparr>ls := foldl add_route no_ls_data rs\<rparr>\<rparr>)"
proof -
  let ?a = "ls_attr_bytes 14 r @ ls_attr_bytes 29 t" and ?nh = "if length nh = 4 then inet_ntop4 nh else f6 nh"
  let ?pd = "empty_update no_ls_info"
  define pd1 where "pd1 = (set_next_hop ?nh ?pd)\<lparr>ls_part := (ls_part ?pd)\<lparr>ls := foldl add_route (ls (ls_part ?pd)) rs\<rparr>\<rparr>"
  define pd2 where "pd2 = pd1\<lparr>ls_part := foldl add_ls_tlv (ls_part pd1) xs\<rparr>"
  have l: "length r < 2 ^ 16" "length t < 2 ^ 16" "length ?a = 8 + length r + length t" using len
    by (simp_all add: length_ls_update_body ls_attr_bytes_def)
  have ne: "r \<noteq> []" "t \<noteq> []" using assms(4) unfolding r t by (auto simp: mp_reach_bytes_def enc_ls_tlv_def ls_tlv_def neq_Nil_conv)
  have p1: "parseAttrData (ls_ext f6) 14 (length r) (r @ rest') (p, ?pd) = Inr (p, pd1)" for rest'
    using reach_ls_run [OF assms(1,2) refl r l(1), of f6 rest' p ?pd] by (simp add: parseAttrData_def ls_ext_def pd1_def)
  have p2: "parseAttrData (ls_ext f6) 29 (length t) (t @ rest') (p, pd1) = Inr (p, pd2)" for rest'
    using ls_attr_run [OF assms(3) t l(2), of f6 rest' pd1] by (simp add: parseAttrData_def ls_ext_def pd2_def)
  have "attr_loop (ls_ext f6) (length ?a) 0 (?a @ rest) (p, ?pd) =
    attr_loop (ls_ext f6) (length ?a) (0 + (4 + length r)) (ls_attr_bytes 29 t @ rest) (p, pd1)"
    unfolding append_assoc by (rule ls_attr_bytes_step [OF ne(1) _ l(1) p1]) simp
  also have "\<dots> = attr_loop (ls_ext f6) (length ?a) (0 + (4 + length r) + (4 + length t)) rest (p, pd2)"
    by (rule ls_attr_bytes_step [OF ne(2) _ l(2) p2]) simp
  also have "\<dots> = Inr (p, pd2)" by (simp add: l(3) attr_loop.simps)
  finally have "parseAttributes (ls_ext f6) (?a @ rest) (length ?a) (p, ?pd) = Inr (p, pd2)"
    using l(3) by (simp add: parseAttributes_def)
  then have run: "andThen (if 0 < length ?a then parseAttributes (ls_ext f6) (?a @ rest) (length ?a) (p, ?pd) else Inr (p, ?pd))
      (\<lambda>st. Inr (of_nat (length (ls_update_body r t)), st)) = Inr (of_nat (length (ls_update_body r t)), p, pd2)"
    by simp
  have st: "(p, ?pd) = (p, ?pd\<lparr>advertised := [], attrs := \<lambda>_. None, withdrawn := []\<rparr>)" by (simp add: empty_update_def)
  have L: "length (ls_update_body r t) = 4 + 0 + length ?a + 0" by (simp add: length_ls_update_body)
  have L': "of_nat (length (ls_update_body r t)) = (of_nat (4 + 0 + length ?a + 0) :: u64)" unfolding L ..
  have E: "ls_update_body r t @ rest = be_bytes 2 0 @ [] @ be_bytes 2 (length ?a) @ ?a @ rest"
    by (simp add: ls_update_body_def Let_def del: be_bytes_numeral)
  have "pd2 = ?pd\<lparr>attrs := [3 \<mapsto> ?nh], ls_part := (foldl add_ls_tlv no_ls_info xs)\<lparr>ls := foldl add_route no_ls_data rs\<rparr>\<rparr>"
    by (simp add: pd1_def pd2_def foldl_add_ls_tlv set_next_hop_def)
  then show ?thesis
    using update_split [OF _ refl len [unfolded L] E L' st, of "ls_ext f6"] run by (simp del: be_bytes_numeral)
qed


text \<open>A bus that counts the nodes, links and prefixes.\<close>

definition ls_count_bus :: "(nat \<times> nat) msg_bus" where
  "ls_count_bus = count_bus\<lparr>update_LsNode := (\<lambda>_ _ xs _ b. Inr (fst b + length xs, snd b)),
     update_LsLink := (\<lambda>_ _ xs _ b. Inr (fst b + length xs, snd b)), update_LsPrefix := (\<lambda>_ _ xs _ b. Inr (fst b, snd b + length xs))\<rparr>"

lemma merged_length:
  assumes "merged a d = Inr d'"
  shows "length (ls_nodes d') = length (ls_nodes d)" "length (ls_links d') = length (ls_links d)" "length (ls_prefixes d') = length (ls_prefixes d)"
proof -
  have "merge_nodes a xs = Inr ys \<Longrightarrow> length ys = length xs" for xs ys
    by (induction xs arbitrary: ys) (auto simp: andThen_eq_Inr)
  with assms show "length (ls_nodes d') = length (ls_nodes d)" "length (ls_links d') = length (ls_links d)" "length (ls_prefixes d') = length (ls_prefixes d)"
    by (auto simp: merged_def andThen_eq_Inr)
qed


end
