(* ===== verification/KafkaTopic.thy ===== *)
theory KafkaTopic
  imports MsgBus
begin

text \<open>
  \<open>kafka/KafkaTopicSelector.cpp\<close>: the names of the topics. A topic is chosen by a variable (the kind of record),
  the group of the router, the group of the peer and the AS number of the peer. A handle is created on first
  use and kept in a map under a key that is built from the same four values. The groups are looked up by
  host name, by address and, for a peer, by AS number.

  A topic handle of librdkafka is its name. Regular expressions and \<open>inet_pton\<close> are arguments: \<open>regex_search h r\<close>,
  and \<open>pton v4 s\<close>, which is \<open>None\<close> when the text is not an address.
\<close>

section \<open>Configuration\<close>

record match_type_ip =
  mi_isIPv4 :: bool
  mi_prefix :: "u32 list"
  mi_bits :: u8

text \<open>The maps of the groups in the order of their iteration. A topic without an entry has the empty name.\<close>

record topic_config =
  topic_names_map :: "string \<rightharpoonup> string"
  match_router_group_by_name :: "(string \<times> string list) list"
  match_router_group_by_ip :: "(string \<times> match_type_ip list) list"
  match_peer_group_by_name :: "(string \<times> string list) list"
  match_peer_group_by_ip :: "(string \<times> match_type_ip list) list"
  match_peer_group_by_asn :: "(string \<times> u32 list) list"

definition MSGBUS_TOPIC_VAR_COLLECTOR :: string where "MSGBUS_TOPIC_VAR_COLLECTOR = ''collector''"
definition MSGBUS_TOPIC_VAR_ROUTER :: string where "MSGBUS_TOPIC_VAR_ROUTER = ''router''"
definition MSGBUS_TOPIC_VAR_PEER :: string where "MSGBUS_TOPIC_VAR_PEER = ''peer''"
definition MSGBUS_TOPIC_VAR_BASE_ATTRIBUTE :: string where "MSGBUS_TOPIC_VAR_BASE_ATTRIBUTE = ''base_attribute''"
definition MSGBUS_TOPIC_VAR_UNICAST_PREFIX :: string where "MSGBUS_TOPIC_VAR_UNICAST_PREFIX = ''unicast_prefix''"
definition MSGBUS_TOPIC_VAR_L3VPN :: string where "MSGBUS_TOPIC_VAR_L3VPN = ''l3vpn''"
definition MSGBUS_TOPIC_VAR_EVPN :: string where "MSGBUS_TOPIC_VAR_EVPN = ''evpn''"
definition MSGBUS_TOPIC_VAR_LS_NODE :: string where "MSGBUS_TOPIC_VAR_LS_NODE = ''ls_node''"
definition MSGBUS_TOPIC_VAR_LS_LINK :: string where "MSGBUS_TOPIC_VAR_LS_LINK = ''ls_link''"
definition MSGBUS_TOPIC_VAR_LS_PREFIX :: string where "MSGBUS_TOPIC_VAR_LS_PREFIX = ''ls_prefix''"
definition MSGBUS_TOPIC_VAR_BMP_STAT :: string where "MSGBUS_TOPIC_VAR_BMP_STAT = ''bmp_stat''"
definition MSGBUS_TOPIC_VAR_BMP_RAW :: string where "MSGBUS_TOPIC_VAR_BMP_RAW = ''bmp_raw''"

lemmas topic_vars =
  MSGBUS_TOPIC_VAR_COLLECTOR_def MSGBUS_TOPIC_VAR_ROUTER_def MSGBUS_TOPIC_VAR_PEER_def MSGBUS_TOPIC_VAR_BASE_ATTRIBUTE_def
  MSGBUS_TOPIC_VAR_UNICAST_PREFIX_def MSGBUS_TOPIC_VAR_L3VPN_def MSGBUS_TOPIC_VAR_EVPN_def MSGBUS_TOPIC_VAR_LS_NODE_def
  MSGBUS_TOPIC_VAR_LS_LINK_def MSGBUS_TOPIC_VAR_LS_PREFIX_def MSGBUS_TOPIC_VAR_BMP_STAT_def MSGBUS_TOPIC_VAR_BMP_RAW_def

section \<open>Texts\<close>

text \<open>\<open>boost::replace_all\<close>: occurrences from left to right, without overlap.\<close>

function replace_all :: "string \<Rightarrow> string \<Rightarrow> string \<Rightarrow> string" where
  "replace_all pat new s =
     (if s = [] then []
      else if pat \<noteq> [] \<and> take (length pat) s = pat then new @ replace_all pat new (drop (length pat) s)
      else hd s # replace_all pat new (tl s))"
  by pat_completeness auto
termination by (relation "measure (\<lambda>(_, _, s). length s)") auto

declare replace_all.simps [simp del]

fun has_text :: "string \<Rightarrow> string \<Rightarrow> bool" where
  "has_text pat [] = (pat = [])"
| "has_text pat (c # s) = (take (length pat) (c # s) = pat \<or> has_text pat s)"

section \<open>The selector\<close>

record topic_sel =
  topic :: "string \<rightharpoonup> string"
  topic_flags_map :: "string \<Rightarrow> bool"   \<comment> \<open>\<open>include_peerAsn\<close>, false for a new entry\<close>

definition new_topic_sel :: topic_sel where
  "new_topic_sel = \<lparr>topic = (\<lambda>_. None), topic_flags_map = (\<lambda>_. False)\<rparr>"

definition topic_name :: "topic_config \<Rightarrow> string \<Rightarrow> string" where
  "topic_name cfg v = (case topic_names_map cfg v of None \<Rightarrow> [] | Some s \<Rightarrow> s)"

definition topicEnabled :: "topic_config \<Rightarrow> string \<Rightarrow> bool" where
  "topicEnabled cfg v \<longleftrightarrow> length (topic_name cfg v) > 0"

text \<open>A group that is \<open>NULL\<close> or empty has no text.\<close>

definition group_text :: "string option \<Rightarrow> string" where
  "group_text g = (case g of None \<Rightarrow> [] | Some s \<Rightarrow> s)"

definition getTopicKey :: "topic_sel \<Rightarrow> string \<Rightarrow> string option \<Rightarrow> string option \<Rightarrow> u32 \<Rightarrow> string" where
  "getTopicKey t v r_group p_group peer_asn =
     v @
     (if v \<noteq> MSGBUS_TOPIC_VAR_COLLECTOR
      then ''_'' @ group_text r_group @
        (if v \<noteq> MSGBUS_TOPIC_VAR_ROUTER
         then ''_'' @ group_text p_group @
           (if topic_flags_map t v then ''_'' @ (if peer_asn > 0 then dec_of_nat (unat peer_asn) else '''') else '''')
         else '''')
      else '''')"

definition subst_group :: "string \<Rightarrow> string option \<Rightarrow> string \<Rightarrow> string" where
  "subst_group pat g name = replace_all pat (if group_text g \<noteq> [] then group_text g else ''default'') name"

definition subst_groups :: "topic_config \<Rightarrow> string \<Rightarrow> string option \<Rightarrow> string option \<Rightarrow> string" where
  "subst_groups cfg v r_group p_group =
     subst_group ''{peer_group}'' p_group (subst_group ''{router_group}'' r_group (topic_name cfg v))"

definition topic_name_for :: "topic_config \<Rightarrow> string \<Rightarrow> string option \<Rightarrow> string option \<Rightarrow> u32 \<Rightarrow> string" where
  "topic_name_for cfg v r_group p_group peer_asn =
     (if v = MSGBUS_TOPIC_VAR_COLLECTOR then topic_name cfg v
      else if v = MSGBUS_TOPIC_VAR_ROUTER then subst_group ''{router_group}'' r_group (topic_name cfg v)
      else replace_all ''{peer_asn}'' (if peer_asn > 0 then dec_of_nat (unat peer_asn) else ''default'')
             (subst_groups cfg v r_group p_group))"

text \<open>\<open>create n\<close> tells whether librdkafka creates the topic \<open>n\<close>, \<open>set_cb\<close> whether it takes the partitioner.\<close>

definition initTopic :: "topic_config \<Rightarrow> bool \<Rightarrow> (string \<Rightarrow> bool) \<Rightarrow> string \<Rightarrow> string option \<Rightarrow> string option \<Rightarrow> u32 \<Rightarrow> topic_sel \<Rightarrow> (string \<times> topic_sel) result" where
  "initTopic cfg set_cb create v r_group p_group peer_asn t =
     (let t = t\<lparr>topic_flags_map := (topic_flags_map t)(v := has_text ''{peer_asn}'' (topic_name cfg v))\<rparr>;
          key = getTopicKey t v r_group p_group peer_asn;
          name = topic_name_for cfg v r_group p_group peer_asn
      in if \<not> set_cb then Inl (Throw ''ERROR: Failed to configure kafka partitioner callback'')
         else if \<not> create name then Inl (Throw ''ERROR: Failed to create topic'')
         else Inr (name, t\<lparr>topic := (topic t)(key \<mapsto> name)\<rparr>))"

definition getTopic :: "topic_config \<Rightarrow> bool \<Rightarrow> (string \<Rightarrow> bool) \<Rightarrow> string \<Rightarrow> string option \<Rightarrow> string option \<Rightarrow> u32 \<Rightarrow> topic_sel \<Rightarrow> (string \<times> topic_sel) result" where
  "getTopic cfg set_cb create v r_group p_group peer_asn t =
     (case topic t (getTopicKey t v r_group p_group peer_asn) of
        Some name \<Rightarrow> Inr (name, t)
      | None \<Rightarrow> initTopic cfg set_cb create v r_group p_group peer_asn t)"

section \<open>Groups\<close>

fun group_by_name :: "(string \<Rightarrow> string \<Rightarrow> bool) \<Rightarrow> string \<Rightarrow> (string \<times> string list) list \<Rightarrow> string option" where
  "group_by_name regex_search hostname [] = None"
| "group_by_name regex_search hostname ((name, rs) # gs) =
     (if list_ex (regex_search hostname) rs then Some name else group_by_name regex_search hostname gs)"

text \<open>\<open>w <<= n; w >>= n\<close>, undefined when \<open>n\<close> is not below the width.\<close>

definition cut_word :: "u8 \<Rightarrow> u32 \<Rightarrow> u32 result" where
  "cut_word n w = (if unat n < 32 then Inr (drop_bit (unat n) (push_bit (unat n) w)) else Inl Overflow)"

text \<open>
  One entry of a prefix list: the array with the address of the client is changed and the changed array is
  what the next entry starts with.
\<close>

definition match_ip :: "bool \<Rightarrow> match_type_ip \<Rightarrow> u32 list \<Rightarrow> (bool \<times> u32 list) result" where
  "match_ip v4 e pfx =
     (if mi_isIPv4 e = v4
      then andThen (cut_word (32 - mi_bits e) (pfx ! 0)) (\<lambda>w.
             let pfx = pfx[0 := w] in Inr (pfx ! 0 = mi_prefix e ! 0, pfx))
      else
        let end_idx = mi_bits e div 32; bits = mi_bits e - 32 * end_idx; end_idx = (if bits = 0 then end_idx - 1 else end_idx)
        in andThen (if unat end_idx < 4 \<and> bits < 32
                    then andThen (cut_word bits (pfx ! unat end_idx)) (\<lambda>w. Inr (pfx[unat end_idx := w]))
                    else Inr pfx) (\<lambda>pfx.
             Inr (pfx ! 0 = mi_prefix e ! 0 \<and> pfx ! 1 = mi_prefix e ! 1 \<and> pfx ! 2 = mi_prefix e ! 2 \<and> pfx ! 3 = mi_prefix e ! 3, pfx)))"

fun match_list :: "bool \<Rightarrow> match_type_ip list \<Rightarrow> u32 list \<Rightarrow> (bool \<times> u32 list) result" where
  "match_list v4 [] pfx = Inr (False, pfx)"
| "match_list v4 (e # es) pfx =
     andThen (match_ip v4 e pfx) (\<lambda>(m, pfx). if m then Inr (True, pfx) else match_list v4 es pfx)"

fun group_by_ip :: "bool \<Rightarrow> (string \<times> match_type_ip list) list \<Rightarrow> u32 list \<Rightarrow> string option result" where
  "group_by_ip v4 [] pfx = Inr None"
| "group_by_ip v4 ((name, es) # gs) pfx =
     andThen (match_list v4 es pfx) (\<lambda>(m, pfx). if m then Inr (Some name) else group_by_ip v4 gs pfx)"

text \<open>The four words of the array as a little-endian host reads them from the bytes of the address.\<close>

definition words_of :: "bytes \<Rightarrow> u32 list" where
  "words_of bs = map (\<lambda>i. of_nat (le_val (take 4 (drop (4 * i) bs)))) [0..<4]"

definition address_words :: "(bool \<Rightarrow> string \<Rightarrow> bytes option) \<Rightarrow> string \<Rightarrow> u32 list" where
  "address_words pton ip_addr =
     (case pton (CHR '':'' \<notin> set ip_addr) ip_addr of
        None \<Rightarrow> replicate 4 0
      | Some bs \<Rightarrow> words_of (bs @ replicate (16 - length bs) 0))"

fun group_by_asn :: "u32 \<Rightarrow> (string \<times> u32 list) list \<Rightarrow> string option" where
  "group_by_asn asn [] = None"
| "group_by_asn asn ((name, as) # gs) = (if asn \<in> set as then Some name else group_by_asn asn gs)"

definition lookupPeerGroup :: "(string \<Rightarrow> string \<Rightarrow> bool) \<Rightarrow> (bool \<Rightarrow> string \<Rightarrow> bytes option) \<Rightarrow> topic_config \<Rightarrow> string \<Rightarrow> string \<Rightarrow> u32 \<Rightarrow> string result" where
  "lookupPeerGroup regex_search pton cfg hostname ip_addr peer_asn =
     (case (if length hostname > 0 then group_by_name regex_search hostname (match_peer_group_by_name cfg) else None) of
        Some name \<Rightarrow> Inr name
      | None \<Rightarrow>
          andThen (group_by_ip (CHR '':'' \<notin> set ip_addr) (match_peer_group_by_ip cfg) (address_words pton ip_addr)) (\<lambda>g.
            case g of
              Some name \<Rightarrow> Inr name
            | None \<Rightarrow> Inr (group_text (group_by_asn peer_asn (match_peer_group_by_asn cfg)))))"

definition lookupRouterGroup :: "(string \<Rightarrow> string \<Rightarrow> bool) \<Rightarrow> (bool \<Rightarrow> string \<Rightarrow> bytes option) \<Rightarrow> topic_config \<Rightarrow> string \<Rightarrow> string \<Rightarrow> string result" where
  "lookupRouterGroup regex_search pton cfg hostname ip_addr =
     (case (if length hostname > 0 then group_by_name regex_search hostname (match_router_group_by_name cfg) else None) of
        Some name \<Rightarrow> Inr name
      | None \<Rightarrow>
          andThen (group_by_ip (CHR '':'' \<notin> set ip_addr) (match_router_group_by_ip cfg) (address_words pton ip_addr)) (\<lambda>g.
            Inr (group_text g)))"

section \<open>Partitions\<close>

text \<open>A \<open>char\<close> is signed, the sum is an \<open>int\<close> and \<open>%\<close> takes the sign of its first operand.\<close>

definition schar :: "char \<Rightarrow> int" where
  "schar c = (let n = int (of_char c) in if n < 128 then n else n - 256)"

definition partitioner_cb :: "string \<Rightarrow> int \<Rightarrow> int result" where
  "partitioner_cb key partition_cnt =
     (if key = [] then Inl Uncaught
      else if partition_cnt = 0 then Inl Overflow
      else let n = schar (hd key) + schar (last key)
           in Inr (if n < 0 then - ((- n) mod partition_cnt) else n mod partition_cnt))"

section \<open>The key determines the topic\<close>

definition topic_var_list :: "string list" where
  "topic_var_list = [MSGBUS_TOPIC_VAR_COLLECTOR, MSGBUS_TOPIC_VAR_ROUTER, MSGBUS_TOPIC_VAR_PEER, MSGBUS_TOPIC_VAR_BASE_ATTRIBUTE,
     MSGBUS_TOPIC_VAR_UNICAST_PREFIX, MSGBUS_TOPIC_VAR_L3VPN, MSGBUS_TOPIC_VAR_EVPN, MSGBUS_TOPIC_VAR_LS_NODE, MSGBUS_TOPIC_VAR_LS_LINK,
     MSGBUS_TOPIC_VAR_LS_PREFIX, MSGBUS_TOPIC_VAR_BMP_STAT, MSGBUS_TOPIC_VAR_BMP_RAW]"

text \<open>
  Arguments of \<open>getTopic\<close> under which the cache is right: the names of the groups have no underscore, and
  inserting them does not make up a place for the AS number that the configured name did not have.
\<close>

definition topic_args :: "topic_config \<Rightarrow> string \<Rightarrow> string option \<Rightarrow> string option \<Rightarrow> bool" where
  "topic_args cfg v r p \<longleftrightarrow> v \<in> set topic_var_list \<and> CHR ''_'' \<notin> set (group_text r) \<and> CHR ''_'' \<notin> set (group_text p) \<and>
     (has_text ''{peer_asn}'' (subst_groups cfg v r p) \<longrightarrow> has_text ''{peer_asn}'' (topic_name cfg v))"

lemma replace_all_absent: "\<not> has_text pat s \<Longrightarrow> replace_all pat new s = s"
  by (induction s) (subst replace_all.simps; simp)+

lemma no_var_extends: "list_all (\<lambda>v. list_all (\<lambda>w. take (Suc (length v)) w \<noteq> v @ ''_'') topic_var_list) topic_var_list"
  by code_simp

lemma topic_var_split:
  assumes "v \<in> set topic_var_list" "w \<in> set topic_var_list" "v @ s = w @ s'" "s = [] \<or> hd s = CHR ''_''" "s' = [] \<or> hd s' = CHR ''_''"
  shows "v = w"
proof -
  have no: "w \<noteq> v @ CHR ''_'' # u" if "v \<in> set topic_var_list" "w \<in> set topic_var_list" for v w u
  proof -
    have "take (Suc (length v)) w \<noteq> v @ ''_''" using no_var_extends that by (simp add: list_all_iff)
    then show ?thesis by auto
  qed
  from assms(3) obtain u where "v = w @ u \<and> u @ s = s' \<or> v @ u = w \<and> s = u @ s'" by (auto simp: append_eq_append_conv2)
  then show ?thesis using no [OF assms(1,2), of "tl u"] no [OF assms(2,1), of "tl u"] assms(4,5) by (cases u) auto
qed

lemma underscore_split:
  assumes "CHR ''_'' \<notin> set x" "CHR ''_'' \<notin> set x'" "x @ s = x' @ s'" "s = [] \<or> hd s = CHR ''_''" "s' = [] \<or> hd s' = CHR ''_''"
  shows "x = x' \<and> s = s'"
proof -
  have "takeWhile (\<lambda>c. c \<noteq> CHR ''_'') (x @ s) = x" if "CHR ''_'' \<notin> set x" "s = [] \<or> hd s = CHR ''_''" for x s
    using that by (cases s) (auto simp: takeWhile_append)
  from this [OF assms(1,4)] this [OF assms(2,5)] assms(3) show ?thesis by simp
qed

lemma getTopicKey_inject:
  assumes "topic_args cfg v r p" "topic_args cfg v' r' p'" "getTopicKey t v r p a = getTopicKey t v' r' p' a'"
    and "topic_flags_map t v' = has_text ''{peer_asn}'' (topic_name cfg v')"
  shows "topic_name_for cfg v r p a = topic_name_for cfg v' r' p' a'"
proof -
  have v: "v' = v"
    by (rule topic_var_split [symmetric, OF _ _ assms(3) [unfolded getTopicKey_def]]) (use assms(1,2) in \<open>simp_all add: topic_args_def\<close>)
  note args = assms(1,2,4) [unfolded v topic_args_def]
  consider "v = MSGBUS_TOPIC_VAR_COLLECTOR" | "v = MSGBUS_TOPIC_VAR_ROUTER" | "v \<noteq> MSGBUS_TOPIC_VAR_COLLECTOR" "v \<noteq> MSGBUS_TOPIC_VAR_ROUTER" by blast
  then show ?thesis
  proof cases
    case 3
    let ?tail = "\<lambda>a. if topic_flags_map t v then ''_'' @ (if (a :: u32) > 0 then dec_of_nat (unat a) else '''') else ''''"
    from assms(3) 3 have "group_text r @ ''_'' @ group_text p @ ?tail a = group_text r' @ ''_'' @ group_text p' @ ?tail a'"
      by (simp add: getTopicKey_def v del: append_Cons)
    then have g: "group_text r = group_text r' \<and> ''_'' @ group_text p @ ?tail a = ''_'' @ group_text p' @ ?tail a'"
      by (rule underscore_split [rotated 2]) (use args in simp_all)
    then have "group_text p @ ?tail a = group_text p' @ ?tail a'" by simp
    then have p: "group_text p = group_text p' \<and> ?tail a = ?tail a'"
      by (rule underscore_split [rotated 2]) (use args in simp_all)
    have s: "subst_groups cfg v r p = subst_groups cfg v r' p'" by (simp add: subst_groups_def subst_group_def g p)
    show ?thesis
    proof (cases "topic_flags_map t v")
      case True
      with p have "a > 0 \<longleftrightarrow> a' > 0" "a > 0 \<Longrightarrow> dec_of_nat (unat a) = dec_of_nat (unat a')"
        by (auto split: if_splits dest: sym [of "[]"])
      then show ?thesis using 3 by (auto simp: topic_name_for_def v s)
    next
      case False
      with args have "\<not> has_text ''{peer_asn}'' (subst_groups cfg v r p)" by simp
      then show ?thesis using 3 s by (simp add: topic_name_for_def v replace_all_absent)
    qed
  qed (use assms(3) in \<open>auto simp: topic_name_for_def v getTopicKey_def subst_group_def topic_vars\<close>)
qed

text \<open>Selectors that arise from calls with such arguments, and the invariant of their maps.\<close>

inductive sel_reach :: "topic_config \<Rightarrow> (string \<Rightarrow> bool) \<Rightarrow> topic_sel \<Rightarrow> bool" for cfg create where
  new: "sel_reach cfg create new_topic_sel"
| get: "sel_reach cfg create t \<Longrightarrow> topic_args cfg v r p \<Longrightarrow> getTopic cfg cb create v r p a t = Inr (n, t') \<Longrightarrow> sel_reach cfg create t'"

definition sel_inv :: "topic_config \<Rightarrow> topic_sel \<Rightarrow> bool" where
  "sel_inv cfg t \<longleftrightarrow> (\<forall>key n. topic t key = Some n \<longrightarrow>
     (\<exists>v r p a. topic_args cfg v r p \<and> topic_flags_map t v = has_text ''{peer_asn}'' (topic_name cfg v) \<and>
        key = getTopicKey t v r p a \<and> n = topic_name_for cfg v r p a)) \<and>
   (\<forall>v. topic_flags_map t v \<longrightarrow> has_text ''{peer_asn}'' (topic_name cfg v))"

lemma getTopic_name:
  assumes "sel_inv cfg t" "topic_args cfg v r p" "getTopic cfg cb create v r p a t = Inr (n, t')"
  shows "n = topic_name_for cfg v r p a"
proof (cases "topic t (getTopicKey t v r p a)")
  case (Some m)
  with assms(1) obtain v' r' p' a' where
    *: "topic_args cfg v' r' p'" "topic_flags_map t v' = has_text ''{peer_asn}'' (topic_name cfg v')"
    "getTopicKey t v r p a = getTopicKey t v' r' p' a'" "m = topic_name_for cfg v' r' p' a'" unfolding sel_inv_def by blast
  with getTopicKey_inject [OF assms(2) *(1,3,2)] Some assms(3) show ?thesis by (simp add: getTopic_def)
qed (use assms(3) in \<open>auto simp: getTopic_def initTopic_def Let_def split: if_splits\<close>)

lemma sel_inv_new: "sel_inv cfg new_topic_sel"
  by (simp add: sel_inv_def new_topic_sel_def)

lemma getTopicKey_flags: "topic_flags_map t v = topic_flags_map t' v \<Longrightarrow> getTopicKey t v r p a = getTopicKey t' v r p a"
  by (simp add: getTopicKey_def)

lemma sel_inv_get:
  assumes inv: "sel_inv cfg t" and args: "topic_args cfg v r p" and run: "getTopic cfg cb create v r p a t = Inr (n, t')"
  shows "sel_inv cfg t'"
proof (cases "topic t (getTopicKey t v r p a)")
  case None
  let ?f = "has_text ''{peer_asn}'' (topic_name cfg v)" and ?u = "t\<lparr>topic_flags_map := (topic_flags_map t)(v := has_text ''{peer_asn}'' (topic_name cfg v))\<rparr>"
  from None run have t': "t' = ?u\<lparr>topic := (topic t)(getTopicKey ?u v r p a \<mapsto> topic_name_for cfg v r p a)\<rparr>"
    by (auto simp: getTopic_def initTopic_def Let_def split: if_splits)
  have "\<exists>v r p a. topic_args cfg v r p \<and> topic_flags_map t' v = has_text ''{peer_asn}'' (topic_name cfg v) \<and>
        key = getTopicKey t' v r p a \<and> m = topic_name_for cfg v r p a" if "topic t' key = Some m" for key m
  proof (cases "key = getTopicKey ?u v r p a")
    case True
    with that args show ?thesis
      by (intro exI [of _ v] exI [of _ r] exI [of _ p] exI [of _ a]) (simp add: t' getTopicKey_def)
  next
    case False
    with that t' have "topic t key = Some m" by simp
    with inv obtain v' r' p' a' where *: "topic_args cfg v' r' p'" "topic_flags_map t v' = has_text ''{peer_asn}'' (topic_name cfg v')"
      "key = getTopicKey t v' r' p' a'" "m = topic_name_for cfg v' r' p' a'" unfolding sel_inv_def by blast
    then have "topic_flags_map t' v' = topic_flags_map t v'" by (simp add: t')
    with * show ?thesis using getTopicKey_flags [of t' v' t r' p' a'] by metis
  qed
  with inv show ?thesis by (auto simp: sel_inv_def t')
qed (use assms in \<open>auto simp: getTopic_def\<close>)

lemma sel_reach_inv: "sel_reach cfg create t \<Longrightarrow> sel_inv cfg t"
  by (induction rule: sel_reach.induct) (auto intro: sel_inv_new sel_inv_get)


definition sample_topics :: topic_config where
  "sample_topics = \<lparr>topic_names_map = [''peer'' \<mapsto> ''p.{router_group}.{peer_asn}'', ''unicast_prefix'' \<mapsto> ''u.{router_group}.{peer_group}''],
     match_router_group_by_name = [], match_router_group_by_ip = [], match_peer_group_by_name = [], match_peer_group_by_ip = [],
     match_peer_group_by_asn = []\<rparr>"


text \<open>
  Group names with an underscore share a key: a router in group \<open>x_y\<close> with a peer in group \<open>z\<close>, and a router in
  group \<open>x\<close> with a peer in group \<open>y_z\<close>. Whichever comes first decides the topic of both.
\<close>

theorem topic_groups_collide:
  assumes "v \<noteq> MSGBUS_TOPIC_VAR_COLLECTOR" "v \<noteq> MSGBUS_TOPIC_VAR_ROUTER"
    and "getTopic cfg cb create v (Some (x @ ''_'' @ y)) (Some z) a t = Inr (n, t')"
  shows "getTopic cfg cb' create' v (Some x) (Some (y @ ''_'' @ z)) a t' = Inr (n, t')"
proof -
  have key: "getTopicKey u v (Some x) (Some (y @ ''_'' @ z)) a = getTopicKey u v (Some (x @ ''_'' @ y)) (Some z) a" for u
    using assms(1,2) by (simp add: getTopicKey_def group_text_def)
  have "topic t' (getTopicKey t' v (Some (x @ ''_'' @ y)) (Some z) a) = Some n"
    using assms(3) by (auto simp: getTopic_def initTopic_def Let_def getTopicKey_def split: option.splits if_splits)
  then show ?thesis unfolding getTopic_def key by simp
qed

theorem topic_groups_collide_example:
  "\<exists>t. getTopic sample_topics True (\<lambda>_. True) ''unicast_prefix'' (Some ''a'') (Some ''b_c'') 0 t = Inr (''u.a_b.c'', t) \<and>
     topic_name_for sample_topics ''unicast_prefix'' (Some ''a'') (Some ''b_c'') 0 = ''u.a.b_c''"
proof -
  have "topic_name_for sample_topics ''unicast_prefix'' (Some ''a_b'') (Some ''c'') 0 = ''u.a_b.c''"
    "topic_name_for sample_topics ''unicast_prefix'' (Some ''a'') (Some ''b_c'') 0 = ''u.a.b_c''" by code_simp+
  moreover from this obtain t where "getTopic sample_topics True (\<lambda>_. True) ''unicast_prefix'' (Some (''a'' @ ''_'' @ ''b'')) (Some ''c'') 0 new_topic_sel =
    Inr (''u.a_b.c'', t)" by (auto simp: getTopic_def initTopic_def Let_def new_topic_sel_def)
  ultimately show ?thesis
    using topic_groups_collide [of "''unicast_prefix''" sample_topics True "\<lambda>_. True" "''a''" "''b''" "''c''" 0 new_topic_sel "''u.a_b.c''" t True "\<lambda>_. True"]
    by (auto simp: topic_vars)
qed

section \<open>Groups by address\<close>

lemma cut_word_take:
  assumes "1 \<le> unat b" "unat b \<le> 32"
  shows "cut_word (32 - b) w = Inr (take_bit (unat b) w)"
proof -
  have n: "unat (32 - b) = 32 - unat b" using assms by (simp add: unat_sub_if_size word_le_nat_alt)
  have "drop_bit (32 - unat b) (push_bit (32 - unat b) w) = take_bit (unat b) w"
    by (rule bit_word_eqI) (use assms in \<open>auto simp: bit_simps\<close>)
  then show ?thesis using assms by (simp add: cut_word_def n)
qed

text \<open>
  The group of an IPv4 address: every entry is compared with the address cut to the smallest length that was
  tried so far. The lowest bits of the word are kept, which are the first bytes of the address.
\<close>

fun first_match :: "nat \<Rightarrow> u32 \<Rightarrow> (string \<times> match_type_ip) list \<Rightarrow> string option" where
  "first_match m w [] = None"
| "first_match m w ((name, e) # es) =
     (let m = min m (unat (mi_bits e)) in if take_bit m w = mi_prefix e ! 0 then Some name else first_match m w es)"

definition group_entries :: "(string \<times> match_type_ip list) list \<Rightarrow> (string \<times> match_type_ip) list" where
  "group_entries gs = concat (map (\<lambda>(name, es). map (Pair name) es) gs)"

definition v4_entry :: "match_type_ip \<Rightarrow> bool" where
  "v4_entry e \<longleftrightarrow> mi_isIPv4 e \<and> 1 \<le> unat (mi_bits e) \<and> unat (mi_bits e) \<le> 32"

lemma match_ip_v4:
  assumes "v4_entry e" "ws = take_bit m w # xs"
  shows "match_ip True e ws = Inr (take_bit (min m (unat (mi_bits e))) w = mi_prefix e ! 0, take_bit (min m (unat (mi_bits e))) w # xs)"
  using assms by (simp add: v4_entry_def match_ip_def cut_word_take Let_def min.commute)

lemma first_match_append:
  "first_match m w (map (Pair name) es @ rest) =
   (case first_match m w (map (Pair name) es) of Some g \<Rightarrow> Some name
    | None \<Rightarrow> first_match (foldl (\<lambda>m e. min m (unat (mi_bits e))) m es) w rest)"
  by (induction es arbitrary: m) (auto simp: Let_def split: option.splits)

lemma match_list_v4_run:
  "list_all v4_entry es \<Longrightarrow> \<exists>k. match_list True es (take_bit m w # xs) =
     Inr (first_match m w (map (Pair name) es) \<noteq> None, take_bit k w # xs) \<and>
     (first_match m w (map (Pair name) es) = None \<longrightarrow> k = foldl (\<lambda>m e. min m (unat (mi_bits e))) m es)"
proof (induction es arbitrary: m)
  case (Cons e es)
  let ?m = "min m (unat (mi_bits e))"
  show ?case
  proof (cases "take_bit ?m w = mi_prefix e ! 0")
    case True
    with Cons.prems show ?thesis by (intro exI [of _ ?m]) (simp add: match_ip_v4 Let_def)
  next
    case False
    with Cons.IH [of ?m] Cons.prems show ?thesis by (simp add: match_ip_v4 Let_def)
  qed
qed auto

lemma group_by_ip_v4:
  "list_all (\<lambda>(name, es). list_all v4_entry es) gs \<Longrightarrow> group_by_ip True gs (take_bit m w # xs) = Inr (first_match m w (group_entries gs))"
proof (induction gs arbitrary: m)
  case (Cons g gs)
  obtain name es where g: "g = (name, es)" by (cases g)
  from Cons.prems g have ok: "list_all v4_entry es" by simp
  from match_list_v4_run [OF this, of m w xs name] obtain k where
    "match_list True es (take_bit m w # xs) = Inr (first_match m w (map (Pair name) es) \<noteq> None, take_bit k w # xs) \<and>
     (first_match m w (map (Pair name) es) = None \<longrightarrow> k = foldl (\<lambda>m e. min m (unat (mi_bits e))) m es)" by (elim exE)
  note k = this [THEN conjunct1] this [THEN conjunct2, rule_format]
  have e: "group_entries (g # gs) = map (Pair name) es @ group_entries gs" by (simp add: group_entries_def g)
  show ?case
  proof (cases "first_match m w (map (Pair name) es)")
    case None
    with k Cons show ?thesis unfolding e first_match_append by (simp add: g)
  next
    case (Some x)
    with k show ?thesis unfolding e first_match_append by (simp add: g)
  qed
qed (simp add: group_entries_def)

lemma take_bit_word_full: "take_bit 32 (w :: u32) = w"
  by (simp add: take_bit_length_eq [where 'a = 32, simplified])


text \<open>The address 10.1.2.3 with the group \<open>b\<close> for 10.1.0.0/16: it is found alone, but not behind a group for 11.0.0.0/8.\<close>

definition address_groups :: "(string \<times> match_type_ip list) list \<Rightarrow> topic_config" where
  "address_groups gs = sample_topics\<lparr>match_router_group_by_ip := gs\<rparr>"


text \<open>An IPv6 client against an IPv6 entry of more than 32 bits: the shift is undefined.\<close>

lemma ipv6_group_shift:
  assumes "\<not> mi_isIPv4 e" "unat (mi_bits e) > 32" "unat (mi_bits e) \<le> 128"
  shows "match_ip False e pfx = Inl Overflow"
proof -
  have "unat (32 - mi_bits e) = 256 + 32 - unat (mi_bits e)" using assms(2,3) by (simp add: unat_sub_if_size word_le_nat_alt word_size)
  then show ?thesis using assms by (simp add: match_ip_def cut_word_def)
qed

lemma partition_range:
  assumes "key \<noteq> []" "set key \<subseteq> set ''0123456789abcdef''" "0 < n"
  shows "\<exists>p. partitioner_cb key n = Inr p \<and> 0 \<le> p \<and> p < n"
proof -
  have "0 \<le> schar c" if "c \<in> set key" for c using that assms(2) by (auto simp: schar_def)
  from this [of "hd key"] this [of "last key"] assms(1,3) show ?thesis by (simp add: partitioner_cb_def Let_def)
qed

end
