(* ===== verification/KafkaBus.thy ===== *)
theory KafkaBus
  imports KafkaTopic
begin

text \<open>
  \<open>kafka/MsgBusImpl_kafka.cpp\<close>, the connection: the settings of the producer, \<open>connect\<close>, \<open>disconnect\<close>, \<open>produce\<close>,
  \<open>send_bmp_raw\<close>, and the event callback. librdkafka and the operating system are outside the sources:
  \<open>'w kafka_env\<close> has the calls that the bus makes on a state \<open>'w\<close> of theirs. A poll gives the events that it hands
  to the callback. A size is a natural number, which stands for a \<open>size_t\<close> that does not wrap.
\<close>

section \<open>The client library and the system\<close>

datatype kafka_error = ERR__ALL_BROKERS_DOWN | ERR_OTHER int

datatype kafka_event = EVENT_ERROR kafka_error | EVENT_STATS | EVENT_LOG int | EVENT_THROTTLE

record 'w kafka_env =
  conf_set :: "string \<Rightarrow> string \<Rightarrow> 'w \<Rightarrow> bool \<times> 'w"          \<comment> \<open>\<open>CONF_OK\<close>?\<close>
  conf_set_event_cb :: "'w \<Rightarrow> bool \<times> 'w"
  producer_create :: "'w \<Rightarrow> bool \<times> 'w"                       \<comment> \<open>not \<open>NULL\<close>?\<close>
  producer_poll :: "nat \<Rightarrow> 'w \<Rightarrow> kafka_event list \<times> 'w"
  producer_outq_len :: "'w \<Rightarrow> int"
  producer_produce :: "string \<Rightarrow> string \<Rightarrow> string \<Rightarrow> 'w \<Rightarrow> bool \<times> 'w"   \<comment> \<open>topic, key, payload; \<open>ERR_NO_ERROR\<close>?\<close>
  topic_conf_set_cb :: "'w \<Rightarrow> bool"
  topic_create :: "'w \<Rightarrow> string \<Rightarrow> bool"
  getaddrinfo :: "string \<Rightarrow> 'w \<Rightarrow> bytes option"
  getnameinfo :: "bytes \<Rightarrow> 'w \<Rightarrow> string option"
  gettimeofday :: "'w \<Rightarrow> nat \<times> nat"
  regex_match :: "string \<Rightarrow> string \<Rightarrow> bool"
  inet_pton :: "bool \<Rightarrow> string \<Rightarrow> bytes option"
  inet_ntop6 :: "bytes \<Rightarrow> string"

record kafka_config = topic_config +
  kafka_brokers :: string
  compression :: string
  tx_max_bytes :: int
  rx_max_bytes :: int
  session_timeout :: int
  socket_timeout :: int
  q_buf_max_msgs :: int
  q_buf_max_kbytes :: int
  q_buf_max_ms :: int
  msg_send_max_retry :: int
  retry_backoff_ms :: int

definition topic_cfg :: "kafka_config \<Rightarrow> topic_config" where
  "topic_cfg cfg = topic_config.truncate cfg"

section \<open>The bus\<close>

record 'w msgBus_kafka =
  collector_hash :: string
  router_seq :: u64
  collector_seq :: u64
  peer_seq :: u64
  base_attr_seq :: u64
  unicast_prefix_seq :: u64
  bmp_stat_seq :: u64
  ls_node_seq :: u64
  ls_link_seq :: u64
  ls_prefix_seq :: u64
  l3vpn_seq :: u64
  evpn_seq :: u64
  k_ribSeq :: u64
  producer :: bool                          \<comment> \<open>not \<open>NULL\<close>\<close>
  isConnected :: bool
  peer_list :: "string \<rightharpoonup> string"
  k_router_ip :: string
  k_router_hash :: bytes
  router_group_name :: string
  topicSel :: "topic_sel option"            \<comment> \<open>\<open>None\<close>: \<open>NULL\<close>\<close>
  k_debug :: bool
  world :: 'w

definition event_cb :: "bool \<Rightarrow> kafka_event \<Rightarrow> bool" where
  "event_cb is_connected event =
     (case event of
        EVENT_ERROR err \<Rightarrow> (case err of ERR__ALL_BROKERS_DOWN \<Rightarrow> False | ERR_OTHER _ \<Rightarrow> is_connected)
      | _ \<Rightarrow> is_connected)"

definition poll :: "'w kafka_env \<Rightarrow> nat \<Rightarrow> 'w msgBus_kafka \<Rightarrow> 'w msgBus_kafka result" where
  "poll env ms k =
     (if \<not> producer k then Inl NullDeref
      else case producer_poll env ms (world k) of
        (events, w) \<Rightarrow> Inr (k\<lparr>isConnected := foldl event_cb (isConnected k) events, world := w\<rparr>))"

text \<open>The loop of \<open>disconnect\<close>, with the number of rounds that \<open>i < 8\<close> still allows.\<close>

fun drain_outq :: "'w kafka_env \<Rightarrow> nat \<Rightarrow> 'w msgBus_kafka \<Rightarrow> 'w msgBus_kafka result" where
  "drain_outq env 0 k = (if producer k then Inr k else Inl NullDeref)"
| "drain_outq env (Suc n) k =
     (if \<not> producer k then Inl NullDeref
      else if producer_outq_len env (world k) > 0 then andThen (poll env 500 k) (drain_outq env n)
      else Inr k)"

definition disconnect :: "'w kafka_env \<Rightarrow> 'w msgBus_kafka \<Rightarrow> 'w msgBus_kafka result" where
  "disconnect env k =
     andThen (if isConnected k then drain_outq env 8 k else Inr k) (\<lambda>k.
       Inr (k\<lparr>topicSel := None, producer := False, isConnected := False\<rparr>))"

text \<open>
  The settings in the order in which they are made. A setting that librdkafka refuses is only logged
  (\<open>None\<close>) or ends in an exception.
\<close>

definition kafka_settings :: "kafka_config \<Rightarrow> (string \<times> string \<times> string option) list" where
  "kafka_settings cfg =
     [(''log.connection.close'', ''false'', None),
      (''api.version.request'', ''true'', None),
      (''batch.num.messages'', ''100'', Some ''ERROR: Failed to configure kafka batch.num.messages''),
      (''queue.buffering.max.ms'', dec_of_int (q_buf_max_ms cfg), Some ''ERROR: Failed to configure kafka queue.buffer.max.ms''),
      (''compression.codec'', compression cfg, Some ''ERROR: Failed to configure kafka compression''),
      (''metadata.broker.list'', kafka_brokers cfg, Some ''ERROR: Failed to configure kafka broker list''),
      (''message.max.bytes'', dec_of_int (tx_max_bytes cfg), Some ''ERROR: Failed to configure transmit max message size''),
      (''receive.message.max.bytes'', dec_of_int (rx_max_bytes cfg), Some ''ERROR: Failed to configure receive max message size''),
      (''session.timeout.ms'', dec_of_int (session_timeout cfg), Some ''ERROR: Failed to configure session timeout ''),
      (''socket.timeout.ms'', dec_of_int (socket_timeout cfg), Some ''ERROR: Failed to configure socket timeout ''),
      (''queue.buffering.max.messages'', dec_of_int (q_buf_max_msgs cfg), Some ''ERROR: Failed to configure max messages in buffer ''),
      (''queue.buffering.max.kbytes'', dec_of_int (q_buf_max_kbytes cfg), Some ''ERROR: Failed to configure max kbytes in buffer ''),
      (''message.send.max.retries'', dec_of_int (msg_send_max_retry cfg),
         Some ''ERROR: Failed to configure max retries for sending failed message''),
      (''retry.backoff.ms'', dec_of_int (retry_backoff_ms cfg),
         Some ''ERROR: Failed to configure backoff time before resending failed messages '')]"

fun configure :: "'w kafka_env \<Rightarrow> (string \<times> string \<times> string option) list \<Rightarrow> 'w msgBus_kafka \<Rightarrow> 'w msgBus_kafka result" where
  "configure env [] k = Inr k"
| "configure env ((key, value, err) # ss) k =
     (case conf_set env key value (world k) of (ok, w) \<Rightarrow>
        (case err of
           Some msg \<Rightarrow> if ok then configure env ss (k\<lparr>world := w\<rparr>) else Inl (Throw msg)
         | None \<Rightarrow> configure env ss (k\<lparr>world := w\<rparr>)))"

definition connect :: "'w kafka_env \<Rightarrow> kafka_config \<Rightarrow> 'w msgBus_kafka \<Rightarrow> 'w msgBus_kafka result" where
  "connect env cfg k =
     andThen (disconnect env k) (\<lambda>k.
     andThen (configure env (kafka_settings cfg) k) (\<lambda>k.
       case conf_set_event_cb env (world k) of (ok, w) \<Rightarrow>
         if \<not> ok then Inl (Throw ''ERROR: Failed to configure kafka event callback'')
         else case producer_create env w of (ok, w) \<Rightarrow>
           if \<not> ok then Inl (Throw ''ERROR: Failed to create producer'')
           else andThen (poll env 1000 (k\<lparr>producer := True, isConnected := True, world := w\<rparr>)) (\<lambda>k.
             if \<not> isConnected k then Inr k
             else poll env 100 (k\<lparr>topicSel := Some new_topic_sel\<rparr>))))"

definition MSGBUS_WORKING_BUF_SIZE :: nat where "MSGBUS_WORKING_BUF_SIZE = 1800000"

definition MSGBUS_API_VERSION :: string where "MSGBUS_API_VERSION = ''1.7''"

text \<open>
  The first \<open>n\<close> bytes of an array of \<open>cap\<close> characters that holds the text \<open>s\<close>. Behind the text the array is
  zero: the callers of \<open>produce\<close> ask for more than the text only when \<open>snprintf\<close> has cut it, where the terminator is the
  last byte of the array, or when the array was cleared before.
\<close>

definition array_read :: "nat \<Rightarrow> string \<Rightarrow> nat \<Rightarrow> string result" where
  "array_read cap s n = (if n \<le> cap then Inr (take n s @ replicate (n - length s) (CHR 0x00)) else Inl OutOfBounds)"

definition memcpy_to :: "nat \<Rightarrow> nat \<Rightarrow> string \<Rightarrow> unit result" where
  "memcpy_to cap off s = (if off + length s \<le> cap then Inr () else Inl BufferOverflow)"

text \<open>The characters of an array of bytes.\<close>

definition byte_text :: "bytes \<Rightarrow> string" where
  "byte_text bs = map (\<lambda>b. char_of (unat b)) bs"

text \<open>\<open>peer_list[h]\<close>: a key that is not in the map is entered with the empty text.\<close>

definition peer_entry :: "string \<Rightarrow> 'w msgBus_kafka \<Rightarrow> string \<times> 'w msgBus_kafka" where
  "peer_entry h k = (case peer_list k h of Some g \<Rightarrow> (g, k) | None \<Rightarrow> ('''', k\<lparr>peer_list := (peer_list k)(h \<mapsto> '''')\<rparr>))"

text \<open>
  The loops that reconnect, with the number of attempts they are given: \<open>produce\<close> also waits for the selector,
  \<open>send_bmp_raw\<close> only for the connection.
\<close>

fun reconnect :: "'w kafka_env \<Rightarrow> kafka_config \<Rightarrow> bool \<Rightarrow> nat \<Rightarrow> 'w msgBus_kafka \<Rightarrow> 'w msgBus_kafka result" where
  "reconnect env cfg need_sel n k =
     (if isConnected k \<and> (need_sel \<longrightarrow> topicSel k \<noteq> None) then Inr k
      else case n of 0 \<Rightarrow> Inl Hang | Suc n \<Rightarrow> andThen (connect env cfg k) (reconnect env cfg need_sel n))"

declare reconnect.simps [simp del]

text \<open>What both methods do once the connection stands: the topic, the message, and the poll.\<close>

definition hand_over :: "'w kafka_env \<Rightarrow> kafka_config \<Rightarrow> string \<Rightarrow> string \<Rightarrow> string option \<Rightarrow> u32 \<Rightarrow> string \<Rightarrow> topic_sel \<Rightarrow>
    'w msgBus_kafka \<Rightarrow> 'w msgBus_kafka result" where
  "hand_over env cfg topic_var key p_group peer_asn payload sel k =
     andThen (getTopic (topic_cfg cfg) (topic_conf_set_cb env (world k)) (topic_create env (world k)) topic_var
        (Some (router_group_name k)) p_group peer_asn sel) (\<lambda>(name, sel).
     if \<not> producer k then Inl NullDeref
     else case producer_produce env name key payload (world k) of (ok, w) \<Rightarrow>
       andThen (if ok then Inr (k\<lparr>topicSel := Some sel, world := w\<rparr>) else poll env 100 (k\<lparr>topicSel := Some sel, world := w\<rparr>))
         (poll env 0))"

definition produce_header :: "string \<Rightarrow> string \<Rightarrow> nat \<Rightarrow> nat \<Rightarrow> string" where
  "produce_header c_hash topic_var msg_size rows =
     ''V: '' @ MSGBUS_API_VERSION @ ''\<newline>C_HASH_ID: '' @ c_str c_hash @ ''\<newline>T: '' @ topic_var @ ''\<newline>L: '' @ dec_of_nat msg_size @
     ''\<newline>R: '' @ dec_of_nat rows @ ''\<newline>\<newline>''"

text \<open>
  \<open>produce\<close>: the message is the first \<open>msg_size\<close> bytes of an array of \<open>cap\<close> characters. The header is formatted
  into 256 characters, and both are copied into the producer buffer.
\<close>

definition produce :: "'w kafka_env \<Rightarrow> kafka_config \<Rightarrow> nat \<Rightarrow> string \<Rightarrow> nat \<Rightarrow> string \<Rightarrow> nat \<Rightarrow> nat \<Rightarrow> string \<Rightarrow> string option \<Rightarrow> u32 \<Rightarrow>
    'w msgBus_kafka \<Rightarrow> 'w msgBus_kafka result" where
  "produce env cfg fuel topic_var cap msg msg_size rows key p_group peer_asn k =
     andThen (reconnect env cfg True fuel k) (\<lambda>k.
       case topicSel k of
         None \<Rightarrow> Inl NullDeref
       | Some sel \<Rightarrow>
           if \<not> topicEnabled (topic_cfg cfg) topic_var then Inr k
           else
             let headers = produce_header (collector_hash k) topic_var msg_size rows; len = length headers
             in andThen (array_read 256 (snprintf 256 headers) len) (\<lambda>headers.
                andThen (memcpy_to MSGBUS_WORKING_BUF_SIZE 0 headers) (\<lambda>_.
                andThen (array_read cap msg msg_size) (\<lambda>msg.
                andThen (memcpy_to MSGBUS_WORKING_BUF_SIZE len msg) (\<lambda>_.
                  hand_over env cfg topic_var key p_group peer_asn (headers @ msg) sel k)))))"

definition raw_header :: "string \<Rightarrow> string \<Rightarrow> string \<Rightarrow> nat \<Rightarrow> string" where
  "raw_header c_hash r_hash r_ip data_len =
     ''V: '' @ MSGBUS_API_VERSION @ ''\<newline>C_HASH_ID: '' @ c_str c_hash @ ''\<newline>R_HASH: '' @ r_hash @ ''\<newline>R_IP: '' @ c_str r_ip @
     ''\<newline>L: '' @ dec_of_nat data_len @ ''\<newline>\<newline>''"

definition kafka_send_bmp_raw :: "'w kafka_env \<Rightarrow> kafka_config \<Rightarrow> nat \<Rightarrow> bytes \<Rightarrow> obj_bgp_peer \<Rightarrow> bytes \<Rightarrow>
    'w msgBus_kafka \<Rightarrow> 'w msgBus_kafka result" where
  "kafka_send_bmp_raw env cfg fuel r_hash peer data k =
     andThen (hash_toStr (peer_hash peer)) (\<lambda>p_hash_str.
     andThen (hash_toStr r_hash) (\<lambda>r_hash_str.
       if length data = 0 then Inr k
       else andThen (reconnect env cfg False fuel k) (\<lambda>k.
         case topicSel k of
           None \<Rightarrow> Inl NullDeref
         | Some sel \<Rightarrow>
             if \<not> topicEnabled (topic_cfg cfg) MSGBUS_TOPIC_VAR_BMP_RAW then Inr k
             else
               let headers = raw_header (collector_hash k) r_hash_str (k_router_ip k) (length data); len = length headers
               in andThen (array_read 256 (snprintf 256 headers) len) (\<lambda>headers.
                  andThen (memcpy_to MSGBUS_WORKING_BUF_SIZE 0 headers) (\<lambda>_.
                  andThen (memcpy_to MSGBUS_WORKING_BUF_SIZE len (byte_text data)) (\<lambda>_.
                    case peer_entry p_hash_str k of (g, k) \<Rightarrow>
                      hand_over env cfg MSGBUS_TOPIC_VAR_BMP_RAW r_hash_str (Some g) (peer_as peer) (headers @ byte_text data) sel k))))))"

text \<open>\<open>resolveIp\<close> leaves the host name, which is empty at all its calls, when one of the two lookups fails.\<close>

definition resolveIp :: "'w kafka_env \<Rightarrow> string \<Rightarrow> 'w \<Rightarrow> string" where
  "resolveIp env name w =
     (case getaddrinfo env name w of
        None \<Rightarrow> ''''
      | Some ai \<Rightarrow> (case getnameinfo env ai w of Some host \<Rightarrow> c_str host | None \<Rightarrow> ''''))"

definition disableDebug :: "'w kafka_env \<Rightarrow> 'w msgBus_kafka \<Rightarrow> 'w msgBus_kafka" where
  "disableDebug env k = (case conf_set env ''debug'' '''' (world k) of (_, w) \<Rightarrow> k\<lparr>world := w, k_debug := False\<rparr>)"

definition enableDebug :: "'w kafka_env \<Rightarrow> kafka_config \<Rightarrow> 'w msgBus_kafka \<Rightarrow> 'w msgBus_kafka result" where
  "enableDebug env cfg k =
     andThen (disconnect env k) (\<lambda>k.
       case conf_set env ''debug'' ''all'' (world k) of (_, w) \<Rightarrow>
         andThen (connect env cfg (k\<lparr>world := w\<rparr>)) (\<lambda>k. Inr (k\<lparr>k_debug := True\<rparr>)))"

text \<open>The constructor. It does not initialise \<open>ribSeq\<close>, the member of the interface.\<close>

definition new_msgBus_kafka :: "'w kafka_env \<Rightarrow> kafka_config \<Rightarrow> u64 \<Rightarrow> bytes \<Rightarrow> 'w \<Rightarrow> 'w msgBus_kafka result" where
  "new_msgBus_kafka env cfg seq0 c_hash_id w =
     andThen (hash_toStr c_hash_id) (\<lambda>c_hash.
       connect env cfg (disableDebug env \<lparr>collector_hash = c_hash, router_seq = 0, collector_seq = 0, peer_seq = 0, base_attr_seq = 0,
         unicast_prefix_seq = 0, bmp_stat_seq = 0, ls_node_seq = 0, ls_link_seq = 0, ls_prefix_seq = 0, l3vpn_seq = 0, evpn_seq = 0,
         k_ribSeq = seq0, producer = False, isConnected = False, peer_list = (\<lambda>_. None), k_router_ip = '''',
         k_router_hash = replicate 16 0, router_group_name = '''', topicSel = None, k_debug = False, world = w\<rparr>))"

section \<open>The connection invariant\<close>

text \<open>
  A connected bus has a producer and a topic selector. \<open>avoids e m P\<close>: the step \<open>m\<close> does not end in the fault \<open>e\<close>, and
  the value that it returns satisfies \<open>P\<close>.
\<close>

definition kafka_inv :: "'w msgBus_kafka \<Rightarrow> bool" where
  "kafka_inv k \<longleftrightarrow> (isConnected k \<longrightarrow> producer k \<and> topicSel k \<noteq> None)"

definition avoids :: "fault \<Rightarrow> 'a result \<Rightarrow> ('a \<Rightarrow> bool) \<Rightarrow> bool" where
  "avoids e m P = (case m of Inl f \<Rightarrow> f \<noteq> e | Inr x \<Rightarrow> P x)"

named_theorems avoid \<open>rules for steps that avoid a fault\<close>

lemma avoids_simps [simp]: "avoids e (Inr x) P = P x" "avoids e (Inl f) P \<longleftrightarrow> f \<noteq> e"
  by (simp_all add: avoids_def)

lemma avoids_andThen [avoid]: "avoids e m (\<lambda>x. avoids e (f x) P) \<Longrightarrow> avoids e (andThen m f) P"
  by (simp add: avoids_def split: sum.splits)

lemma avoids_Inr [avoid]: "P x \<Longrightarrow> avoids e (Inr x) P"
  by simp

lemma avoids_Let [avoid]: "(\<And>x. x = t \<Longrightarrow> avoids e (f x) P) \<Longrightarrow> avoids e (Let t f) P"
  by simp

lemma avoids_mono: "avoids e m P \<Longrightarrow> (\<And>x. P x \<Longrightarrow> Q x) \<Longrightarrow> avoids e m Q"
  by (simp add: avoids_def split: sum.splits)

lemma avoids_if [avoid]: "(b \<Longrightarrow> avoids e m P) \<Longrightarrow> (\<not> b \<Longrightarrow> avoids e n P) \<Longrightarrow> avoids e (if b then m else n) P"
  by simp

lemma avoids_ne: "avoids e m P \<Longrightarrow> m \<noteq> Inl e"
  by (auto simp: avoids_def)

lemma avoids_ret: "avoids e m P \<Longrightarrow> m = Inr x \<Longrightarrow> P x"
  by (simp add: avoids_def)

lemma avoids_read_fault:
  assumes "e \<noteq> OutOfBounds" "e \<noteq> Uninit"
  shows "(\<And>s. P s) \<Longrightarrow> avoids e (read_cstr n f) P" "(\<And>v. Q v) \<Longrightarrow> avoids e (load g) Q"
    "(\<And>s. P s) \<Longrightarrow> avoids e (hash_toStr h) P" "(\<And>s. P s) \<Longrightarrow> avoids e (array_read cap s' m) P"
    "(\<And>b. S b) \<Longrightarrow> avoids e (c_bytes bs) S"
  using assms by (auto simp: avoids_def read_cstr_def load_def hash_toStr_def rd_def andThen_def array_read_def c_bytes_def split: option.splits)

lemmas avoids_read [avoid] = avoids_read_fault [of NullDeref, simplified] avoids_read_fault [of BufferOverflow, simplified]

lemma avoids_memcpy_to [avoid]: "(\<And>u. R u) \<Longrightarrow> avoids NullDeref (memcpy_to cap off s) R"
  by (simp add: memcpy_to_def)

lemma event_cb_False [simp]: "foldl event_cb False es = False"
  by (induction es) (auto simp: event_cb_def split: kafka_event.splits kafka_error.splits)

lemma avoids_poll [avoid]:
  assumes "producer k" and P: "\<And>c w. (c \<Longrightarrow> isConnected k) \<Longrightarrow> P (k\<lparr>isConnected := c, world := w\<rparr>)"
  shows "avoids e (poll env ms k) P"
proof -
  obtain es w where "producer_poll env ms (world k) = (es, w)" by fastforce
  moreover have "P (k\<lparr>isConnected := foldl event_cb (isConnected k) es, world := w\<rparr>)"
    by (rule P) (cases "isConnected k", simp_all)
  ultimately show ?thesis using assms(1) by (simp add: poll_def)
qed

lemma avoids_drain:
  assumes "producer k" "\<And>c w. P (k\<lparr>isConnected := c, world := w\<rparr>)"
  shows "avoids e (drain_outq env n k) P"
  using assms
proof (induction n arbitrary: k)
  case 0
  from 0(2) [of "world k" "isConnected k"] 0(1) show ?case by simp
next
  case (Suc n)
  have "P k" using Suc.prems(2) [of "world k" "isConnected k"] by simp
  moreover have "avoids e (andThen (poll env 500 k) (drain_outq env n)) P"
  proof (intro avoid)
    fix c :: bool and w
    show "avoids e (drain_outq env n (k\<lparr>isConnected := c, world := w\<rparr>)) P"
      by (rule Suc.IH) (use Suc.prems in simp_all)
  qed (rule Suc.prems)
  ultimately show ?case using Suc.prems(1) by simp
qed

lemma avoids_disconnect [avoid]:
  assumes "kafka_inv k" "\<And>w. P (k\<lparr>world := w, topicSel := None, producer := False, isConnected := False\<rparr>)"
  shows "avoids e (disconnect env k) P"
proof -
  have "P (k\<lparr>topicSel := None, producer := False, isConnected := False\<rparr>)" using assms(2) [of "world k"] by simp
  then show ?thesis unfolding disconnect_def
    by (intro avoid) (use assms in \<open>auto simp: kafka_inv_def intro!: avoids_drain\<close>)
qed

lemma avoids_configure [avoid]:
  assumes "\<And>w. P (k\<lparr>world := w\<rparr>)"
  shows "avoids NullDeref (configure env ss k) P"
  using assms
proof (induction env ss k rule: configure.induct)
  case (1 env k)
  from 1 [of "world k"] show ?case by simp
next
  case (2 env key val err ss k)
  obtain ok w where "conf_set env key val (world k) = (ok, w)" by fastforce
  with 2 show ?case by (cases err) auto
qed

lemma avoids_case_prod [avoid]: "(\<And>x y. p = (x, y) \<Longrightarrow> avoids e (f x y) P) \<Longrightarrow> avoids e (case p of (x, y) \<Rightarrow> f x y) P"
  by (cases p) simp

lemma avoids_case_option [avoid]:
  "(p = None \<Longrightarrow> avoids e m P) \<Longrightarrow> (\<And>x. p = Some x \<Longrightarrow> avoids e (f x) P) \<Longrightarrow> avoids e (case p of None \<Rightarrow> m | Some x \<Rightarrow> f x) P"
  by (cases p) simp_all

text \<open>The members that the connection does not change; it changes the selector, the producer, the flag and the world.\<close>

definition bus_data :: "'w msgBus_kafka \<Rightarrow> string \<times> u64 list \<times> (string \<rightharpoonup> string) \<times> string \<times> bytes \<times> string \<times> bool" where
  "bus_data k = (collector_hash k, [router_seq k, collector_seq k, peer_seq k, base_attr_seq k, unicast_prefix_seq k, bmp_stat_seq k,
     ls_node_seq k, ls_link_seq k, ls_prefix_seq k, l3vpn_seq k, evpn_seq k, k_ribSeq k], peer_list k, k_router_ip k, k_router_hash k,
     router_group_name k, k_debug k)"

definition link_step :: "'w msgBus_kafka \<Rightarrow> 'w msgBus_kafka \<Rightarrow> bool" where
  "link_step k k' \<longleftrightarrow> kafka_inv k' \<and> bus_data k' = bus_data k"

lemma bus_data_link [simp]:
  "bus_data (k\<lparr>topicSel := t\<rparr>) = bus_data k" "bus_data (k\<lparr>producer := b\<rparr>) = bus_data k"
  "bus_data (k\<lparr>isConnected := b\<rparr>) = bus_data k" "bus_data (k\<lparr>world := w\<rparr>) = bus_data k"
  by (simp_all add: bus_data_def)

lemma link_step_refl: "kafka_inv k \<Longrightarrow> link_step k k"
  by (simp add: link_step_def)

lemma link_step_trans: "link_step k k' \<Longrightarrow> link_step k' k'' \<Longrightarrow> link_step k k''"
  by (simp add: link_step_def)

lemma connect_link: "kafka_inv k \<Longrightarrow> avoids NullDeref (connect env cfg k) (link_step k)"
  unfolding connect_def
  by (intro avoid) (auto simp: link_step_def kafka_inv_def intro!: avoid)

lemma reconnect_link:
  "kafka_inv k \<Longrightarrow> avoids NullDeref (reconnect env cfg s n k) (\<lambda>k'. link_step k k' \<and> isConnected k')"
proof (induction n arbitrary: k)
  case 0
  then show ?case by (simp add: reconnect.simps link_step_def)
next
  case (Suc n)
  have "avoids NullDeref (connect env cfg k) (\<lambda>k'. avoids NullDeref (reconnect env cfg s n k') (\<lambda>k'. link_step k k' \<and> isConnected k'))"
    by (rule avoids_mono [OF connect_link [OF Suc.prems]])
      (rule avoids_mono [OF Suc.IH], auto simp: link_step_def)
  then show ?case using Suc.prems
    by (subst reconnect.simps) (auto simp: link_step_def intro: avoids_andThen)
qed

lemma avoids_getTopic [avoid]: "(\<And>x. P x) \<Longrightarrow> avoids NullDeref (getTopic cfg cb create v r g a sel) P"
  by (auto simp: avoids_def getTopic_def initTopic_def Let_def split: option.splits)

lemma hand_over_link:
  assumes "kafka_inv k" "isConnected k"
  shows "avoids NullDeref (hand_over env cfg v key g a payload sel k) (link_step k)"
  unfolding hand_over_def
  by (intro avoid) (use assms in \<open>auto simp: link_step_def kafka_inv_def intro!: avoid\<close>)

lemma produce_link:
  assumes "kafka_inv k"
  shows "avoids NullDeref (produce env cfg fuel v cap msg n rows key g a k) (link_step k)"
proof -
  have "avoids NullDeref (hand_over env cfg v key g a payload sel k') (link_step k)" if "link_step k k'" "isConnected k'" for payload sel k'
    using that by (intro avoids_mono [OF hand_over_link]) (auto simp: link_step_def)
  then show ?thesis unfolding produce_def
    by (intro avoids_andThen, intro avoids_mono [OF reconnect_link [OF assms]])
      (auto simp: Let_def link_step_def kafka_inv_def intro!: avoid)
qed

lemma send_bmp_raw_inv:
  assumes "kafka_inv k"
  shows "avoids NullDeref (kafka_send_bmp_raw env cfg fuel h peer d k) kafka_inv"
proof -
  have "avoids NullDeref (hand_over env cfg v key g a payload sel k') kafka_inv" if "kafka_inv k'" "isConnected k'" for v key g a payload sel k'
    using that by (intro avoids_mono [OF hand_over_link]) (auto simp: link_step_def)
  then show ?thesis unfolding kafka_send_bmp_raw_def
    by (intro avoid) (use assms in \<open>auto simp: Let_def link_step_def kafka_inv_def peer_entry_def
      intro!: avoid avoids_mono [OF reconnect_link [OF assms]] split: option.split\<close>)
qed

section \<open>Plain texts\<close>

text \<open>Texts without the characters that end a C string, a column or a row.\<close>

definition plain :: "string \<Rightarrow> bool" where
  "plain s \<longleftrightarrow> CHR 0x00 \<notin> set s \<and> CHR 0x09 \<notin> set s \<and> CHR 0x0A \<notin> set s"

lemma plain_simps [simp]:
  "plain []" "plain (c # s) \<longleftrightarrow> c \<noteq> CHR 0x00 \<and> c \<noteq> CHR 0x09 \<and> c \<noteq> CHR 0x0A \<and> plain s" "plain (s @ t) \<longleftrightarrow> plain s \<and> plain t"
  by (auto simp: plain_def)

lemma plain_dec [simp]: "plain (dec_of_nat n)"
  using dec_of_nat_digits [of "CHR 0x00" n] dec_of_nat_digits [of "CHR 0x09" n] dec_of_nat_digits [of "CHR 0x0A" n]
  by (auto simp: plain_def)

lemma plain_hex [simp]: "plain (concat (map hex2 bs))"
proof -
  have "list_all (\<lambda>d. plain [digit_char d]) [0..<16]" by code_simp
  then have "plain [digit_char d]" if "d < 16" for d using that by (simp add: list_all_iff)
  then have "plain (hex2 b)" for b
    using unsigned_less [of b] by (simp add: hex2_def less_mult_imp_div_less)
  then show ?thesis by (induction bs) simp_all
qed

lemma c_str_plain [simp]: "plain s \<Longrightarrow> c_str s = s"
  by (simp add: plain_def c_str_text)

lemma hash_toStr_run: "length h = 16 \<Longrightarrow> hash_toStr h = Inr (concat (map hex2 h))"
  by (simp add: hash_toStr_def rd_def)

lemma length_hex [simp]: "length (concat (map hex2 bs)) = 2 * length bs"
  by (induction bs) (simp_all add: hex2_def)

section \<open>Headers\<close>

text \<open>The texts of a header stay within its buffer, for every variable and all sizes below \<open>2 ^ 64\<close>.\<close>

lemma length_dec_64: "n < 2 ^ 64 \<Longrightarrow> length (dec_of_nat n) \<le> 20"
  using length_dec_of_nat [of n 19] by simp

lemma topic_var_short: "v \<in> set topic_var_list \<Longrightarrow> length v \<le> 14 \<and> plain v"
  by (auto simp: topic_var_list_def topic_vars)

lemma produce_header_short:
  assumes "v \<in> set topic_var_list" "plain c_hash" "length c_hash \<le> 32" "n < 2 ^ 64" "rows < 2 ^ 64"
  shows "length (produce_header c_hash v n rows) < 150" "CHR 0x00 \<notin> set (produce_header c_hash v n rows)"
proof -
  from assms(2) have "c_str c_hash = c_hash" by simp
  then show "length (produce_header c_hash v n rows) < 150"
    using topic_var_short [OF assms(1)] length_dec_64 [OF assms(4)] length_dec_64 [OF assms(5)] assms(3)
    by (simp add: produce_header_def MSGBUS_API_VERSION_def)
  show "CHR 0x00 \<notin> set (produce_header c_hash v n rows)"
    using \<open>c_str c_hash = c_hash\<close> assms(2) topic_var_short [OF assms(1)]
    by (simp add: produce_header_def MSGBUS_API_VERSION_def plain_def)
qed

lemma array_read_fits: "n = length s \<Longrightarrow> n \<le> cap \<Longrightarrow> array_read cap s n = Inr s"
  by (simp add: array_read_def)

lemma reconnect_connected: "kafka_inv k \<Longrightarrow> isConnected k \<Longrightarrow> reconnect env cfg s n k = Inr k"
  by (simp add: reconnect.simps kafka_inv_def)

text \<open>On a connected bus a message that fits is handed over behind its header.\<close>

lemma produce_run:
  assumes "kafka_inv k" "isConnected k" "topicSel k = Some sel" "topicEnabled (topic_cfg cfg) v" "v \<in> set topic_var_list"
    "plain (collector_hash k)" "length (collector_hash k) \<le> 32" "length msg \<le> cap" "length msg + 150 \<le> MSGBUS_WORKING_BUF_SIZE" "rows < 2 ^ 64"
  shows "produce env cfg fuel v cap msg (length msg) rows key g a k =
    hand_over env cfg v key g a (produce_header (collector_hash k) v (length msg) rows @ msg) sel k"
proof -
  have n: "length msg < 2 ^ 64" using assms(9) by (simp add: MSGBUS_WORKING_BUF_SIZE_def)
  note h = produce_header_short [OF assms(5,6,7) n assms(10)]
  show ?thesis
    using h assms by (simp add: produce_def reconnect_connected snprintf_text array_read_fits memcpy_to_def Let_def MSGBUS_WORKING_BUF_SIZE_def)
qed

section \<open>The messages that librdkafka takes\<close>

definition log_is :: "('w \<Rightarrow> 'l) \<Rightarrow> 'l \<Rightarrow> 'w msgBus_kafka result \<Rightarrow> bool" where
  "log_is log l m = ret m (\<lambda>k. log (world k) = l)"

lemma log_is_simps [simp]: "log_is log l (Inr k) \<longleftrightarrow> log (world k) = l" "log_is log l (Inl e)"
  by (simp_all add: log_is_def wp)

lemma log_is_andThen: "log_is log l m \<Longrightarrow> (\<And>k. log (world k) = l \<Longrightarrow> log_is log l' (f k)) \<Longrightarrow> log_is log l' (andThen m f)"
  by (cases m) (auto simp: log_is_def wp)

lemma log_isD: "log_is log l m \<Longrightarrow> m = Inr k \<Longrightarrow> log (world k) = l"
  by (simp add: log_is_def wp)

text \<open>
  What the documentation of librdkafka says of the calls: a message that \<open>produce\<close> takes is queued behind the earlier
  ones, a refused one is not, and no other call queues a message. \<open>log\<close> lists the topic, the key and the payload of
  the messages that were taken.
\<close>

locale kafka_log =
  fixes env :: "'w kafka_env" and log :: "'w \<Rightarrow> (string \<times> string \<times> string) list"
  assumes log_conf: "log (snd (conf_set env key val w)) = log w"
    and log_event_cb: "log (snd (conf_set_event_cb env w)) = log w"
    and log_create: "log (snd (producer_create env w)) = log w"
    and log_poll: "log (snd (producer_poll env ms w)) = log w"
    and log_produce: "log (snd (producer_produce env t key p w)) = log w @ (if fst (producer_produce env t key p w) then [(t, key, p)] else [])"
begin

lemma poll_log: "log (world k) = l \<Longrightarrow> log_is log l (poll env ms k)"
  using log_poll [of ms "world k"] by (auto simp: poll_def split: prod.split)

lemma drain_log: "log (world k) = l \<Longrightarrow> log_is log l (drain_outq env n k)"
  by (induction n arbitrary: k) (auto intro: log_is_andThen [OF poll_log])

lemma disconnect_log: "log (world k) = l \<Longrightarrow> log_is log l (disconnect env k)"
  unfolding disconnect_def by (rule log_is_andThen [where l = l]) (auto intro: drain_log)

lemma configure_log: "log (world k) = l \<Longrightarrow> log_is log l (configure env ss k)"
proof (induction ss arbitrary: k)
  case (Cons s ss)
  obtain key val err where s: "s = (key, val, err)" by (cases s) auto
  show ?case using Cons.IH Cons.prems log_conf [of key val "world k"] by (auto simp: s split: prod.split option.split)
qed simp

lemma connect_log: "log (world k) = l \<Longrightarrow> log_is log l (connect env cfg k)"
  unfolding connect_def
proof (intro log_is_andThen [OF disconnect_log] log_is_andThen [OF configure_log])
  fix k2 :: "'w msgBus_kafka" assume l: "log (world k2) = l"
  obtain ok w where cb: "conf_set_event_cb env (world k2) = (ok, w)" by fastforce
  obtain ok' w' where cr: "producer_create env w = (ok', w')" by fastforce
  have "log w' = l" using l log_event_cb [of "world k2"] log_create [of w] by (simp add: cb cr)
  then show "log_is log l (case conf_set_event_cb env (world k2) of (ok, w) \<Rightarrow>
         if \<not> ok then Inl (Throw ''ERROR: Failed to configure kafka event callback'')
         else case producer_create env w of (ok, w) \<Rightarrow>
           if \<not> ok then Inl (Throw ''ERROR: Failed to create producer'')
           else andThen (poll env 1000 (k2\<lparr>producer := True, isConnected := True, world := w\<rparr>)) (\<lambda>k.
             if \<not> isConnected k then Inr k
             else poll env 100 (k\<lparr>topicSel := Some new_topic_sel\<rparr>)))"
    by (auto simp: cb cr intro!: log_is_andThen [OF poll_log] poll_log)
qed auto

lemma reconnect_log: "log (world k) = l \<Longrightarrow> log_is log l (reconnect env cfg s n k)"
  by (induction n arbitrary: k) (subst reconnect.simps, auto intro: log_is_andThen [OF connect_log])+

text \<open>The message of a call is queued last, when librdkafka takes it.\<close>

lemma hand_over_run:
  assumes "producer k" "getTopic (topic_cfg cfg) (topic_conf_set_cb env (world k)) (topic_create env (world k)) v (Some (router_group_name k)) g a sel =
      Inr (name, sel')" "producer_produce env name key payload (world k) = (ok, w)"
  obtains k' where "hand_over env cfg v key g a payload sel k = Inr k'"
    "log (world k') = log (world k) @ (if ok then [(name, key, payload)] else [])" "bus_data k' = bus_data k"
proof -
  let ?k = "k\<lparr>topicSel := Some sel', world := w\<rparr>" and ?l = "log (world k) @ (if ok then [(name, key, payload)] else [])"
  have l: "log (world ?k) = ?l" using log_produce [of name key payload "world k"] assms(3) by simp
  let ?m = "andThen (if ok then Inr ?k else poll env 100 ?k) (poll env 0)"
  have "log_is log ?l ?m" using l by (intro log_is_andThen [where l = ?l]) (auto intro: poll_log)
  moreover have "\<exists>k'. ?m = Inr k' \<and> bus_data k' = bus_data k"
    using assms(1) by (auto simp: poll_def split: prod.split)
  ultimately show thesis using assms that by (auto simp: hand_over_def dest: log_isD)
qed

end

section \<open>A client library with the documented behaviour\<close>

text \<open>Messages in memory, and the events of the polls to come. No name resolves and nothing matches.\<close>

record mem_broker =
  mem_log :: "(string \<times> string \<times> string) list"
  mem_events :: "kafka_event list list"

definition mem_kafka :: "mem_broker kafka_env" where
  "mem_kafka = \<lparr>conf_set = (\<lambda>_ _ w. (True, w)), conf_set_event_cb = (\<lambda>w. (True, w)), producer_create = (\<lambda>w. (True, w)),
     producer_poll = (\<lambda>_ w. case mem_events w of [] \<Rightarrow> ([], w) | es # r \<Rightarrow> (es, w\<lparr>mem_events := r\<rparr>)), producer_outq_len = (\<lambda>_. 0),
     producer_produce = (\<lambda>t key p w. (True, w\<lparr>mem_log := mem_log w @ [(t, key, p)]\<rparr>)), topic_conf_set_cb = (\<lambda>_. True),
     topic_create = (\<lambda>_ _. True), getaddrinfo = (\<lambda>_ _. None), getnameinfo = (\<lambda>_ _. None), gettimeofday = (\<lambda>_. (86400, 5)),
     regex_match = (\<lambda>_ _. False), inet_pton = (\<lambda>_ _. None), inet_ntop6 = (\<lambda>_. ''::'')\<rparr>"

interpretation mem_kafka: kafka_log mem_kafka mem_log
  by unfold_locales (auto simp: mem_kafka_def split: list.split)

section \<open>Reconnecting\<close>

fun connects :: "'w kafka_env \<Rightarrow> kafka_config \<Rightarrow> nat \<Rightarrow> 'w msgBus_kafka \<Rightarrow> 'w msgBus_kafka result" where
  "connects env cfg 0 k = Inr k"
| "connects env cfg (Suc n) k = andThen (connect env cfg k) (connects env cfg n)"

lemma reconnect_first:
  assumes "kafka_inv k" "connects env cfg n k = Inr k'" "isConnected k'" "n \<le> fuel"
    "\<forall>m<n. \<forall>k1. connects env cfg m k = Inr k1 \<longrightarrow> \<not> isConnected k1"
  shows "reconnect env cfg s fuel k = Inr k' \<and> link_step k k'"
  using assms
proof (induction n arbitrary: k fuel)
  case 0
  then show ?case by (simp add: reconnect_connected link_step_def)
next
  case (Suc n)
  from Suc.prems(5) have "\<not> isConnected k" by (force dest: spec [of _ 0])
  from Suc.prems(2) obtain k1 where k1: "connect env cfg k = Inr k1" "connects env cfg n k1 = Inr k'"
    by (auto simp: andThen_eq_Inr)
  have inv: "link_step k k1" using avoids_ret [OF connect_link [OF Suc.prems(1)] k1(1)] .
  obtain f where f: "fuel = Suc f" using Suc.prems(4) by (cases fuel) auto
  have "reconnect env cfg s f k1 = Inr k' \<and> link_step k1 k'"
  proof (rule Suc.IH)
    show "\<forall>m<n. \<forall>k2. connects env cfg m k1 = Inr k2 \<longrightarrow> \<not> isConnected k2"
      using Suc.prems(5) [rule_format, of "Suc _"] k1(1) by auto
  qed (use inv k1 Suc.prems f in \<open>auto simp: link_step_def\<close>)
  then show ?case using \<open>\<not> isConnected k\<close> k1(1) inv by (subst reconnect.simps) (auto simp: f link_step_def)
qed

text \<open>
  C7. The bus waits for the brokers and loses no message meanwhile: when the first attempts to connect fail and a later
  one succeeds, a message produced before the first attempt is queued once the connection stands, behind the messages
  that were queued before, with the header and the topic of the groups, and the counters and maps of the bus are as before.
\<close>

theorem kafka_reconnects:
  assumes "kafka_log env log" "kafka_inv k" "connects env cfg n k = Inr k'" "isConnected k'" "n \<le> fuel"
      "\<forall>m<n. \<forall>k1. connects env cfg m k = Inr k1 \<longrightarrow> \<not> isConnected k1"
    and "topicSel k' = Some sel" "topicEnabled (topic_cfg cfg) v" "v \<in> set topic_var_list" "plain (collector_hash k)" "length (collector_hash k) \<le> 32"
      "length msg \<le> cap" "length msg + 150 \<le> MSGBUS_WORKING_BUF_SIZE" "rows < 2 ^ 64"
      "getTopic (topic_cfg cfg) (topic_conf_set_cb env (world k')) (topic_create env (world k')) v (Some (router_group_name k)) g a sel = Inr (name, sel')"
      "fst (producer_produce env name key (produce_header (collector_hash k) v (length msg) rows @ msg) (world k'))"
  shows "\<exists>k2. produce env cfg fuel v cap msg (length msg) rows key g a k = Inr k2 \<and> bus_data k2 = bus_data k \<and>
    log (world k2) = log (world k) @ [(name, key, produce_header (collector_hash k) v (length msg) rows @ msg)]"
proof -
  let ?p = "produce_header (collector_hash k) v (length msg) rows @ msg"
  have rec: "reconnect env cfg s fuel k = Inr k'" "link_step k k'" for s using reconnect_first [OF assms(2,3,4,5,6)] by auto
  then have data: "kafka_inv k'" "collector_hash k' = collector_hash k" "router_group_name k' = router_group_name k"
    by (auto simp: link_step_def bus_data_def)
  have "produce env cfg fuel v cap msg (length msg) rows key g a k = produce env cfg fuel v cap msg (length msg) rows key g a k'"
    using rec(1) reconnect_connected [OF data(1) assms(4)] by (simp add: produce_def)
  also have "\<dots> = hand_over env cfg v key g a ?p sel k'"
    using produce_run [of k' sel cfg v msg cap rows env fuel key g a] assms data by simp
  finally have run: "produce env cfg fuel v cap msg (length msg) rows key g a k = hand_over env cfg v key g a ?p sel k'" .
  obtain w where w: "producer_produce env name key ?p (world k') = (True, w)" using assms(16) by (cases "producer_produce env name key ?p (world k')") auto
  have "producer k'" using data(1) assms(4) by (simp add: kafka_inv_def)
  from kafka_log.hand_over_run [OF assms(1) this _ w] assms(15) data(3) obtain k2 where
    "hand_over env cfg v key g a ?p sel k' = Inr k2" "log (world k2) = log (world k') @ [(name, key, ?p)]" "bus_data k2 = bus_data k'"
    by (metis (full_types))
  moreover have "log (world k') = log (world k)" using kafka_log.reconnect_log [OF assms(1) refl] rec(1) by (metis log_isD)
  ultimately show ?thesis using run rec(2) by (simp add: link_step_def)
qed

definition sample_kafka_cfg :: kafka_config where
  "sample_kafka_cfg = \<lparr>topic_names_map = (\<lambda>v. Some (''openbmp.'' @ v)), match_router_group_by_name = [], match_router_group_by_ip = [],
     match_peer_group_by_name = [], match_peer_group_by_ip = [], match_peer_group_by_asn = [], kafka_brokers = ''localhost:9092'',
     compression = ''snappy'', tx_max_bytes = 1000000, rx_max_bytes = 100000000, session_timeout = 30000, socket_timeout = 60000,
     q_buf_max_msgs = 100000, q_buf_max_kbytes = 1048576, q_buf_max_ms = 1000, msg_send_max_retry = 2, retry_backoff_ms = 100\<rparr>"

definition sample_bus :: "kafka_event list list \<Rightarrow> mem_broker msgBus_kafka" where
  "sample_bus es = \<lparr>collector_hash = ''07070707070707070707070707070707'', router_seq = 0, collector_seq = 0, peer_seq = 0, base_attr_seq = 0,
     unicast_prefix_seq = 0, bmp_stat_seq = 0, ls_node_seq = 0, ls_link_seq = 0, ls_prefix_seq = 0, l3vpn_seq = 0, evpn_seq = 0,
     k_ribSeq = 0, producer = False, isConnected = False, peer_list = (\<lambda>_. None), k_router_ip = ''192.0.2.1'',
     k_router_hash = replicate 16 0, router_group_name = '''', topicSel = None, k_debug = False, world = \<lparr>mem_log = [], mem_events = es\<rparr>\<rparr>"

lemma mem_connect:
  "\<not> isConnected k \<Longrightarrow> connect mem_kafka cfg k =
     andThen (poll mem_kafka 1000 (k\<lparr>topicSel := None, producer := True, isConnected := True\<rparr>)) (\<lambda>k.
       if \<not> isConnected k then Inr k else poll mem_kafka 100 (k\<lparr>topicSel := Some new_topic_sel\<rparr>))"
proof -
  have "configure mem_kafka ss k = Inr k" for ss k
    by (induction ss) (auto simp: mem_kafka_def split: option.split)
  then show "\<not> isConnected k \<Longrightarrow> ?thesis" by (simp add: connect_def disconnect_def) (simp add: mem_kafka_def)
qed

lemma mem_poll: "producer k \<Longrightarrow> poll mem_kafka ms k =
    Inr (case mem_events (world k) of [] \<Rightarrow> k | es # r \<Rightarrow> k\<lparr>isConnected := foldl event_cb (isConnected k) es, world := (world k)\<lparr>mem_events := r\<rparr>\<rparr>)"
  by (simp add: poll_def) (simp add: mem_kafka_def split: list.split)

lemma sample_topic_name: "topic_name (topic_cfg sample_kafka_cfg) v = ''openbmp.'' @ v"
  by (simp add: topic_name_def topic_cfg_def topic_config.defs sample_kafka_cfg_def)

lemma sample_names [simp]: "topicEnabled (topic_cfg sample_kafka_cfg) v"
  by (simp add: topicEnabled_def sample_topic_name)

lemma sample_topic:
  assumes "v \<in> set topic_var_list"
  shows "\<exists>sel. getTopic (topic_cfg sample_kafka_cfg) True (\<lambda>_. True) v r g a new_topic_sel = Inr (''openbmp.'' @ v, sel)"
proof -
  have "list_all (\<lambda>v. list_all (\<lambda>p. \<not> has_text p (''openbmp.'' @ v)) [''{router_group}'', ''{peer_group}'', ''{peer_asn}'']) topic_var_list"
    by code_simp
  then have "\<not> has_text ''{router_group}'' (''openbmp.'' @ v)" "\<not> has_text ''{peer_group}'' (''openbmp.'' @ v)"
      "\<not> has_text ''{peer_asn}'' (''openbmp.'' @ v)"
    using assms unfolding list_all_iff by force+
  note same = this [THEN replace_all_absent]
  have "topic_name_for (topic_cfg sample_kafka_cfg) v r g a = ''openbmp.'' @ v"
    by (simp only: topic_name_for_def subst_groups_def subst_group_def sample_topic_name same if_cancel)
  then show ?thesis by (simp add: getTopic_def initTopic_def new_topic_sel_def Let_def)
qed

lemma mem_kafka_simps [simp]:
  "topic_conf_set_cb mem_kafka w" "topic_create mem_kafka w = (\<lambda>_. True)" "fst (producer_produce mem_kafka t key p w)"
  "getaddrinfo mem_kafka n w = None" "gettimeofday mem_kafka w = (86400, 5)"
  by (simp_all add: mem_kafka_def)

theorem kafka_reconnects_witness:
  "\<exists>k2. produce mem_kafka sample_kafka_cfg 3 MSGBUS_TOPIC_VAR_COLLECTOR 4096 ''up'' (length ''up'') 1 ''key'' None 0
       (sample_bus [[EVENT_ERROR ERR__ALL_BROKERS_DOWN]]) = Inr k2 \<and>
     mem_log (world k2) = [(''openbmp.collector'', ''key'',
       ''V: 1.7\<newline>C_HASH_ID: 07070707070707070707070707070707\<newline>T: collector\<newline>L: 2\<newline>R: 1\<newline>\<newline>up'')]"
proof -
  let ?k = "sample_bus [[EVENT_ERROR ERR__ALL_BROKERS_DOWN]]" and ?v = MSGBUS_TOPIC_VAR_COLLECTOR
  let ?k1 = "?k\<lparr>producer := True, world := \<lparr>mem_log = [], mem_events = []\<rparr>\<rparr>"
  let ?k2 = "?k1\<lparr>isConnected := True, topicSel := Some new_topic_sel\<rparr>"
  have c1: "connect mem_kafka sample_kafka_cfg ?k = Inr ?k1"
    by (simp add: mem_connect mem_poll sample_bus_def event_cb_def)
  have c2: "connect mem_kafka sample_kafka_cfg ?k1 = Inr ?k2"
    by (simp add: mem_connect mem_poll sample_bus_def)
  have off: "\<not> isConnected ?k" "\<not> isConnected ?k1" by (simp_all add: sample_bus_def)
  have hash: "collector_hash ?k = ''07070707070707070707070707070707''"
    by (simp add: sample_bus_def)
  have v: "?v \<in> set topic_var_list" by (simp add: topic_var_list_def)
  obtain sel' where t: "getTopic (topic_cfg sample_kafka_cfg) True (\<lambda>_. True) ?v (Some (router_group_name ?k)) None 0 new_topic_sel =
      Inr (''openbmp.'' @ ?v, sel')"
    using sample_topic [OF v] by blast
  have "\<forall>m<2. \<forall>k1. connects mem_kafka sample_kafka_cfg m ?k = Inr k1 \<longrightarrow> \<not> isConnected k1"
    using c1 off by (auto simp: less_2_cases_iff)
  note first = this
  have c: "connects mem_kafka sample_kafka_cfg 2 ?k = Inr ?k2" by (simp add: numeral_2_eq_2 c1 c2)
  have h: "produce_header (collector_hash ?k) ?v (length ''up'') 1 @ ''up'' =
      ''V: 1.7\<newline>C_HASH_ID: 07070707070707070707070707070707\<newline>T: collector\<newline>L: 2\<newline>R: 1\<newline>\<newline>up''"
    unfolding hash by (simp add: produce_header_def MSGBUS_API_VERSION_def dec_of_nat.simps MSGBUS_TOPIC_VAR_COLLECTOR_def digit_char_def char_of_def bit_Suc_0_iff)
  have "\<exists>k2. produce mem_kafka sample_kafka_cfg 3 ?v 4096 ''up'' (length ''up'') 1 ''key'' None 0 ?k = Inr k2 \<and> bus_data k2 = bus_data ?k \<and>
      mem_log (world k2) = mem_log (world ?k) @ [(''openbmp.'' @ ?v, ''key'', produce_header (collector_hash ?k) ?v (length ''up'') 1 @ ''up'')]"
    by (rule kafka_reconnects [OF mem_kafka.kafka_log_axioms _ c _ _ first _ _ _ _ _ _ _ _ _ _])
      (use off v t in \<open>simp_all add: kafka_inv_def hash MSGBUS_WORKING_BUF_SIZE_def\<close>)
  then show ?thesis unfolding h by (auto simp: MSGBUS_TOPIC_VAR_COLLECTOR_def sample_bus_def)
qed

end
