(* ===== verification/KafkaMessages.thy ===== *)
theory KafkaMessages
  imports KafkaBus LinkState
begin

text \<open>
  \<open>kafka/MsgBusImpl_kafka.cpp\<close>, the methods of the bus: each formats the fields of the passed objects into rows of
  tab separated columns, one row per object, and hands the text to \<open>produce\<close>. The rows of a list are collected
  in the buffer \<open>prep_buf\<close>. Numbers of rows are below \<open>2 ^ 31\<close>.
\<close>

section \<open>Times\<close>

text \<open>
  \<open>gmtime\<close> and \<open>strftime\<close> with the format \<open>%Y-%m-%d %H:%M:%S\<close>: the years, then the months of the year are counted off
  from the number of days.
\<close>

definition leap_year :: "nat \<Rightarrow> bool" where
  "leap_year y \<longleftrightarrow> y mod 4 = 0 \<and> (y mod 100 \<noteq> 0 \<or> y mod 400 = 0)"

definition year_days :: "nat \<Rightarrow> nat" where
  "year_days y = (if leap_year y then 366 else 365)"

function gm_year :: "nat \<Rightarrow> nat \<Rightarrow> nat \<times> nat" where
  "gm_year y d = (if d < year_days y then (y, d) else gm_year (y + 1) (d - year_days y))"
  by pat_completeness auto
termination by (relation "measure snd") (auto simp: year_days_def)

declare gm_year.simps [simp del]

definition month_days :: "nat \<Rightarrow> nat list" where
  "month_days y = [31, if leap_year y then 29 else 28, 31, 30, 31, 30, 31, 31, 30, 31, 30, 31]"

fun gm_month :: "nat list \<Rightarrow> nat \<Rightarrow> nat \<Rightarrow> nat \<times> nat" where
  "gm_month [] m d = (m, d)"
| "gm_month (n # ns) m d = (if d < n then (m, d) else gm_month ns (m + 1) (d - n))"

definition pad_dec :: "nat \<Rightarrow> nat \<Rightarrow> string" where
  "pad_dec w n = replicate (w - length (dec_of_nat n)) (CHR ''0'') @ dec_of_nat n"

definition time_text :: "nat \<Rightarrow> string" where
  "time_text secs =
     (case gm_year 1970 (secs div 86400) of (y, yd) \<Rightarrow>
        case gm_month (month_days y) 1 yd of (m, d) \<Rightarrow>
          dec_of_nat y @ ''-'' @ pad_dec 2 m @ ''-'' @ pad_dec 2 (d + 1) @ '' '' @
          pad_dec 2 (secs mod 86400 div 3600) @ '':'' @ pad_dec 2 (secs mod 3600 div 60) @ '':'' @ pad_dec 2 (secs mod 60))"

definition getTimestamp :: "'w kafka_env \<Rightarrow> u32 \<Rightarrow> u32 \<Rightarrow> 'w \<Rightarrow> string" where
  "getTimestamp env time_secs time_us w =
     (case (if time_secs \<le> 1000 then gettimeofday env w else (unat time_secs, unat time_us)) of
        (secs, us) \<Rightarrow> time_text secs @ ''.'' @ pad_dec 6 us)"

section \<open>Rows\<close>

fun join_tab :: "string list \<Rightarrow> string" where
  "join_tab [] = ''''"
| "join_tab [f] = f"
| "join_tab (f # fs) = f @ CHR 0x09 # join_tab fs"

definition row_text :: "string list \<Rightarrow> string" where
  "row_text cols = join_tab cols @ [CHR 0x0A]"

definition flag_col :: "bool \<Rightarrow> string" where
  "flag_col b = (if b then ''1'' else ''0'')"

definition num_col :: "'a::len word \<Rightarrow> string" where
  "num_col n = dec_of_nat (unat n)"

definition hex_col :: "'a::len word \<Rightarrow> string" where
  "hex_col n = hex_of_nat (unat n)"

text \<open>A character array that is kept as its bytes, read as a C string.\<close>

definition array_text :: "bytes \<Rightarrow> string result" where
  "array_text a = andThen (c_bytes a) (\<lambda>t. Inr (byte_text t))"

definition strcat :: "nat \<Rightarrow> string \<Rightarrow> string \<Rightarrow> string result" where
  "strcat cap dst src = (if length dst + length src < cap then Inr (dst @ src) else Inl BufferOverflow)"

text \<open>
  The end of an iteration: the row is formatted into a buffer of \<open>cap2\<close> characters, \<open>buf_len\<close> grows by its full
  length, and the formatted part is appended while \<open>buf_len\<close> is below the size of \<open>prep_buf\<close>.
\<close>

definition cat_row :: "nat \<Rightarrow> string \<Rightarrow> nat \<times> string \<Rightarrow> (nat \<times> string) result" where
  "cat_row cap2 row = (\<lambda>(buf_len, prep_buf).
     let buf_len = buf_len + length row
     in if buf_len < MSGBUS_WORKING_BUF_SIZE
        then andThen (strcat MSGBUS_WORKING_BUF_SIZE prep_buf (snprintf cap2 row)) (\<lambda>b. Inr (buf_len, b))
        else Inr (buf_len, prep_buf))"

text \<open>
  The loop over the entries of a list. \<open>row e seq\<close> is the text of an entry, \<open>None\<close> when the method returns there.
\<close>

fun rows_loop :: "('e \<Rightarrow> u64 \<Rightarrow> string option result) \<Rightarrow> 'e list \<Rightarrow> u64 \<Rightarrow> nat \<times> string \<Rightarrow> string option result" where
  "rows_loop row [] seq (buf_len, prep_buf) = Inr (Some prep_buf)"
| "rows_loop row (e # es) seq b =
     andThen (row e seq) (\<lambda>r. case r of
         None \<Rightarrow> Inr None
       | Some r \<Rightarrow> andThen (cat_row 80000 r b) (rows_loop row es (seq + 1)))"

section \<open>Collector, router and peer\<close>

definition kafka_update_Collector :: "'w kafka_env \<Rightarrow> kafka_config \<Rightarrow> nat \<Rightarrow> obj_collector \<Rightarrow> collector_action_code \<Rightarrow>
    'w msgBus_kafka \<Rightarrow> 'w msgBus_kafka result" where
  "kafka_update_Collector env cfg fuel c_object action_code k =
     (let ts = getTimestamp env (coll_timestamp_secs c_object) (coll_timestamp_us c_object) (world k);
          action = (case action_code of COLLECTOR_ACTION_STARTED \<Rightarrow> ''started'' | COLLECTOR_ACTION_CHANGE \<Rightarrow> ''change''
            | COLLECTOR_ACTION_HEARTBEAT \<Rightarrow> ''heartbeat'' | COLLECTOR_ACTION_STOPPED \<Rightarrow> ''stopped'')
      in andThen (read_cstr 64 (Some (admin_id c_object))) (\<lambda>admin.
         andThen (read_cstr 4096 (Some (coll_routers c_object))) (\<lambda>routers.
           let buf = snprintf 4096 (row_text [action, num_col (collector_seq k), admin, c_str (collector_hash k), routers,
                 num_col (router_count c_object), ts])
           in andThen (produce env cfg fuel MSGBUS_TOPIC_VAR_COLLECTOR 4096 buf (length buf) 1 (collector_hash k) None 0 k) (\<lambda>k.
                Inr (k\<lparr>collector_seq := collector_seq k + 1\<rparr>)))))"

definition escape_data :: "string \<Rightarrow> string" where
  "escape_data s = replace_all [CHR 0x09] '' '' (replace_all [CHR 0x0A] [CHR 0x5C, CHR ''n''] s)"

text \<open>The time of a router object is never assigned: it is zero, and the clock is read.\<close>

definition kafka_update_Router :: "'w kafka_env \<Rightarrow> kafka_config \<Rightarrow> nat \<Rightarrow> obj_router \<Rightarrow> router_action_code \<Rightarrow>
    'w msgBus_kafka \<Rightarrow> (obj_router \<times> 'w msgBus_kafka) result" where
  "kafka_update_Router env cfg fuel r_object code k =
     andThen (hash_toStr (router_hash r_object)) (\<lambda>r_hash_str.
     let skip_if_defined = (code = ROUTER_ACTION_FIRST);
         action = (case code of ROUTER_ACTION_FIRST \<Rightarrow> ''first'' | ROUTER_ACTION_INIT \<Rightarrow> ''init'' | ROUTER_ACTION_TERM \<Rightarrow> ''term'');
         k = (if code = ROUTER_ACTION_TERM then k\<lparr>k_router_hash := replicate 16 0\<rparr> else k)
     in if skip_if_defined \<and> list_ex (\<lambda>b. b \<noteq> 0) (k_router_hash k) then Inr (r_object, k)
        else
          let k = (if code \<noteq> ROUTER_ACTION_TERM then k\<lparr>k_router_hash := router_hash r_object\<rparr> else k)
          in andThen (read_cstr 46 (Some (router_ip_addr r_object))) (\<lambda>ip_addr.
             let k = k\<lparr>k_router_ip := ip_addr\<rparr>
             in andThen (array_text (router_descr r_object)) (\<lambda>descr.
                andThen (array_text (initiate_data r_object)) (\<lambda>initData.
                andThen (array_text (term_data r_object)) (\<lambda>termData.
                andThen (array_text (router_name r_object)) (\<lambda>name.
                let ts = getTimestamp env 0 0 (world k);
                    name' = (if name = '''' then snprintf 254 (resolveIp env ip_addr (world k)) else name);
                    r_object = (if name = ''''
                      then r_object\<lparr>router_name := poke 0 (text_bytes name' @ [0]) (router_name r_object)\<rparr> else r_object)
                in andThen (case topicSel k of None \<Rightarrow> Inr (router_group_name k)
                     | Some _ \<Rightarrow> lookupRouterGroup (regex_match env) (inet_pton env) (topic_cfg cfg) name' ip_addr) (\<lambda>grp.
                   let k = k\<lparr>router_group_name := grp\<rparr>
                   in andThen (read_cstr 255 (Some (term_reason_text r_object))) (\<lambda>reason.
                      andThen (read_cstr 16 (Some (router_bgp_id r_object))) (\<lambda>bgp_id.
                      let row = row_text [action, num_col (router_seq k), name', r_hash_str, ip_addr, escape_data descr,
                            dec_of_nat (term_reason_code r_object), reason, escape_data initData, escape_data termData, ts, bgp_id]
                      in andThen (produce env cfg fuel MSGBUS_TOPIC_VAR_ROUTER 4096 (snprintf 4096 row) (length row) 1 r_hash_str None 0 k)
                           (\<lambda>k. Inr (r_object, k\<lparr>router_seq := router_seq k + 1\<rparr>)))))))))))"

text \<open>The destructor reports the end of the connection when a router is known.\<close>

definition destroy_msgBus_kafka :: "'w kafka_env \<Rightarrow> kafka_config \<Rightarrow> nat \<Rightarrow> 'w msgBus_kafka \<Rightarrow> 'w msgBus_kafka result" where
  "destroy_msgBus_kafka env cfg fuel k =
     andThen (if list_ex (\<lambda>b. b \<noteq> 0) (k_router_hash k)
        then andThen (kafka_update_Router env cfg fuel
               (zero_router\<lparr>router_hash := k_router_hash k, router_ip_addr := snprintf 46 (k_router_ip k),
                  term_reason_code := 65533, term_reason_text := ''Connection closed''\<rparr>) ROUTER_ACTION_TERM k) (\<lambda>(_, k). Inr k)
        else Inr k) (\<lambda>k.
       disconnect env (k\<lparr>peer_list := (\<lambda>_. None)\<rparr>))"

text \<open>The columns of the peer that all its rows share, before and behind those of the event.\<close>

definition peer_cols :: "string \<Rightarrow> u64 \<Rightarrow> string \<Rightarrow> string \<Rightarrow> string \<Rightarrow> string \<Rightarrow> string \<Rightarrow> obj_bgp_peer \<Rightarrow> string list result" where
  "peer_cols action seq p_hash r_hash hostname r_ip ts peer =
     andThen (read_cstr 16 (Some (peer_bgp_id peer))) (\<lambda>bgp_id.
     andThen (read_cstr 46 (Some (peer_addr peer))) (\<lambda>addr.
     andThen (read_cstr 32 (Some (peer_rd peer))) (\<lambda>r.
       Inr [action, num_col seq, p_hash, r_hash, hostname, bgp_id, c_str r_ip, ts, num_col (peer_as peer), addr, r])))"

definition peer_flag_cols :: "obj_bgp_peer \<Rightarrow> string list" where
  "peer_flag_cols peer =
     [flag_col (isL3VPN peer), flag_col (isPrePolicy peer), flag_col (peer_isIPv4 peer), flag_col (isLocRib peer),
      flag_col (isLocRibFiltered peer)]"

text \<open>\<open>info_data\<close> of a peer up event is never assigned: it is the empty text.\<close>

definition up_cols :: "obj_peer_up_event \<Rightarrow> string list result" where
  "up_cols up =
     andThen (read_cstr 40 (Some (local_ip up))) (\<lambda>lip.
     andThen (read_cstr 16 (Some (local_bgp_id up))) (\<lambda>lid.
     andThen (read_cstr 4096 (Some (sent_cap up))) (\<lambda>sent.
     andThen (read_cstr 4096 (Some (recv_cap up))) (\<lambda>recv.
       Inr [dec_of_nat (remote_port up), num_col (local_asn up), lip, dec_of_nat (local_port up), lid, '''', sent, recv,
            dec_of_nat (remote_hold_time up), dec_of_nat (local_hold_time up)]))))"

definition down_cols :: "obj_peer_down_event \<Rightarrow> string list result" where
  "down_cols down =
     andThen (read_cstr 255 (Some (down_error_text down))) (\<lambda>t.
       Inr [num_col (bmp_reason down), num_col (bgp_err_code down), num_col (bgp_err_subcode down), t])"

text \<open>
  The row of the event; \<open>None\<close> when the pointer to the event is \<open>NULL\<close> and the method returns.
\<close>

definition peer_row :: "obj_peer_up_event option \<Rightarrow> obj_peer_down_event option \<Rightarrow> peer_action_code \<Rightarrow> string list result \<Rightarrow> obj_bgp_peer \<Rightarrow>
    string option result" where
  "peer_row up down code cols peer =
     (case code of
        PEER_ACTION_FIRST \<Rightarrow>
          andThen cols (\<lambda>cols.
          andThen (array_text (table_name peer)) (\<lambda>tab.
            Inr (Some (row_text (cols @ replicate 14 '''' @ peer_flag_cols peer @ [tab])))))
      | PEER_ACTION_UP \<Rightarrow>
          (case up of
             None \<Rightarrow> Inr None
           | Some u \<Rightarrow>
               andThen cols (\<lambda>cols.
               andThen (up_cols u) (\<lambda>ucols.
               andThen (array_text (table_name peer)) (\<lambda>tab.
                 Inr (Some (row_text (cols @ ucols @ replicate 4 '''' @ peer_flag_cols peer @ [tab])))))))
      | PEER_ACTION_DOWN \<Rightarrow>
          (case down of
             None \<Rightarrow> Inr None
           | Some d \<Rightarrow>
               andThen cols (\<lambda>cols.
               andThen (down_cols d) (\<lambda>dcols.
                 Inr (Some (row_text (cols @ replicate 10 '''' @ dcols @ peer_flag_cols peer @ [''''])))))))"

definition peer_hash_of :: "obj_bgp_peer \<Rightarrow> string \<Rightarrow> bytes result" where
  "peer_hash_of peer r_hash_str =
     andThen (read_cstr 46 (Some (peer_addr peer))) (\<lambda>addr.
     andThen (read_cstr 32 (Some (peer_rd peer))) (\<lambda>r.
       Inr (hash_of [text_bytes addr, text_bytes r, text_bytes r_hash_str])))"

definition kafka_update_Peer :: "'w kafka_env \<Rightarrow> kafka_config \<Rightarrow> nat \<Rightarrow> obj_bgp_peer \<Rightarrow> obj_peer_up_event option \<Rightarrow>
    obj_peer_down_event option \<Rightarrow> peer_action_code \<Rightarrow> 'w msgBus_kafka \<Rightarrow> (obj_bgp_peer \<times> 'w msgBus_kafka) result" where
  "kafka_update_Peer env cfg fuel peer up down code k =
     andThen (hash_toStr (router_hash_id peer)) (\<lambda>r_hash_str.
     andThen (peer_hash_of peer r_hash_str) (\<lambda>h.
     let peer = peer\<lparr>peer_hash := h\<rparr>
     in andThen (hash_toStr (peer_hash peer)) (\<lambda>p_hash_str.
        let skip_if_in_cache = (code = PEER_ACTION_FIRST);
            add_to_cache = (code \<noteq> PEER_ACTION_DOWN);
            action = (case code of PEER_ACTION_FIRST \<Rightarrow> ''first'' | PEER_ACTION_UP \<Rightarrow> ''up'' | PEER_ACTION_DOWN \<Rightarrow> ''down'');
            k = (if code = PEER_ACTION_DOWN then k\<lparr>peer_list := (peer_list k)(p_hash_str := None)\<rparr> else k)
        in if skip_if_in_cache \<and> peer_list k p_hash_str \<noteq> None then Inr (peer, k)
           else
             let hostname = resolveIp env (peer_addr peer) (world k);
                 ts = getTimestamp env (timestamp_secs peer) (timestamp_us peer) (world k)
             in andThen (if add_to_cache \<and> topicSel k \<noteq> None
                  then andThen (lookupPeerGroup (regex_match env) (inet_pton env) (topic_cfg cfg) hostname (peer_addr peer) (peer_as peer))
                         (\<lambda>g. Inr (k\<lparr>peer_list := (peer_list k)(p_hash_str \<mapsto> g)\<rparr>))
                  else Inr k) (\<lambda>k.
                andThen (peer_row up down code
                  (peer_cols action (peer_seq k) p_hash_str r_hash_str hostname (k_router_ip k) ts peer) peer) (\<lambda>row.
                case row of
                  None \<Rightarrow> Inr (peer, k)
                | Some row \<Rightarrow>
                    let k = (if code = PEER_ACTION_DOWN then k\<lparr>peer_list := (peer_list k)(p_hash_str := None)\<rparr> else k);
                        buf = snprintf 4096 row
                    in case peer_entry p_hash_str k of (g, k) \<Rightarrow>
                       andThen (produce env cfg fuel MSGBUS_TOPIC_VAR_PEER 4096 buf (length buf) 1 p_hash_str (Some g) (peer_as peer) k)
                         (\<lambda>k. Inr (peer, k\<lparr>peer_seq := peer_seq k + 1\<rparr>)))))))"

section \<open>Attributes and routes\<close>

text \<open>The columns of the path attributes, from the origin to the originator.\<close>

definition attr_cols :: "obj_path_attr \<Rightarrow> string list result" where
  "attr_cols attr =
     andThen (read_cstr 16 (origin attr)) (\<lambda>org.
     andThen (load (as_path_count attr)) (\<lambda>cnt.
     andThen (load (origin_as attr)) (\<lambda>oas.
     andThen (read_cstr 40 (attr_next_hop attr)) (\<lambda>nh.
     andThen (load (med attr)) (\<lambda>md.
     andThen (load (local_pref attr)) (\<lambda>lp.
     andThen (read_cstr 40 (aggregator attr)) (\<lambda>agg.
     andThen (load (atomic_agg attr)) (\<lambda>atom.
     andThen (load (nexthop_isIPv4 attr)) (\<lambda>nh4.
     andThen (read_cstr 16 (originator_id attr)) (\<lambda>oid.
       Inr [org, c_str (as_path attr), num_col cnt, num_col oas, nh, num_col md, num_col lp, agg, c_str (community_list attr),
            c_str (ext_community_list attr), c_str (cluster_list attr), flag_col atom, flag_col nh4, oid]))))))))))"

definition path_hash_of :: "obj_path_attr \<Rightarrow> string \<Rightarrow> bytes result" where
  "path_hash_of attr p_hash_str =
     andThen (read_cstr 40 (attr_next_hop attr)) (\<lambda>nh.
     andThen (read_cstr 40 (aggregator attr)) (\<lambda>agg.
     andThen (read_cstr 16 (origin attr)) (\<lambda>org.
     andThen (load (med attr)) (\<lambda>md.
     andThen (load (local_pref attr)) (\<lambda>lp.
       Inr (hash_of [text_bytes (as_path attr), text_bytes nh, text_bytes agg, text_bytes org, mem32 md, mem32 lp,
         text_bytes (community_list attr), text_bytes (ext_community_list attr), text_bytes p_hash_str]))))))"

definition kafka_update_baseAttribute :: "'w kafka_env \<Rightarrow> kafka_config \<Rightarrow> nat \<Rightarrow> obj_bgp_peer \<Rightarrow> obj_path_attr \<Rightarrow>
    'w msgBus_kafka \<Rightarrow> (obj_path_attr \<times> 'w msgBus_kafka) result" where
  "kafka_update_baseAttribute env cfg fuel peer attr k =
     andThen (hash_toStr (peer_hash peer)) (\<lambda>p_hash_str.
     andThen (hash_toStr (router_hash_id peer)) (\<lambda>r_hash_str.
     andThen (path_hash_of attr p_hash_str) (\<lambda>h.
     let attr = attr\<lparr>attr_hash_id := Some h\<rparr>
     in andThen (hash_toStr h) (\<lambda>path_hash_str.
        let ts = getTimestamp env (timestamp_secs peer) (timestamp_us peer) (world k)
        in andThen (read_cstr 46 (Some (peer_addr peer))) (\<lambda>addr.
           andThen (attr_cols attr) (\<lambda>cols.
           let row = row_text ([''add'', num_col (base_attr_seq k), path_hash_str, r_hash_str, c_str (k_router_ip k), p_hash_str, addr,
                 num_col (peer_as peer), ts] @ cols @ [c_str (large_community_list attr)])
           in case peer_entry p_hash_str k of (g, k) \<Rightarrow>
              andThen (produce env cfg fuel MSGBUS_TOPIC_VAR_BASE_ATTRIBUTE MSGBUS_WORKING_BUF_SIZE
                  (snprintf MSGBUS_WORKING_BUF_SIZE row) (length row) 1 p_hash_str (Some g) (peer_as peer) k) (\<lambda>k.
                Inr (attr, k\<lparr>base_attr_seq := base_attr_seq k + 1\<rparr>))))))))"

text \<open>What the three methods for routes compute before their loops.\<close>

record row_context =
  rc_r_hash :: string
  rc_path_hash :: string
  rc_p_hash :: string
  rc_router_ip :: string
  rc_ts :: string

definition route_context :: "'w kafka_env \<Rightarrow> obj_bgp_peer \<Rightarrow> obj_path_attr option \<Rightarrow> 'w msgBus_kafka \<Rightarrow> row_context result" where
  "route_context env peer attr k =
     andThen (hash_toStr (router_hash_id peer)) (\<lambda>r_hash_str.
     andThen (case attr of None \<Rightarrow> Inr '''' | Some a \<Rightarrow> andThen (load (attr_hash_id a)) hash_toStr) (\<lambda>path_hash_str.
     andThen (hash_toStr (peer_hash peer)) (\<lambda>p_hash_str.
       Inr \<lparr>rc_r_hash = r_hash_str, rc_path_hash = path_hash_str, rc_p_hash = p_hash_str, rc_router_ip = c_str (k_router_ip k),
         rc_ts = getTimestamp env (timestamp_secs peer) (timestamp_us peer) (world k)\<rparr>)))"

text \<open>The columns up to the time, with the hash of the entry and the hash of the path.\<close>

definition route_cols :: "string \<Rightarrow> u64 \<Rightarrow> string \<Rightarrow> string \<Rightarrow> row_context \<Rightarrow> obj_bgp_peer \<Rightarrow> string list result" where
  "route_cols action seq e_hash path_hash rc peer =
     andThen (read_cstr 46 (Some (peer_addr peer))) (\<lambda>addr.
       Inr [action, num_col seq, e_hash, rc_r_hash rc, rc_router_ip rc, path_hash, rc_p_hash rc, addr, num_col (peer_as peer), rc_ts rc])"

text \<open>The path identifier is part of a hash only when it is not zero, a label only as the constant one.\<close>

definition path_id_chunk :: "u32 \<Rightarrow> bytes list" where
  "path_id_chunk pid = (if pid > 0 then [mem32 pid] else [])"

definition label_chunk :: "string \<Rightarrow> bytes list" where
  "label_chunk txt = (if txt \<noteq> '''' then [[1]] else [])"

definition rib_row :: "obj_bgp_peer \<Rightarrow> row_context \<Rightarrow> obj_path_attr option \<Rightarrow> unicast_prefix_action_code \<Rightarrow> obj_rib \<Rightarrow> u64 \<Rightarrow>
    string option result" where
  "rib_row peer rc attr code r seq =
     andThen (read_cstr 46 (Some (rib_prefix r))) (\<lambda>pfx.
     andThen (hash_toStr (hash_of ([text_bytes pfx, [rib_prefix_len r], text_bytes (rc_p_hash rc)] @
        path_id_chunk (rib_path_id r) @ label_chunk (rib_labels r)))) (\<lambda>rib_hash_str.
       case code of
         UNICAST_PREFIX_ACTION_ADD \<Rightarrow>
           (case attr of
              None \<Rightarrow> Inr None
            | Some a \<Rightarrow>
                andThen (route_cols ''add'' seq rib_hash_str (rc_path_hash rc) rc peer) (\<lambda>cols.
                andThen (attr_cols a) (\<lambda>acols.
                andThen (read_cstr 255 (Some (rib_labels r))) (\<lambda>labs.
                  Inr (Some (row_text (cols @ [pfx, num_col (rib_prefix_len r), flag_col (rib_isIPv4 r)] @ acols @
                    [num_col (rib_path_id r), labs, flag_col (isPrePolicy peer), flag_col (isAdjIn peer),
                     c_str (large_community_list a)])))))))
       | UNICAST_PREFIX_ACTION_DEL \<Rightarrow>
           andThen (route_cols ''del'' seq rib_hash_str '''' rc peer) (\<lambda>cols.
           andThen (read_cstr 255 (Some (rib_labels r))) (\<lambda>labs.
             Inr (Some (row_text (cols @ [pfx, num_col (rib_prefix_len r), flag_col (rib_isIPv4 r)] @ replicate 14 '''' @
               [num_col (rib_path_id r), labs, flag_col (isPrePolicy peer), flag_col (isAdjIn peer), ''''])))))))"

definition kafka_update_unicastPrefix :: "'w kafka_env \<Rightarrow> kafka_config \<Rightarrow> nat \<Rightarrow> obj_bgp_peer \<Rightarrow> obj_rib list \<Rightarrow> obj_path_attr option \<Rightarrow>
    unicast_prefix_action_code \<Rightarrow> 'w msgBus_kafka \<Rightarrow> 'w msgBus_kafka result" where
  "kafka_update_unicastPrefix env cfg fuel peer rib attr code k =
     andThen (route_context env peer attr k) (\<lambda>rc.
     andThen (rows_loop (rib_row peer rc attr code) rib (unicast_prefix_seq k) (0, '''')) (\<lambda>b.
       case b of
         None \<Rightarrow> Inr k
       | Some buf \<Rightarrow>
           let k = k\<lparr>unicast_prefix_seq := unicast_prefix_seq k + of_nat (length rib), k_ribSeq := k_ribSeq k + of_nat (length rib)\<rparr>
           in case peer_entry (rc_p_hash rc) k of (g, k) \<Rightarrow>
              produce env cfg fuel MSGBUS_TOPIC_VAR_UNICAST_PREFIX MSGBUS_WORKING_BUF_SIZE buf (length buf) (length rib) (rc_p_hash rc)
                (Some g) (peer_as peer) k))"

definition rd_cols :: "rd_tuple \<Rightarrow> string list result" where
  "rd_cols r =
     andThen (load (rd_type r)) (\<lambda>t.
       Inr [c_str (rd_administrator_subfield r) @ '':'' @ c_str (rd_assigned_number r), num_col t])"

definition vpn_row :: "obj_bgp_peer \<Rightarrow> row_context \<Rightarrow> obj_path_attr option \<Rightarrow> vpn_action_code \<Rightarrow> obj_vpn \<Rightarrow> u64 \<Rightarrow> string option result" where
  "vpn_row peer rc attr code v seq =
     andThen (read_cstr 46 (Some (rib_prefix v))) (\<lambda>pfx.
     andThen (hash_toStr (hash_of ([text_bytes pfx, [rib_prefix_len v], text_bytes (rd_administrator_subfield (vpn_rd_tuple v)),
        text_bytes (rd_assigned_number (vpn_rd_tuple v)), text_bytes (rc_p_hash rc)] @
        path_id_chunk (rib_path_id v) @ label_chunk (rib_labels v)))) (\<lambda>vpn_hash_str.
       case code of
         VPN_ACTION_ADD \<Rightarrow>
           (case attr of
              None \<Rightarrow> Inr None
            | Some a \<Rightarrow>
                andThen (route_cols ''add'' seq vpn_hash_str (rc_path_hash rc) rc peer) (\<lambda>cols.
                andThen (attr_cols a) (\<lambda>acols.
                andThen (read_cstr 255 (Some (rib_labels v))) (\<lambda>labs.
                andThen (rd_cols (vpn_rd_tuple v)) (\<lambda>rds.
                  Inr (Some (row_text (cols @ [pfx, num_col (rib_prefix_len v), flag_col (rib_isIPv4 v)] @ acols @
                    [num_col (rib_path_id v), labs, flag_col (isPrePolicy peer), flag_col (isAdjIn peer)] @ rds @
                    [c_str (large_community_list a)]))))))))
       | VPN_ACTION_DEL \<Rightarrow>
           andThen (route_cols ''del'' seq vpn_hash_str '''' rc peer) (\<lambda>cols.
           andThen (read_cstr 255 (Some (rib_labels v))) (\<lambda>labs.
           andThen (rd_cols (vpn_rd_tuple v)) (\<lambda>rds.
             Inr (Some (row_text (cols @ [pfx, num_col (rib_prefix_len v), flag_col (rib_isIPv4 v)] @ replicate 14 '''' @
               [num_col (rib_path_id v), labs, flag_col (isPrePolicy peer), flag_col (isAdjIn peer)] @ rds @ ['''']))))))))"

definition kafka_update_L3Vpn :: "'w kafka_env \<Rightarrow> kafka_config \<Rightarrow> nat \<Rightarrow> obj_bgp_peer \<Rightarrow> obj_vpn list \<Rightarrow> obj_path_attr option \<Rightarrow>
    vpn_action_code \<Rightarrow> 'w msgBus_kafka \<Rightarrow> 'w msgBus_kafka result" where
  "kafka_update_L3Vpn env cfg fuel peer vpns attr code k =
     andThen (route_context env peer attr k) (\<lambda>rc.
     andThen (rows_loop (vpn_row peer rc attr code) vpns (l3vpn_seq k) (0, '''')) (\<lambda>b.
       case b of
         None \<Rightarrow> Inr k
       | Some buf \<Rightarrow>
           case peer_entry (rc_p_hash rc) (k\<lparr>l3vpn_seq := l3vpn_seq k + of_nat (length vpns)\<rparr>) of (g, k) \<Rightarrow>
              produce env cfg fuel MSGBUS_TOPIC_VAR_L3VPN MSGBUS_WORKING_BUF_SIZE buf (length buf) (length vpns) (rc_p_hash rc)
                (Some g) (peer_as peer) k))"

text \<open>\<open>%\<close>\<open>PRIu32\<close> of an \<open>int\<close>.\<close>

definition int_col :: "int \<Rightarrow> string" where
  "int_col i = dec_of_nat (nat (i mod 2 ^ 32))"

definition evpn_cols :: "evpn_tuple \<Rightarrow> obj_bgp_peer \<Rightarrow> string list result" where
  "evpn_cols v peer =
     andThen (rd_cols (evpn_rd v)) (\<lambda>rds.
     andThen (read_cstr 46 (Some (originating_router_ip v))) (\<lambda>oip.
     andThen (read_cstr 16 (Some (ethernet_tag_id_hex v))) (\<lambda>tag.
     andThen (read_cstr 255 (Some (ethernet_segment_identifier v))) (\<lambda>esi.
     andThen (read_cstr 255 (Some (mac v))) (\<lambda>m.
     andThen (read_cstr 46 (Some (ip v))) (\<lambda>addr.
       Inr ([num_col (evpn_path_id v), flag_col (isPrePolicy peer), flag_col (isAdjIn peer)] @ rds @
         [num_col (originating_router_ip_len v), oip, tag, esi, num_col (mac_len v), m, num_col (ip_len v), addr,
          int_col (mpls_label_1 v), int_col (mpls_label_2 v)])))))))"

definition evpn_row :: "obj_bgp_peer \<Rightarrow> row_context \<Rightarrow> obj_path_attr option \<Rightarrow> vpn_action_code \<Rightarrow> obj_evpn \<Rightarrow> u64 \<Rightarrow> string option result" where
  "evpn_row peer rc attr code e seq =
     (let v = evpn_fields e
      in andThen (read_cstr 255 (Some (mac v))) (\<lambda>m.
         andThen (read_cstr 46 (Some (ip v))) (\<lambda>addr.
         andThen (read_cstr 255 (Some (ethernet_segment_identifier v))) (\<lambda>esi.
         andThen (hash_toStr (hash_of ([text_bytes (rc_p_hash rc), text_bytes m, text_bytes addr, [ip_len v], text_bytes esi,
            text_bytes (rd_administrator_subfield (evpn_rd v)), text_bytes (rd_assigned_number (evpn_rd v))] @
            path_id_chunk (evpn_path_id v)))) (\<lambda>vpn_hash_str.
           case code of
             VPN_ACTION_ADD \<Rightarrow>
               (case attr of
                  None \<Rightarrow> Inr None
                | Some a \<Rightarrow>
                    andThen (route_cols ''add'' seq vpn_hash_str (rc_path_hash rc) rc peer) (\<lambda>cols.
                    andThen (attr_cols a) (\<lambda>acols.
                    andThen (evpn_cols v peer) (\<lambda>ecols.
                      Inr (Some (row_text (cols @ acols @ ecols)))))))
           | VPN_ACTION_DEL \<Rightarrow>
               andThen (route_cols ''del'' seq vpn_hash_str (rc_path_hash rc) rc peer) (\<lambda>cols.
               andThen (evpn_cols v peer) (\<lambda>ecols.
                 Inr (Some (row_text (cols @ replicate 14 '''' @ ecols))))))))))"

definition kafka_update_eVPN :: "'w kafka_env \<Rightarrow> kafka_config \<Rightarrow> nat \<Rightarrow> obj_bgp_peer \<Rightarrow> obj_evpn list \<Rightarrow> obj_path_attr option \<Rightarrow>
    vpn_action_code \<Rightarrow> 'w msgBus_kafka \<Rightarrow> 'w msgBus_kafka result" where
  "kafka_update_eVPN env cfg fuel peer vpns attr code k =
     andThen (route_context env peer attr k) (\<lambda>rc.
     andThen (rows_loop (evpn_row peer rc attr code) vpns (evpn_seq k) (0, '''')) (\<lambda>b.
       case b of
         None \<Rightarrow> Inr k
       | Some buf \<Rightarrow>
           case peer_entry (rc_p_hash rc) (k\<lparr>evpn_seq := evpn_seq k + of_nat (length vpns)\<rparr>) of (g, k) \<Rightarrow>
              produce env cfg fuel MSGBUS_TOPIC_VAR_EVPN MSGBUS_WORKING_BUF_SIZE buf (length buf) (length vpns) (rc_p_hash rc)
                (Some g) (peer_as peer) k))"

text \<open>The counters of a report as they lie in its memory.\<close>

definition stat_col :: "obj_stats_report \<Rightarrow> nat \<Rightarrow> nat \<Rightarrow> string" where
  "stat_col stats off n = dec_of_nat (le_val (take n (drop off stats)))"

definition kafka_add_StatReport :: "'w kafka_env \<Rightarrow> kafka_config \<Rightarrow> nat \<Rightarrow> obj_bgp_peer \<Rightarrow> obj_stats_report \<Rightarrow>
    'w msgBus_kafka \<Rightarrow> 'w msgBus_kafka result" where
  "kafka_add_StatReport env cfg fuel peer stats k =
     andThen (hash_toStr (peer_hash peer)) (\<lambda>p_hash_str.
     andThen (hash_toStr (router_hash_id peer)) (\<lambda>r_hash_str.
     let ts = getTimestamp env (timestamp_secs peer) (timestamp_us peer) (world k)
     in andThen (read_cstr 46 (Some (peer_addr peer))) (\<lambda>addr.
        let buf = snprintf 4096 (row_text ([''add'', num_col (bmp_stat_seq k), r_hash_str, c_str (k_router_ip k), p_hash_str, addr,
              num_col (peer_as peer), ts] @ map (\<lambda>i. stat_col stats (4 * i) 4) [0..<7] @ [stat_col stats 32 8, stat_col stats 40 8]))
        in case peer_entry p_hash_str k of (g, k) \<Rightarrow>
           andThen (produce env cfg fuel MSGBUS_TOPIC_VAR_BMP_STAT 4096 buf (length buf) 1 p_hash_str (Some g) (peer_as peer) k) (\<lambda>k.
             Inr (k\<lparr>bmp_stat_seq := bmp_stat_seq k + 1\<rparr>)))))"

section \<open>The connection invariant\<close>

lemma avoids_array_text [avoid]: "(\<And>s. P s) \<Longrightarrow> avoids NullDeref (array_text a) P"
  unfolding array_text_def by (intro avoid) simp

lemma avoids_strcat [avoid]: "(\<And>s. P s) \<Longrightarrow> avoids NullDeref (strcat cap d s') P"
  by (simp add: strcat_def)

lemma avoids_match_ip [avoid]: "(\<And>x. P x) \<Longrightarrow> avoids NullDeref (match_ip v4 e pfx) P"
  unfolding match_ip_def cut_word_def by (intro avoid) simp_all

lemma avoids_match_list: "avoids NullDeref (match_list v4 es pfx) (\<lambda>_. True)"
  by (induction es arbitrary: pfx) (simp_all, intro avoid, simp_all)

lemma avoids_group_by_ip: "avoids NullDeref (group_by_ip v4 gs pfx) (\<lambda>_. True)"
proof (induction gs arbitrary: pfx)
  case (Cons g gs)
  show ?case
    by (cases g; simp, intro avoids_andThen, rule avoids_mono [OF avoids_match_list]) (use Cons in \<open>auto split: prod.split\<close>)
qed simp

lemma avoids_lookup [avoid]:
  "(\<And>s. P s) \<Longrightarrow> avoids NullDeref (lookupRouterGroup re pton cfg h a) P"
  "(\<And>s. P s) \<Longrightarrow> avoids NullDeref (lookupPeerGroup re pton cfg h a n) P"
  unfolding lookupRouterGroup_def lookupPeerGroup_def
  by (intro avoid; simp add: avoids_mono [OF avoids_group_by_ip] split: option.split; fail)+

lemma kafka_inv_data:
  "kafka_inv (k\<lparr>collector_seq := n\<rparr>) = kafka_inv k" "kafka_inv (k\<lparr>router_seq := n\<rparr>) = kafka_inv k"
  "kafka_inv (k\<lparr>peer_seq := n\<rparr>) = kafka_inv k" "kafka_inv (k\<lparr>base_attr_seq := n\<rparr>) = kafka_inv k"
  "kafka_inv (k\<lparr>unicast_prefix_seq := n\<rparr>) = kafka_inv k" "kafka_inv (k\<lparr>bmp_stat_seq := n\<rparr>) = kafka_inv k"
  "kafka_inv (k\<lparr>ls_node_seq := n\<rparr>) = kafka_inv k" "kafka_inv (k\<lparr>ls_link_seq := n\<rparr>) = kafka_inv k"
  "kafka_inv (k\<lparr>ls_prefix_seq := n\<rparr>) = kafka_inv k" "kafka_inv (k\<lparr>l3vpn_seq := n\<rparr>) = kafka_inv k"
  "kafka_inv (k\<lparr>evpn_seq := n\<rparr>) = kafka_inv k" "kafka_inv (k\<lparr>k_ribSeq := n\<rparr>) = kafka_inv k"
  "kafka_inv (k\<lparr>peer_list := m\<rparr>) = kafka_inv k" "kafka_inv (k\<lparr>k_router_ip := s\<rparr>) = kafka_inv k"
  "kafka_inv (k\<lparr>k_router_hash := h\<rparr>) = kafka_inv k" "kafka_inv (k\<lparr>router_group_name := s\<rparr>) = kafka_inv k"
  by (simp_all add: kafka_inv_def)

declare kafka_inv_data [simp]

lemma peer_entry_inv [simp]: "kafka_inv (snd (peer_entry h k)) = kafka_inv k"
  by (simp add: peer_entry_def split: option.split)

lemma avoids_produce [avoid]:
  "kafka_inv k \<Longrightarrow> (\<And>k'. kafka_inv k' \<Longrightarrow> P k') \<Longrightarrow> avoids NullDeref (produce env cfg fuel v cap msg n rows key g a k) P"
  by (rule avoids_mono [OF produce_link]) (auto simp: link_step_def)

lemma avoids_peer_entry [avoid]:
  "(\<And>g k'. kafka_inv k' = kafka_inv k \<Longrightarrow> avoids e (f g k') P) \<Longrightarrow> avoids e (case peer_entry h k of (g, k') \<Rightarrow> f g k') P"
  using peer_entry_inv [of h k] by (cases "peer_entry h k") simp

lemma Collector_inv: "kafka_inv k \<Longrightarrow> avoids NullDeref (kafka_update_Collector env cfg fuel c code k) kafka_inv"
  unfolding kafka_update_Collector_def  by (intro avoid) simp_all

lemma Router_inv: "kafka_inv k \<Longrightarrow> avoids NullDeref (kafka_update_Router env cfg fuel r code k) (\<lambda>(_, k'). kafka_inv k')"
  unfolding kafka_update_Router_def  by (intro avoid) simp_all

lemma peer_row_avoids [avoid]:
  "(\<And>s. P s) \<Longrightarrow> avoids NullDeref (peer_row up down code (peer_cols x1 x2 x3 x4 x5 x6 x7 peer) peer) P"
  unfolding peer_row_def peer_cols_def up_cols_def down_cols_def
  by (cases code; simp only: peer_action_code.case; intro avoid; simp)

lemma Peer_inv: "kafka_inv k \<Longrightarrow> avoids NullDeref (kafka_update_Peer env cfg fuel peer up down code k) (\<lambda>(_, k'). kafka_inv k')"
  unfolding kafka_update_Peer_def  peer_hash_of_def by (intro avoid) simp_all

lemma attr_cols_avoids [avoid]:
  "(\<And>s. P s) \<Longrightarrow> avoids NullDeref (attr_cols a) P" "(\<And>s. P s) \<Longrightarrow> avoids BufferOverflow (attr_cols a) P"
  unfolding attr_cols_def by (intro avoid; simp)+

lemma baseAttribute_inv:
  "kafka_inv k \<Longrightarrow> avoids NullDeref (kafka_update_baseAttribute env cfg fuel peer attr k) (\<lambda>(_, k'). kafka_inv k')"
  unfolding kafka_update_baseAttribute_def  path_hash_of_def by (intro avoid) simp_all

lemma route_context_avoids [avoid]: "(\<And>s. P s) \<Longrightarrow> avoids NullDeref (route_context env peer attr k) P"
  unfolding route_context_def by (intro avoid) simp_all

lemma cat_row_avoids [avoid]: "(\<And>b. P b) \<Longrightarrow> avoids NullDeref (cat_row cap r b) P"
  unfolding cat_row_def  by (intro avoid) simp_all

lemma rows_loop_avoids:
  assumes "\<And>e seq. avoids NullDeref (row e seq) (\<lambda>_. True)" "\<And>b. P b"
  shows "avoids NullDeref (rows_loop row es seq b) P"
proof (induction es arbitrary: seq b)
  case Nil
  then show ?case using assms(2) by (cases b) simp
next
  case (Cons e es)
  show ?case unfolding rows_loop.simps
    by (intro avoids_andThen, rule avoids_mono [OF assms(1)]) (intro avoid Cons.IH assms(2); simp)
qed

lemma route_rows_avoid_faults:
  assumes "e = NullDeref \<or> e = BufferOverflow"
  shows "avoids e (rib_row peer rc attr ucode r seq) (\<lambda>_. True)" "avoids e (vpn_row peer rc attr vcode v seq) (\<lambda>_. True)"
    "avoids e (evpn_row peer rc attr vcode x seq) (\<lambda>_. True)"
  unfolding rib_row_def vpn_row_def evpn_row_def route_cols_def rd_cols_def evpn_cols_def
  by (insert assms; elim disjE; hypsubst; cases ucode; cases vcode; simp only: unicast_prefix_action_code.case vpn_action_code.case; intro avoid; simp)+

lemmas route_rows_avoid = route_rows_avoid_faults [of NullDeref, simplified]

lemma route_methods_inv:
  assumes "kafka_inv k"
  shows "avoids NullDeref (kafka_update_unicastPrefix env cfg fuel peer rib attr ucode k) kafka_inv"
    "avoids NullDeref (kafka_update_L3Vpn env cfg fuel peer v attr vcode k) kafka_inv"
    "avoids NullDeref (kafka_update_eVPN env cfg fuel peer x attr vcode k) kafka_inv"
  unfolding kafka_update_unicastPrefix_def kafka_update_L3Vpn_def kafka_update_eVPN_def
  by (intro avoid rows_loop_avoids route_rows_avoid; use assms in simp)+

lemma StatReport_inv: "kafka_inv k \<Longrightarrow> avoids NullDeref (kafka_add_StatReport env cfg fuel peer st k) kafka_inv"
  unfolding kafka_add_StatReport_def  by (intro avoid) simp_all

section \<open>Reading a message back\<close>

text \<open>
  The consumer's side: the lines of a payload are the five lines of the header, an empty line and one line per row,
  whose columns are separated by tabs.
\<close>

fun split_on :: "char \<Rightarrow> string \<Rightarrow> string list" where
  "split_on c [] = [[]]"
| "split_on c (x # s) = (if x = c then [] # split_on c s else (x # hd (split_on c s)) # tl (split_on c s))"

definition message_header :: "string \<Rightarrow> string list" where
  "message_header payload = take 5 (split_on (CHR 0x0A) payload)"

definition message_columns :: "string \<Rightarrow> string list list" where
  "message_columns payload = map (split_on (CHR 0x09)) (butlast (drop 6 (split_on (CHR 0x0A) payload)))"

lemma split_on_nonempty [simp]: "split_on c s \<noteq> []"
  by (cases s) auto

lemma split_on_field: "c \<notin> set f \<Longrightarrow> split_on c (f @ c # s) = f # split_on c s"
  by (induction f) auto

lemma split_on_last: "c \<notin> set f \<Longrightarrow> split_on c f = [f]"
  by (induction f) auto

lemma split_join_tab: "cols \<noteq> [] \<Longrightarrow> list_all plain cols \<Longrightarrow> split_on (CHR 0x09) (join_tab cols) = cols"
  by (induction cols rule: join_tab.induct) (auto simp: plain_def split_on_field split_on_last)

lemma join_tab_lines: "list_all plain cols \<Longrightarrow> CHR 0x0A \<notin> set (join_tab cols) \<and> CHR 0x00 \<notin> set (join_tab cols)"
  by (induction cols rule: join_tab.induct) (auto simp: plain_def)

lemma split_rows: "list_all (list_all plain) rows \<Longrightarrow> split_on (CHR 0x0A) (concat (map row_text rows)) = map join_tab rows @ [[]]"
  by (induction rows) (auto simp: row_text_def split_on_field join_tab_lines)

lemma message_read:
  assumes "plain c_hash" "v \<in> set topic_var_list" "list_all (\<lambda>cols. cols \<noteq> [] \<and> list_all plain cols) rows"
  shows "message_columns (produce_header c_hash v n m @ concat (map row_text rows)) = rows"
    "message_header (produce_header c_hash v n m @ concat (map row_text rows)) =
       [''V: 1.7'', ''C_HASH_ID: '' @ c_hash, ''T: '' @ v, ''L: '' @ dec_of_nat n, ''R: '' @ dec_of_nat m]"
proof -
  let ?h = "[''V: 1.7'', ''C_HASH_ID: '' @ c_hash, ''T: '' @ v, ''L: '' @ dec_of_nat n, ''R: '' @ dec_of_nat m, '''']"
  have join: "produce_header c_hash v n m = concat (map (\<lambda>l. l @ [CHR 0x0A]) ?h)"
    using assms(1) by (simp add: produce_header_def MSGBUS_API_VERSION_def)
  have "list_all plain ?h" using assms(1) topic_var_short [OF assms(2)] by simp
  then have split: "split_on (CHR 0x0A) (concat (map (\<lambda>l. l @ [CHR 0x0A]) ls) @ s) = ls @ split_on (CHR 0x0A) s" if "list_all plain ls" for ls s
    using that by (induction ls) (auto simp: plain_def split_on_field)
  from assms(3) have "list_all (list_all plain) rows" by (simp add: list_all_iff)
  note lines = split [OF \<open>list_all plain ?h\<close>, of "concat (map row_text rows)", unfolded split_rows [OF this], folded join]
  have "map (split_on (CHR 0x09) \<circ> join_tab) rows = rows"
    using assms(3) by (induction rows) (auto simp: split_join_tab)
  then show "message_columns (produce_header c_hash v n m @ concat (map row_text rows)) = rows"
    unfolding message_columns_def lines by (simp add: butlast_append)
  show "message_header (produce_header c_hash v n m @ concat (map row_text rows)) =
       [''V: 1.7'', ''C_HASH_ID: '' @ c_hash, ''T: '' @ v, ''L: '' @ dec_of_nat n, ''R: '' @ dec_of_nat m]"
    unfolding message_header_def lines by simp
qed

section \<open>The collected rows\<close>

text \<open>The rows of the loop while they fit, and in any case: never more than the buffer holds.\<close>

lemma cat_row_run:
  assumes "length r < cap2" "CHR 0x00 \<notin> set r" "n + length r < MSGBUS_WORKING_BUF_SIZE" "length b \<le> n"
  shows "cat_row cap2 r (n, b) = Inr (n + length r, b @ r)"
  using assms by (simp add: cat_row_def snprintf_text strcat_def)

lemma rows_loop_run:
  assumes "length ts = length es" "\<And>i. i < length es \<Longrightarrow> row (es ! i) (seq + of_nat i) = Inr (Some (ts ! i))"
    "\<forall>t\<in>set ts. length t < 80000 \<and> CHR 0x00 \<notin> set t" "n + sum_list (map length ts) < MSGBUS_WORKING_BUF_SIZE" "length b \<le> n"
  shows "rows_loop row es seq (n, b) = Inr (Some (b @ concat ts))"
  using assms
proof (induction es arbitrary: ts seq n b)
  case (Cons e es)
  then obtain t ts' where ts: "ts = t # ts'" by (cases ts) auto
  have "row e seq = Inr (Some t)" using Cons.prems(2) [of 0] by (simp add: ts)
  moreover have "cat_row 80000 t (n, b) = Inr (n + length t, b @ t)"
    using Cons.prems(3,4,5) by (intro cat_row_run) (simp_all add: ts)
  moreover have "rows_loop row es (seq + 1) (n + length t, b @ t) = Inr (Some ((b @ t) @ concat ts'))"
  proof (rule Cons.IH)
    fix i assume "i < length es"
    then show "row (es ! i) (seq + 1 + of_nat i) = Inr (Some (ts' ! i))"
      using Cons.prems(2) [of "Suc i"] by (simp add: ts ac_simps)
  qed (use Cons.prems in \<open>simp_all add: ts\<close>)
  ultimately show ?case by (simp add: ts)
qed simp

lemma rows_loop_bounds:
  assumes "\<And>e seq. avoids BufferOverflow (row e seq) (\<lambda>_. True)" "length b \<le> n" "length b < MSGBUS_WORKING_BUF_SIZE"
  shows "avoids BufferOverflow (rows_loop row es seq (n, b)) (\<lambda>b. case b of None \<Rightarrow> True | Some b \<Rightarrow> length b < MSGBUS_WORKING_BUF_SIZE)"
  using assms(2,3)
proof (induction es arbitrary: seq n b)
  case (Cons e es)
  have cat: "avoids BufferOverflow (cat_row 80000 r (n, b)) (\<lambda>(n', b'). length b' \<le> n' \<and> length b' < MSGBUS_WORKING_BUF_SIZE)" for r
  proof -
    have "length (snprintf 80000 r) \<le> length r"
      using length_takeWhile_le [of "\<lambda>c. c \<noteq> CHR 0x00" r] by (simp add: snprintf_def c_str_def)
    then show ?thesis using Cons.prems by (simp add: cat_row_def strcat_def Let_def)
  qed
  show ?case unfolding rows_loop.simps
  proof (intro avoids_andThen, rule avoids_mono [OF assms(1)], intro avoids_case_option avoids_andThen)
    fix r
    show "avoids BufferOverflow (cat_row 80000 r (n, b)) (\<lambda>x. avoids BufferOverflow (rows_loop row es (seq + 1) x)
        (\<lambda>b. case b of None \<Rightarrow> True | Some b \<Rightarrow> length b < MSGBUS_WORKING_BUF_SIZE))"
      by (rule avoids_mono [OF cat]) (auto intro: Cons.IH)
  qed simp
qed simp

section \<open>The message of a list of routes\<close>

abbreviation hex_text :: "bytes \<Rightarrow> string" where
  "hex_text bs \<equiv> concat (map hex2 bs)"

text \<open>A connected bus with a topic for the variable, and a client library that takes the message.\<close>

definition takes_message :: "'w kafka_env \<Rightarrow> kafka_config \<Rightarrow> string \<Rightarrow> string \<Rightarrow> string option \<Rightarrow> u32 \<Rightarrow> string \<Rightarrow> 'w msgBus_kafka \<Rightarrow> bool" where
  "takes_message env cfg v key g a name k \<longleftrightarrow>
     kafka_inv k \<and> isConnected k \<and> topicEnabled (topic_cfg cfg) v \<and> v \<in> set topic_var_list \<and> plain (collector_hash k) \<and>
     length (collector_hash k) \<le> 32 \<and>
     (\<exists>sel sel'. topicSel k = Some sel \<and>
        getTopic (topic_cfg cfg) (topic_conf_set_cb env (world k)) (topic_create env (world k)) v (Some (router_group_name k)) g a sel =
          Inr (name, sel')) \<and>
     (\<forall>payload. fst (producer_produce env name key payload (world k)))"

lemma takes_message_peer_list [simp]: "takes_message env cfg v key g a name (k\<lparr>peer_list := m\<rparr>) = takes_message env cfg v key g a name k"
  by (simp add: takes_message_def)

lemma produce_taken:
  assumes "kafka_log env log" "takes_message env cfg v key g a name k" "length msg \<le> cap" "length msg + 150 \<le> MSGBUS_WORKING_BUF_SIZE" "rows < 2 ^ 64"
  obtains k' where "produce env cfg fuel v cap msg (length msg) rows key g a k = Inr k'" "bus_data k' = bus_data k"
    "log (world k') = log (world k) @ [(name, key, produce_header (collector_hash k) v (length msg) rows @ msg)]"
proof -
  let ?p = "produce_header (collector_hash k) v (length msg) rows @ msg"
  from assms(2) obtain sel sel' where sel: "topicSel k = Some sel"
    "getTopic (topic_cfg cfg) (topic_conf_set_cb env (world k)) (topic_create env (world k)) v (Some (router_group_name k)) g a sel = Inr (name, sel')"
    by (auto simp: takes_message_def)
  from assms(2) obtain w where w: "producer_produce env name key ?p (world k) = (True, w)"
    unfolding takes_message_def by (metis (full_types) prod.collapse)
  have "producer k" using assms(2) by (auto simp: takes_message_def kafka_inv_def)
  note run = produce_run [of k sel cfg v msg cap rows env fuel key g a]
  from kafka_log.hand_over_run [OF assms(1) \<open>producer k\<close> sel(2) w] obtain k' where
    "hand_over env cfg v key g a ?p sel k = Inr k'" "log (world k') = log (world k) @ [(name, key, ?p)]" "bus_data k' = bus_data k"
    by (metis (full_types))
  with run sel(1) assms show thesis by (intro that [of k']) (auto simp: takes_message_def)
qed

lemma hash_text:
  "\<forall>x\<in>set chunks. length x < 2 ^ 32 \<Longrightarrow> hash_toStr (hash_of chunks) = Inr (hex_text (md5_spec (concat chunks)))"
  by (simp add: hash_toStr_run length_hash_of hash_of_spec length_md5_spec)

lemma length_text_bytes [simp]: "length (text_bytes s) = length s"
  by (simp add: text_bytes_def)

lemma flag_col_plain [simp]: "plain (flag_col b)"
  by (simp add: flag_col_def)

lemma num_col_plain [simp]: "plain (num_col n)"
  by (simp add: num_col_def)

lemma plain_pad [simp]: "plain (pad_dec w n)"
  by (simp add: pad_dec_def plain_def) (use plain_dec [of n] in \<open>auto simp: plain_def\<close>)

lemma plain_timestamp [simp]: "plain (getTimestamp env s u w)"
  by (simp add: getTimestamp_def time_text_def split: prod.split)

text \<open>The entries and attributes whose texts can be put into columns.\<close>

definition rib_plain :: "obj_rib \<Rightarrow> bool" where
  "rib_plain r \<longleftrightarrow> length (rib_prefix r) < 46 \<and> plain (rib_prefix r) \<and> length (rib_labels r) < 255 \<and> plain (rib_labels r)"

definition peer_plain :: "obj_bgp_peer \<Rightarrow> bool" where
  "peer_plain peer \<longleftrightarrow> length (peer_hash peer) = 16 \<and> length (router_hash_id peer) = 16 \<and> length (peer_addr peer) < 46 \<and> plain (peer_addr peer)"

text \<open>The texts that depend on the action: its name, the hash of the path, the columns of the attributes, the large communities.\<close>

inductive action_texts :: "unicast_prefix_action_code \<Rightarrow> obj_path_attr option \<Rightarrow> string \<Rightarrow> string \<Rightarrow> string list \<Rightarrow> string \<Rightarrow> bool" where
  add: "attr_hash_id a = Some h \<Longrightarrow> length h = 16 \<Longrightarrow> attr_cols a = Inr acols \<Longrightarrow> list_all plain acols \<Longrightarrow> plain (large_community_list a) \<Longrightarrow>
    action_texts UNICAST_PREFIX_ACTION_ADD (Some a) ''add'' (hex_text h) acols (large_community_list a)"
| del: "action_texts UNICAST_PREFIX_ACTION_DEL None ''del'' '''' (replicate 14 '''') ''''"

inductive_cases action_addE: "action_texts UNICAST_PREFIX_ACTION_ADD attr action path acols large"

inductive_cases action_delE: "action_texts UNICAST_PREFIX_ACTION_DEL attr action path acols large"

lemma action_texts_plain: "action_texts code attr action path acols large \<Longrightarrow> plain action \<and> plain path \<and> list_all plain acols \<and> plain large"
  by (induction rule: action_texts.induct) (simp_all add: list_all_iff)

definition rib_hash_input :: "obj_rib \<Rightarrow> string \<Rightarrow> bytes" where
  "rib_hash_input r p_hash = text_bytes (rib_prefix r) @ [rib_prefix_len r] @ text_bytes p_hash @
     (if rib_path_id r > 0 then mem32 (rib_path_id r) else []) @ (if rib_labels r \<noteq> [] then [1] else [])"

lemma rib_row_run:
  assumes "action_texts code attr action path acols large" "rib_plain r" "peer_plain peer" "length (rc_p_hash rc) = 32"
    "attr \<noteq> None \<Longrightarrow> rc_path_hash rc = path"
  shows "rib_row peer rc attr code r seq = Inr (Some (row_text (
     [action, num_col seq, hex_text (md5_spec (rib_hash_input r (rc_p_hash rc))), rc_r_hash rc, rc_router_ip rc, path, rc_p_hash rc,
      peer_addr peer, num_col (peer_as peer), rc_ts rc, rib_prefix r, num_col (rib_prefix_len r), flag_col (rib_isIPv4 r)] @ acols @
     [num_col (rib_path_id r), rib_labels r, flag_col (isPrePolicy peer), flag_col (isAdjIn peer), large])))"
proof -
  have "hash_toStr (hash_of ([text_bytes (rib_prefix r), [rib_prefix_len r], text_bytes (rc_p_hash rc)] @
        path_id_chunk (rib_path_id r) @ label_chunk (rib_labels r))) = Inr (hex_text (md5_spec (rib_hash_input r (rc_p_hash rc))))"
    using assms(2,4) by (subst hash_text) (auto simp: path_id_chunk_def label_chunk_def mem32_def rib_plain_def rib_hash_input_def del: be_bytes_numeral)
  with assms show ?thesis
    by (cases code) (auto elim!: action_addE action_delE simp: rib_row_def rib_plain_def peer_plain_def route_cols_def)
qed

text \<open>The columns of the rows of a list of routes.\<close>

definition rib_rows :: "'w msgBus_kafka \<Rightarrow> obj_bgp_peer \<Rightarrow> obj_rib list \<Rightarrow> string \<Rightarrow> string \<Rightarrow> string list \<Rightarrow> string \<Rightarrow> string \<Rightarrow> string list list" where
  "rib_rows k peer rib action path acols large ts = map (\<lambda>i. let r = rib ! i; p_hash = hex_text (peer_hash peer) in
     [action, num_col (unicast_prefix_seq k + of_nat i), hex_text (md5_spec (rib_hash_input r p_hash)), hex_text (router_hash_id peer),
      k_router_ip k, path, p_hash, peer_addr peer, num_col (peer_as peer), ts, rib_prefix r, num_col (rib_prefix_len r),
      flag_col (rib_isIPv4 r)] @ acols @ [num_col (rib_path_id r), rib_labels r, flag_col (isPrePolicy peer), flag_col (isAdjIn peer), large])
     [0..<length rib]"

lemma unicast_rows:
  assumes "action_texts code attr action path acols large" "list_all rib_plain rib" "peer_plain peer" "plain (k_router_ip k)"
      "ts = getTimestamp env (timestamp_secs peer) (timestamp_us peer) (world k)" "rows = rib_rows k peer rib action path acols large ts"
    and fits: "\<forall>row\<in>set rows. length (row_text row) < 80000" "length (concat (map row_text rows)) < MSGBUS_WORKING_BUF_SIZE"
  obtains rc where "route_context env peer attr k = Inr rc" "rc_p_hash rc = hex_text (peer_hash peer)"
    "rows_loop (rib_row peer rc attr code) rib (unicast_prefix_seq k) (0, '''') = Inr (Some (concat (map row_text rows)))"
    "list_all (\<lambda>cols. cols \<noteq> [] \<and> list_all plain cols) rows" "length rows = length rib" "length rib < 2 ^ 64"
proof
  let ?rc = "\<lparr>rc_r_hash = hex_text (router_hash_id peer), rc_path_hash = path, rc_p_hash = hex_text (peer_hash peer), rc_router_ip = k_router_ip k, rc_ts = ts\<rparr>"
  note rows = assms(6) [unfolded rib_rows_def]
  show "route_context env peer attr k = Inr ?rc"
    using assms(1,3,4,5) by (auto elim!: action_texts.cases simp: route_context_def peer_plain_def hash_toStr_run)
  show "rc_p_hash ?rc = hex_text (peer_hash peer)" by simp
  have row: "rib_row peer ?rc attr code (rib ! i) (unicast_prefix_seq k + of_nat i) = Inr (Some (map row_text rows ! i))" if "i < length rib" for i
    using that rib_row_run [OF assms(1) _ assms(3), of "rib ! i" ?rc] assms(2,3)
    by (simp add: rows list_all_length Let_def peer_plain_def)
  show plain_rows: "list_all (\<lambda>cols. cols \<noteq> [] \<and> list_all plain cols) rows"
    using action_texts_plain [OF assms(1)] assms(2) [unfolded list_all_length] assms(3,4,5)
    by (auto simp: rows list_all_iff rib_plain_def peer_plain_def Let_def)
  then have "\<forall>t\<in>set (map row_text rows). length t < 80000 \<and> CHR 0x00 \<notin> set t"
    using fits(1) by (auto simp: list_all_iff row_text_def dest: join_tab_lines [unfolded list_all_iff])
  then show "rows_loop (rib_row peer ?rc attr code) rib (unicast_prefix_seq k) (0, '''') = Inr (Some (concat (map row_text rows)))"
    using rows_loop_run [of "map row_text rows" rib "rib_row peer ?rc attr code" "unicast_prefix_seq k" 0 "''''"] row fits(2)
    by (simp add: rows length_concat)
  show len: "length rows = length rib" by (simp add: rows)
  have "length rows \<le> sum_list (map (\<lambda>r. length (row_text r)) rows)" by (induction rows) (auto simp: row_text_def)
  then show "length rib < 2 ^ 64" using fits(2) len by (simp add: length_concat comp_def MSGBUS_WORKING_BUF_SIZE_def)
qed

lemma unicast_message:
  assumes "kafka_log env log" "takes_message env cfg MSGBUS_TOPIC_VAR_UNICAST_PREFIX p_hash (Some g) (peer_as peer) name k"
      "action_texts code attr action path acols large" "list_all rib_plain rib" "peer_plain peer" "plain (k_router_ip k)"
      "p_hash = hex_text (peer_hash peer)" "g = (case peer_list k p_hash of None \<Rightarrow> '''' | Some g \<Rightarrow> g)"
      "ts = getTimestamp env (timestamp_secs peer) (timestamp_us peer) (world k)" "rows = rib_rows k peer rib action path acols large ts"
    and fits: "\<forall>row\<in>set rows. length (row_text row) < 80000" "length (concat (map row_text rows)) + 150 \<le> MSGBUS_WORKING_BUF_SIZE"
  shows "\<exists>k' payload. kafka_update_unicastPrefix env cfg fuel peer rib attr code k = Inr k' \<and>
    log (world k') = log (world k) @ [(name, p_hash, payload)] \<and> message_columns payload = rows \<and>
    message_header payload = [''V: 1.7'', ''C_HASH_ID: '' @ collector_hash k, ''T: unicast_prefix'',
      ''L: '' @ dec_of_nat (length (concat (map row_text rows))), ''R: '' @ dec_of_nat (length rib)] \<and>
    unicast_prefix_seq k' = unicast_prefix_seq k + of_nat (length rib) \<and> k_ribSeq k' = k_ribSeq k + of_nat (length rib)"
proof -
  let ?msg = "concat (map row_text rows)"
  obtain rc where rc: "route_context env peer attr k = Inr rc" "rc_p_hash rc = p_hash"
    "rows_loop (rib_row peer rc attr code) rib (unicast_prefix_seq k) (0, '''') = Inr (Some ?msg)"
    "list_all (\<lambda>cols. cols \<noteq> [] \<and> list_all plain cols) rows" "length rib < 2 ^ 64"
    using unicast_rows [OF assms(3,4,5,6,9,10) fits(1)] fits(2) assms(7) by (auto simp: MSGBUS_WORKING_BUF_SIZE_def)
  let ?k = "k\<lparr>unicast_prefix_seq := unicast_prefix_seq k + of_nat (length rib), k_ribSeq := k_ribSeq k + of_nat (length rib)\<rparr>"
  define k2 where "k2 = snd (peer_entry p_hash ?k)"
  have entry: "peer_entry p_hash ?k = (g, k2)" by (simp add: k2_def peer_entry_def assms(8) split: option.split)
  have k2: "takes_message env cfg MSGBUS_TOPIC_VAR_UNICAST_PREFIX p_hash (Some g) (peer_as peer) name k2" "world k2 = world k"
      "collector_hash k2 = collector_hash k" "unicast_prefix_seq k2 = unicast_prefix_seq ?k" "k_ribSeq k2 = k_ribSeq ?k"
    using assms(2) by (simp_all add: k2_def peer_entry_def takes_message_def split: option.split)
  have var: "MSGBUS_TOPIC_VAR_UNICAST_PREFIX \<in> set topic_var_list" "plain (collector_hash k)" using assms(2) by (auto simp: takes_message_def)
  obtain k' where k': "produce env cfg fuel MSGBUS_TOPIC_VAR_UNICAST_PREFIX MSGBUS_WORKING_BUF_SIZE ?msg (length ?msg) (length rib) p_hash
      (Some g) (peer_as peer) k2 = Inr k'" "bus_data k' = bus_data k2"
      "log (world k') = log (world k2) @ [(name, p_hash, produce_header (collector_hash k2) MSGBUS_TOPIC_VAR_UNICAST_PREFIX (length ?msg) (length rib) @ ?msg)]"
    by (rule produce_taken [OF assms(1) k2(1), where msg = ?msg and cap = MSGBUS_WORKING_BUF_SIZE and rows = "length rib" and fuel = fuel])
      (use fits(2) rc(5) in auto)
  have "kafka_update_unicastPrefix env cfg fuel peer rib attr code k = Inr k'"
    using k'(1) by (simp add: kafka_update_unicastPrefix_def rc entry Let_def)
  moreover have "unicast_prefix_seq k' = unicast_prefix_seq k2" "k_ribSeq k' = k_ribSeq k2" using k'(2) by (simp_all add: bus_data_def)
  ultimately show ?thesis using k'(3) k2 message_read [OF var(2,1) rc(4)]
    by (intro exI [of _ k'] exI conjI) (simp_all add: MSGBUS_TOPIC_VAR_UNICAST_PREFIX_def)
qed


definition connected_bus :: "mem_broker msgBus_kafka" where
  "connected_bus = (sample_bus [])\<lparr>producer := True, isConnected := True, topicSel := Some new_topic_sel\<rparr>"

lemma connected_bus_takes:
  assumes "v \<in> set topic_var_list"
  shows "takes_message mem_kafka sample_kafka_cfg v key g a (''openbmp.'' @ v) connected_bus"
proof -
  from sample_topic [OF assms] obtain sel where
    "getTopic (topic_cfg sample_kafka_cfg) True (\<lambda>_. True) v (Some (router_group_name connected_bus)) g a new_topic_sel = Inr (''openbmp.'' @ v, sel)"
    by blast
  then show ?thesis using assms
    by (simp add: takes_message_def connected_bus_def kafka_inv_def) (simp add: sample_bus_def)
qed

definition kafka_peer :: obj_bgp_peer where
  "kafka_peer = zero_peer\<lparr>peer_addr := ''192.0.2.7'', peer_as := 65001, timestamp_secs := 1005, timestamp_us := 7, isAdjIn := True\<rparr>"

definition kafka_route :: obj_rib where
  "kafka_route = new_rib\<lparr>rib_prefix := ''10.0.0.0'', rib_prefix_len := 8, rib_isIPv4 := True\<rparr>"

definition kafka_attr :: obj_path_attr where
  "kafka_attr = \<lparr>attr_hash_id = Some (replicate 16 1), origin = Some ''igp'', as_path = '' 65001'', as_path_count = Some 1,
     origin_as = Some 65001, nexthop_isIPv4 = Some True, attr_next_hop = Some ''192.0.2.7'', aggregator = Some '''', atomic_agg = Some False,
     med = Some 0, local_pref = Some 100, community_list = '''', ext_community_list = '''', large_community_list = '''',
     cluster_list = '''', originator_id = Some ''''\<rparr>"

lemma kafka_attr_cols:
  "attr_cols kafka_attr = Inr [''igp'', '' 65001'', ''1'', ''65001'', ''192.0.2.7'', ''0'', ''100'', '''', '''', '''', '''', ''0'', ''1'', '''']"
  by (simp add: attr_cols_def kafka_attr_def flag_col_def) (simp add: num_col_def dec_of_nat.simps c_str_def)

lemma kafka_peer_time: "getTimestamp env (timestamp_secs kafka_peer) (timestamp_us kafka_peer) w = ''1970-01-01 00:16:45.000007''"
proof -
  have digits: "dec_of_nat 0 = ''0''" "dec_of_nat 1 = ''1''" "dec_of_nat 7 = ''7''" "dec_of_nat 16 = ''16''" "dec_of_nat 45 = ''45''" "dec_of_nat 1970 = ''1970''"
    by (simp_all add: dec_of_nat.simps)
  have pads: "pad_dec 2 0 = ''00''" "pad_dec 2 1 = ''01''" "pad_dec 2 16 = ''16''" "pad_dec 2 45 = ''45''" "pad_dec 6 7 = ''000007''"
    unfolding pad_dec_def digits by (simp_all add: eval_nat_numeral)
  have "gm_year 1970 0 = (1970, 0)" by (simp add: gm_year.simps [of 1970 0] year_days_def)
  moreover have "gm_month (month_days 1970) 1 0 = (1, 0)" by (simp add: month_days_def)
  ultimately show ?thesis by (simp add: kafka_peer_def getTimestamp_def time_text_def pads pads [unfolded One_nat_def] digits)
qed


text \<open>
  C37. Both buffers have 1800000 bytes, and the header takes up to 150 of them: a list of routes whose rows all fit into
  the first buffer, but leave less room than the header needs, is written past the end of the producer buffer.
\<close>

theorem kafka_producer_overflow:
  assumes "takes_message env cfg MSGBUS_TOPIC_VAR_UNICAST_PREFIX p_hash (Some g) (peer_as peer) name k"
      "action_texts code attr action path acols large" "list_all rib_plain rib" "peer_plain peer" "plain (k_router_ip k)"
      "p_hash = hex_text (peer_hash peer)" "length (collector_hash k) = 32"
      "ts = getTimestamp env (timestamp_secs peer) (timestamp_us peer) (world k)" "rows = rib_rows k peer rib action path acols large ts"
    and fits: "\<forall>row\<in>set rows. length (row_text row) < 80000" "length (concat (map row_text rows)) < MSGBUS_WORKING_BUF_SIZE"
    and much: "MSGBUS_WORKING_BUF_SIZE - 70 \<le> length (concat (map row_text rows))"
  shows "kafka_update_unicastPrefix env cfg fuel peer rib attr code k = Inl BufferOverflow"
proof -
  let ?msg = "concat (map row_text rows)"
  obtain rc where rc: "route_context env peer attr k = Inr rc" "rc_p_hash rc = p_hash"
    "rows_loop (rib_row peer rc attr code) rib (unicast_prefix_seq k) (0, '''') = Inr (Some ?msg)" "length rib < 2 ^ 64"
    using unicast_rows [OF assms(2,3,4,5,8,9) fits] assms(6) by auto
  let ?k = "k\<lparr>unicast_prefix_seq := unicast_prefix_seq k + of_nat (length rib), k_ribSeq := k_ribSeq k + of_nat (length rib)\<rparr>"
  obtain g' k2 where entry: "peer_entry p_hash ?k = (g', k2)" by fastforce
  then have k2: "kafka_inv k2" "isConnected k2" "topicSel k2 \<noteq> None" "collector_hash k2 = collector_hash k"
    using assms(1) by (auto simp: peer_entry_def takes_message_def split: option.splits)
  then obtain sel where sel: "topicSel k2 = Some sel" by auto
  let ?h = "produce_header (collector_hash k) MSGBUS_TOPIC_VAR_UNICAST_PREFIX (length ?msg) (length rib)"
  have t: "topicEnabled (topic_cfg cfg) MSGBUS_TOPIC_VAR_UNICAST_PREFIX" "MSGBUS_TOPIC_VAR_UNICAST_PREFIX \<in> set topic_var_list" "plain (collector_hash k)"
    using assms(1) by (auto simp: takes_message_def)
  have n: "length ?msg < 2 ^ 64" using fits(2) by (simp add: MSGBUS_WORKING_BUF_SIZE_def)
  have short: "length ?h < 150" "CHR 0x00 \<notin> set ?h"
    using produce_header_short [OF t(2,3) _ n rc(4)] assms(7) by simp_all
  have "length (dec_of_nat m) \<ge> 1" for m using dec_of_nat_nonempty [of m] by (cases "dec_of_nat m") auto
  from this [of "length ?msg"] this [of "length rib"] have long: "length ?h > 70"
    using t(3) assms(7) by (simp add: produce_header_def MSGBUS_API_VERSION_def MSGBUS_TOPIC_VAR_UNICAST_PREFIX_def)
  have "produce env cfg fuel MSGBUS_TOPIC_VAR_UNICAST_PREFIX MSGBUS_WORKING_BUF_SIZE ?msg (length ?msg) (length rib) p_hash (Some g') (peer_as peer) k2 =
      Inl BufferOverflow"
    using short long much fits(2) t(1) sel k2
    by (simp add: produce_def reconnect_connected snprintf_text array_read_fits memcpy_to_def Let_def MSGBUS_WORKING_BUF_SIZE_def)
  then show ?thesis by (simp add: kafka_update_unicastPrefix_def rc entry Let_def)
qed

theorem kafka_producer_overflow_witness:
  "kafka_update_unicastPrefix mem_kafka sample_kafka_cfg 0 kafka_peer (replicate 25 kafka_route)
     (Some (kafka_attr\<lparr>as_path := replicate 71748 (CHR ''1'')\<rparr>)) UNICAST_PREFIX_ACTION_ADD connected_bus = Inl BufferOverflow"
proof -
  let ?attr = "kafka_attr\<lparr>as_path := replicate 71748 (CHR ''1'')\<rparr>" and ?ts = "''1970-01-01 00:16:45.000007''"
  let ?a = "[''igp'', replicate 71748 (CHR ''1''), ''1'', ''65001'', ''192.0.2.7'', ''0'', ''100'', '''', '''', '''', '''', ''0'', ''1'', '''']"
  let ?rib = "replicate 25 kafka_route"
  let ?rows = "rib_rows connected_bus kafka_peer ?rib ''add'' (hex_text (replicate 16 1)) ?a '''' ?ts"
  have p: "plain (replicate n (CHR ''1''))" for n by (auto simp: plain_def)
  have cols: "attr_cols ?attr = Inr ?a"
    using kafka_attr_cols p [of 71748] by (simp add: attr_cols_def kafka_attr_def)
  have act: "action_texts UNICAST_PREFIX_ACTION_ADD (Some ?attr) ''add'' (hex_text (replicate 16 1)) ?a ''''"
    using action_texts.add [of ?attr "replicate 16 1", OF _ _ cols] p [of 71748] by (simp add: kafka_attr_def)
  have bus: "collector_hash connected_bus = ''07070707070707070707070707070707''" "k_router_ip connected_bus = ''192.0.2.1''" "unicast_prefix_seq connected_bus = 0"
    by (simp_all add: connected_bus_def sample_bus_def)
  have nums: "num_col (65001 :: u32) = ''65001''" "num_col (8 :: u8) = ''8''" "num_col (0 :: u32) = ''0''"
    by (simp_all add: num_col_def dec_of_nat.simps)
  have seq: "num_col (of_nat i :: u64) = dec_of_nat i" if "i < 25" for i
    using that by (simp add: num_col_def unsigned_of_nat take_bit_nat_eq_self)
  have "map row_text ?rows = map (\<lambda>i. row_text ([''add'', dec_of_nat i, hex_text (md5_spec (rib_hash_input kafka_route (hex_text (replicate 16 0)))),
      hex_text (replicate 16 0), ''192.0.2.1'', hex_text (replicate 16 1), hex_text (replicate 16 0), ''192.0.2.7'', ''65001'', ?ts, ''10.0.0.0'', ''8'', ''1''] @ ?a @
      [''0'', '''', ''0'', ''1'', ''''])) [0..<25]"
    using seq by (simp add: rib_rows_def Let_def bus kafka_peer_def zero_peer_def nums flag_col_def kafka_route_def new_rib_def)
  then have len: "map length (map row_text ?rows) = map (\<lambda>i. 71997 + length (dec_of_nat i)) [0..<25]"
    by (simp add: row_text_def length_md5_spec del: map_replicate)
  have digits: "sum_list (map (\<lambda>i. 71997 + length (dec_of_nat i)) [0..<25]) = 1799965"
  proof -
    have "sum_list (map (\<lambda>i. length (dec_of_nat i)) [0..<25]) = 40" by code_simp
    moreover have "sum_list (map (\<lambda>i. c + f i) xs) = c * length xs + sum_list (map f xs)" for c :: nat and f :: "nat \<Rightarrow> nat" and xs
      by (induction xs) auto
    ultimately show ?thesis by simp
  qed
  have total: "length (concat (map row_text ?rows)) = 1799965" using len digits by (simp add: length_concat)
  have "length t < 80000" if "t \<in> set (map row_text ?rows)" for t
  proof -
    from that have "length t \<in> set (map length (map row_text ?rows))" unfolding set_map by (rule imageI)
    then have "length t \<in> set (map (\<lambda>i. 71997 + length (dec_of_nat i)) [0..<25])" unfolding len .
    then obtain i where "i < 25" "length t = 71997 + length (dec_of_nat i)" by auto
    then show ?thesis using length_dec_of_nat [of i 1] by simp
  qed
  then have each: "\<forall>row\<in>set ?rows. length (row_text row) < 80000" by simp
  have "length (concat (map row_text ?rows)) < MSGBUS_WORKING_BUF_SIZE" "MSGBUS_WORKING_BUF_SIZE - 70 \<le> length (concat (map row_text ?rows))"
    unfolding total by (simp_all add: MSGBUS_WORKING_BUF_SIZE_def)
  note fits = each this
  have "list_all rib_plain ?rib" by (simp add: list_all_iff rib_plain_def kafka_route_def new_rib_def)
  moreover have "peer_plain kafka_peer" by (simp add: peer_plain_def kafka_peer_def zero_peer_def)
  ultimately show ?thesis
    by (rule kafka_producer_overflow [OF connected_bus_takes act _ _ _ _ _ _ refl fits, rotated])
      (simp_all add: bus kafka_peer_time topic_var_list_def)
qed

definition fits_prep_buf :: "string option \<Rightarrow> bool" where
  "fits_prep_buf b = (case b of None \<Rightarrow> True | Some b \<Rightarrow> length b < MSGBUS_WORKING_BUF_SIZE)"

text \<open>
  C20. The rows of routes never leave the first buffer: whatever the list, the loop over unicast, VPN or EVPN routes never
  appends past 1800000 bytes, and what it collects ends with its terminator inside of the buffer.
\<close>

theorem kafka_prep_buf_bounds:
  "avoids BufferOverflow (rows_loop (rib_row peer rc attr ucode) rib seq (0, '''')) fits_prep_buf \<and>
   avoids BufferOverflow (rows_loop (vpn_row peer rc attr vcode) vpns seq (0, '''')) fits_prep_buf \<and>
   avoids BufferOverflow (rows_loop (evpn_row peer rc attr vcode) evpns seq (0, '''')) fits_prep_buf"
  unfolding fits_prep_buf_def by (intro conjI; rule rows_loop_bounds; simp add: route_rows_avoid_faults MSGBUS_WORKING_BUF_SIZE_def)

section \<open>Router and peer\<close>

lemma produce_overread:
  assumes "kafka_inv k" "isConnected k" "topicEnabled (topic_cfg cfg) v" "cap < n"
  shows "produce env cfg fuel v cap msg n rows key g a k = Inl OutOfBounds"
proof -
  obtain sel where "topicSel k = Some sel" using assms(1,2) by (auto simp: kafka_inv_def)
  then show ?thesis using assms
    by (simp add: produce_def reconnect_connected array_read_def memcpy_to_def Let_def MSGBUS_WORKING_BUF_SIZE_def snprintf_def min_def)
qed

text \<open>
  C38. The row of a router is formatted into 4096 bytes, but the length that \<open>snprintf\<close> would have needed is passed on: initiation
  data that is longer than the buffer once its line ends are written as two characters makes \<open>produce\<close> read behind the buffer.
\<close>

theorem kafka_router_overread:
  assumes "kafka_inv k" "isConnected k" "topicEnabled (topic_cfg cfg) MSGBUS_TOPIC_VAR_ROUTER" "length (router_hash r) = 16"
      "length (router_ip_addr r) < 46" "length (term_reason_text r) < 255" "length (router_bgp_id r) < 16"
      "array_text (router_descr r) = Inr descr" "array_text (initiate_data r) = Inr initData" "array_text (term_data r) = Inr termData"
      "array_text (router_name r) = Inr rname" "rname \<noteq> ''''"
      "lookupRouterGroup (regex_match env) (inet_pton env) (topic_cfg cfg) rname (router_ip_addr r) = Inr grp"
      "4096 < length (escape_data initData)"
  shows "kafka_update_Router env cfg fuel r ROUTER_ACTION_INIT k = Inl OutOfBounds"
proof -
  obtain sel where sel: "topicSel k = Some sel" using assms(1,2) by (auto simp: kafka_inv_def)
  let ?k = "k\<lparr>k_router_hash := router_hash r, k_router_ip := router_ip_addr r, router_group_name := grp\<rparr>"
  have "kafka_inv ?k" "isConnected ?k" using assms(1,2) by simp_all
  note over = produce_overread [OF this assms(3)]
  have "length x \<le> length (join_tab xs)" if "x \<in> set xs" for x xs
    using that by (induction xs rule: join_tab.induct) auto
  from this [of "escape_data initData"] have "4096 < length (row_text cols)" if "escape_data initData \<in> set cols" for cols
    using that assms(14) by (fastforce simp: row_text_def)
  then show ?thesis using assms sel by (simp add: kafka_update_Router_def Let_def hash_toStr_run over)
qed

lemma escape_newlines: "length (escape_data (replicate n (CHR 0x0A))) = 2 * n"
proof -
  have "replace_all [CHR 0x0A] [CHR 0x5C, CHR ''n''] (replicate n (CHR 0x0A)) = concat (replicate n [CHR 0x5C, CHR ''n''])"
    by (induction n) (subst replace_all.simps; simp)+
  moreover have "\<not> has_text [CHR 0x09] (concat (replicate n [CHR 0x5C, CHR ''n'']))" by (induction n) simp_all
  moreover have "length (concat (replicate n [CHR 0x5C, CHR ''n''])) = 2 * n" by (induction n) simp_all
  ultimately show ?thesis by (simp add: escape_data_def replace_all_absent)
qed

definition chatty_router :: obj_router where
  "chatty_router = zero_router\<lparr>router_hash := replicate 16 1, router_name := text_bytes ''r1'' @ replicate 253 0,
     router_ip_addr := ''192.0.2.1'', initiate_data := replicate 2100 10 @ replicate 1996 0\<rparr>"

lemma array_text_padded:
  "0 < m \<Longrightarrow> 0 \<notin> set t \<Longrightarrow> array_text (t @ replicate m 0) = Inr (byte_text t)"
  by (auto simp: array_text_def c_bytes_def takeWhile_append)

theorem kafka_router_overread_witness:
  "kafka_update_Router mem_kafka sample_kafka_cfg 0 chatty_router ROUTER_ACTION_INIT connected_bus = Inl OutOfBounds"
proof -
  have zeros: "array_text (replicate n 0) = Inr ''''" if "0 < n" for n using array_text_padded [of n "[]"] that by (simp add: byte_text_def)
  have init: "array_text (initiate_data chatty_router) = Inr (replicate 2100 (CHR 0x0A))"
    using array_text_padded [of 1996 "replicate 2100 10"] by (simp add: chatty_router_def byte_text_def char_of_def bit_Suc_0_iff)
  have name: "array_text (router_name chatty_router) = Inr ''r1''"
    using array_text_padded [of 253 "text_bytes ''r1''"] by (simp add: chatty_router_def text_bytes_def byte_text_def char_of_def of_char_def bit_Suc_0_iff)
  have "array_text (router_descr chatty_router) = Inr []" "array_text (term_data chatty_router) = Inr []"
    using zeros by (simp_all add: chatty_router_def zero_router_def)
  note texts = this(1) init this(2) name
  show ?thesis
    by (rule kafka_router_overread [OF _ _ _ _ _ _ _ texts])
      (simp_all add: escape_newlines connected_bus_def kafka_inv_def zeros,
       simp_all add: chatty_router_def zero_router_def lookupRouterGroup_def topic_cfg_def topic_config.defs sample_kafka_cfg_def group_text_def)
qed

text \<open>
  C39. A peer that went down stays in the list of known peers: after the message about the peer was sent, the entry that was
  removed is made again by the lookup of its group, so that the first message of the returning peer is left out.
\<close>

theorem kafka_peer_down_known:
  assumes "kafka_update_Peer env cfg fuel peer up (Some down) PEER_ACTION_DOWN k = Inr (peer', k')" "kafka_inv k"
  shows "kafka_update_Peer env cfg fuel peer up' down' PEER_ACTION_FIRST k' = Inr (peer', k')"
proof -
  from assms(1) obtain rh h ph where h: "hash_toStr (router_hash_id peer) = Inr rh" "peer_hash_of peer rh = Inr h" "hash_toStr h = Inr ph"
    by (auto simp: kafka_update_Peer_def andThen_eq_Inr Let_def)
  with assms(1) obtain row k2 k3 g where k2: "peer_entry ph (k\<lparr>peer_list := (peer_list k)(ph := None)\<rparr>) = (g, k2)"
      "produce env cfg fuel MSGBUS_TOPIC_VAR_PEER 4096 (snprintf 4096 row) (length (snprintf 4096 row)) 1 ph (Some g) (peer_as peer) k2 = Inr k3"
      "k' = k3\<lparr>peer_seq := peer_seq k3 + 1\<rparr>" "peer' = peer\<lparr>peer_hash := h\<rparr>"
    by (auto simp: kafka_update_Peer_def andThen_eq_Inr Let_def peer_row_def split: prod.splits)
  have "kafka_inv k2" "peer_list k2 ph \<noteq> None" using k2(1) assms(2) by (auto simp: peer_entry_def)
  from avoids_ret [OF produce_link [OF this(1)] k2(2)] this(2) have "peer_list k' ph \<noteq> None"
    by (simp add: k2(3) link_step_def bus_data_def)
  then show ?thesis using h k2(4) by (simp add: kafka_update_Peer_def Let_def)
qed

theorem kafka_peer_down_known_witness:
  "\<exists>peer' k'. kafka_update_Peer mem_kafka sample_kafka_cfg 0 kafka_peer None (Some zero_down) PEER_ACTION_DOWN connected_bus = Inr (peer', k') \<and>
     kafka_update_Peer mem_kafka sample_kafka_cfg 0 kafka_peer None None PEER_ACTION_FIRST k' = Inr (peer', k') \<and> length (mem_log (world k')) = 1"
proof -
  let ?rh = "hex_text (replicate 16 0)"
  define h where "h = md5_spec (text_bytes ''192.0.2.7'' @ text_bytes ?rh)"
  define row where "row = row_text ([''down'', ''0'', hex_text h, ?rh, '''', '''', ''192.0.2.1'', ''1970-01-01 00:16:45.000007'', ''65001'', ''192.0.2.7'', ''''] @
    replicate 10 '''' @ [''0'', ''0'', ''0'', ''''] @ [''0'', ''0'', ''0'', ''0'', ''0''] @ [''''])"
  have h16: "length h = 16" by (simp add: h_def length_md5_spec)
  have hash: "peer_hash_of kafka_peer ?rh = Inr h"
  proof -
    have "hash_of [text_bytes ''192.0.2.7'', text_bytes [], text_bytes ?rh] = h"
      unfolding h_def by (subst hash_of_spec) (simp_all add: text_bytes_def del: map_replicate)
    then show ?thesis by (simp add: peer_hash_of_def kafka_peer_def zero_peer_def)
  qed
  have rows: "peer_row None (Some zero_down) PEER_ACTION_DOWN (peer_cols ''down'' (peer_seq connected_bus) (hex_text h) ?rh '''' (k_router_ip connected_bus)
      ''1970-01-01 00:16:45.000007'' (kafka_peer\<lparr>peer_hash := h\<rparr>)) (kafka_peer\<lparr>peer_hash := h\<rparr>) = Inr (Some row)"
    by (simp add: peer_row_def peer_cols_def down_cols_def zero_down_def row_def peer_flag_cols_def flag_col_def kafka_peer_def zero_peer_def
        connected_bus_def sample_bus_def num_col_def dec_of_nat.simps)
  let ?k = "connected_bus\<lparr>peer_list := [hex_text h \<mapsto> '''']\<rparr>" and ?buf = "snprintf 4096 row" and ?v = MSGBUS_TOPIC_VAR_PEER
  have entry: "peer_entry (hex_text h) (connected_bus\<lparr>peer_list := (peer_list connected_bus)(hex_text h := None)\<rparr>) = ('''', ?k)"
    by (simp add: peer_entry_def connected_bus_def sample_bus_def)
  have takes: "takes_message mem_kafka sample_kafka_cfg ?v (hex_text h) (Some '''') 65001 (''openbmp.'' @ ?v) ?k"
    using connected_bus_takes [of ?v] by (simp add: topic_var_list_def)
  obtain k' where k': "produce mem_kafka sample_kafka_cfg 0 ?v 4096 ?buf (length ?buf) 1 (hex_text h) (Some '''') 65001 ?k = Inr k'"
      "mem_log (world k') = mem_log (world ?k) @ [(''openbmp.'' @ ?v, hex_text h, produce_header (collector_hash ?k) ?v (length ?buf) 1 @ ?buf)]"
    by (rule produce_taken [OF mem_kafka.kafka_log_axioms takes, where msg = ?buf and cap = 4096 and rows = 1 and fuel = 0])
      (simp_all add: snprintf_def MSGBUS_WORKING_BUF_SIZE_def)
  have down: "kafka_update_Peer mem_kafka sample_kafka_cfg 0 kafka_peer None (Some zero_down) PEER_ACTION_DOWN connected_bus =
      Inr (kafka_peer\<lparr>peer_hash := h\<rparr>, k'\<lparr>peer_seq := peer_seq k' + 1\<rparr>)"
  proof -
    have "hash_toStr (router_hash_id kafka_peer) = Inr ?rh" "peer_as kafka_peer = 65001" "timestamp_secs kafka_peer = timestamp_secs (kafka_peer\<lparr>peer_hash := h\<rparr>)"
      by (simp_all add: kafka_peer_def zero_peer_def hash_toStr_run del: map_replicate)
    moreover have "resolveIp mem_kafka n w = ''''" for n w by (simp add: resolveIp_def)
    ultimately show ?thesis
      using k'(1) hash rows h16 entry kafka_peer_time [of mem_kafka]
      by (simp add: kafka_update_Peer_def hash_toStr_run Let_def del: map_replicate)
  qed
  from kafka_peer_down_known [OF down, of None None] k'(2) show ?thesis using down
    by (intro exI conjI) (auto simp: connected_bus_def sample_bus_def kafka_inv_def)
qed

end
