(* ===== verification/KafkaLs.thy ===== *)
theory KafkaLs
  imports KafkaMessages
begin

text \<open>
  \<open>kafka/MsgBusImpl_kafka.cpp\<close>, the link-state methods, and the bus as an instance of the interface. The buffers for
  the areas are declared before the loops and keep their texts from one entry to the next.
\<close>

section \<open>Identifiers\<close>

definition HEX2 :: "u8 \<Rightarrow> string" where
  "HEX2 b = map (\<lambda>d. if d < 10 then char_of (48 + d) else char_of (55 + d)) [unat b div 16, unat b mod 16]"

definition isis_router_text :: "bytes \<Rightarrow> string" where
  "isis_router_text r =
     HEX2 (r ! 0) @ HEX2 (r ! 1) @ ''.'' @ HEX2 (r ! 2) @ HEX2 (r ! 3) @ ''.'' @ HEX2 (r ! 4) @ HEX2 (r ! 5) @ ''.'' @ HEX2 (r ! 6) @ HEX2 (r ! 7)"

definition strncat :: "nat \<Rightarrow> string \<Rightarrow> string \<Rightarrow> string" where
  "strncat cap dst src = dst @ take (cap - length dst - 1) src"

text \<open>The router of an OSPF entry, with the designated router when the fifth byte is not zero.\<close>

definition ospf_router_text :: "bytes \<Rightarrow> string" where
  "ospf_router_text r =
     (let t = inet_ntop4 r
      in if r ! 4 \<noteq> 0 then strncat 46 (strncat 46 (strncat 46 t ''['') (inet_ntop4 (drop 4 r))) '']'' else t)"

definition isOspf :: "string \<Rightarrow> bool" where
  "isOspf protocol \<longleftrightarrow> protocol = ''OSPFv3'' \<or> protocol = ''OSPFv2''"

text \<open>The area of an IS-IS entry is appended to the buffer of \<open>cap\<close> characters byte by byte; its length is the ninth byte.\<close>

fun area_loop :: "nat \<Rightarrow> bytes \<Rightarrow> nat list \<Rightarrow> string \<Rightarrow> string result" where
  "area_loop cap area [] buf = Inr buf"
| "area_loop cap area (i # is) buf =
     andThen (strcat cap buf (HEX2 (area ! i))) (\<lambda>buf.
     andThen (if i = 0 then strcat cap buf ''.'' else Inr buf) (\<lambda>buf.
       area_loop cap area is buf))"

definition isis_area :: "nat \<Rightarrow> bytes \<Rightarrow> string \<Rightarrow> string result" where
  "isis_area cap area buf = (if unat (area ! 8) \<le> 9 then area_loop cap area [0..<unat (area ! 8)] buf else Inr buf)"

section \<open>Rows\<close>

text \<open>
  The loops of the three methods: the two areas, \<open>buf_len\<close>, an \<open>int\<close> here, and \<open>prep_buf\<close> go from entry to entry.
  \<open>row e seq ospf isis\<close> gives the text of an entry and the areas it leaves.
\<close>

fun ls_rows_loop :: "('e \<Rightarrow> u64 \<Rightarrow> string \<Rightarrow> string \<Rightarrow> (string \<times> string \<times> string) result) \<Rightarrow> 'e list \<Rightarrow> u64 \<Rightarrow> string \<Rightarrow> string \<Rightarrow>
    nat \<times> string \<Rightarrow> (nat \<times> string) result" where
  "ls_rows_loop row [] seq ospf isis b = Inr b"
| "ls_rows_loop row (e # es) seq ospf isis b =
     andThen (row e seq ospf isis) (\<lambda>(r, ospf, isis).
     if fst b + length r \<ge> 2 ^ 31 then Inl Overflow
     else andThen (cat_row 8192 r b) (ls_rows_loop row es (seq + 1) ospf isis))"

definition ls_context :: "'w kafka_env \<Rightarrow> obj_bgp_peer \<Rightarrow> obj_path_attr \<Rightarrow> 'w msgBus_kafka \<Rightarrow> row_context result" where
  "ls_context env peer attr k =
     andThen (hash_toStr (router_hash_id peer)) (\<lambda>r_hash_str.
     andThen (andThen (load (attr_hash_id attr)) hash_toStr) (\<lambda>path_hash_str.
     andThen (hash_toStr (peer_hash peer)) (\<lambda>peer_hash_str.
       Inr \<lparr>rc_r_hash = r_hash_str, rc_path_hash = path_hash_str, rc_p_hash = peer_hash_str, rc_router_ip = c_str (k_router_ip k),
         rc_ts = getTimestamp env (timestamp_secs peer) (timestamp_us peer) (world k)\<rparr>)))"

definition ls_action :: "ls_action_code \<Rightarrow> string" where
  "ls_action code = (case code of LS_ACTION_ADD \<Rightarrow> ''add'' | LS_ACTION_DEL \<Rightarrow> ''del'')"

text \<open>The first ten columns of a row, and the four of the path.\<close>

definition ls_cols :: "ls_action_code \<Rightarrow> u64 \<Rightarrow> string \<Rightarrow> row_context \<Rightarrow> obj_bgp_peer \<Rightarrow> string list result" where
  "ls_cols code seq hash_str rc peer =
     andThen (read_cstr 46 (Some (peer_addr peer))) (\<lambda>addr.
       Inr [ls_action code, num_col seq, hash_str, rc_path_hash rc, rc_r_hash rc, rc_router_ip rc, rc_p_hash rc, addr,
            num_col (peer_as peer), rc_ts rc])"

definition ls_path_cols :: "obj_path_attr \<Rightarrow> string list result" where
  "ls_path_cols attr =
     andThen (load (local_pref attr)) (\<lambda>lp.
     andThen (load (med attr)) (\<lambda>md.
     andThen (read_cstr 40 (attr_next_hop attr)) (\<lambda>nh.
       Inr [c_str (as_path attr), num_col lp, num_col md, nh])))"

section \<open>Nodes\<close>

text \<open>
  The router, the areas and the name of a node. The name of an OSPF router is replaced by the host name of its
  router identifier.
\<close>

definition node_ids :: "'w kafka_env \<Rightarrow> 'w \<Rightarrow> obj_ls_node \<Rightarrow> string \<Rightarrow> string \<Rightarrow> string \<Rightarrow> (string \<times> string \<times> string \<times> bytes) result" where
  "node_ids env w node protocol ospf isis =
     (if isOspf protocol
      then let hostname = strncpy 255 (resolveIp env (inet_ntop4 (node_igp_router_id node)) w)
           in Inr (ospf_router_text (node_igp_router_id node), inet_ntop4 (node_ospf_area_Id node), '''',
                text_bytes hostname @ replicate (255 - length hostname) 0)
      else andThen (isis_area 32 (node_isis_area_id node) isis) (\<lambda>isis.
             Inr (isis_router_text (node_igp_router_id node), '''', isis, node_name node)))"

definition node_row :: "'w kafka_env \<Rightarrow> 'w \<Rightarrow> obj_bgp_peer \<Rightarrow> row_context \<Rightarrow> obj_path_attr \<Rightarrow> ls_action_code \<Rightarrow> obj_ls_node \<Rightarrow> u64 \<Rightarrow>
    string \<Rightarrow> string \<Rightarrow> (string \<times> string \<times> string) result" where
  "node_row env w peer rc attr code node seq ospf isis =
     andThen (hash_toStr (node_hash node)) (\<lambda>hash_str.
     andThen (read_cstr 32 (Some (node_protocol node))) (\<lambda>protocol.
     andThen (node_ids env w node protocol ospf isis) (\<lambda>(igp_router_id, ospf, isis, name).
     andThen (ls_cols code seq hash_str rc peer) (\<lambda>cols.
     andThen (array_text (node_mt_id node)) (\<lambda>mt.
     andThen (array_text (node_flags node)) (\<lambda>flags.
     andThen (ls_path_cols attr) (\<lambda>path.
     andThen (array_text name) (\<lambda>name.
     andThen (array_text (sr_capabilities_tlv node)) (\<lambda>sr.
       Inr (row_text (cols @ [igp_router_id, print_ip (inet_ntop6 env) (node_isIPv4 node) (node_router_id node), hex_col (node_id node),
              hex_col (node_bgp_ls_id node), mt, ospf, isis, protocol, flags] @ path @
              [name, flag_col (isPrePolicy peer), flag_col (isAdjIn peer), sr]), ospf, isis))))))))))"

text \<open>The message has \<open>buf_len\<close> bytes of the cleared buffer, not only those of its text.\<close>

definition kafka_update_LsNode :: "'w kafka_env \<Rightarrow> kafka_config \<Rightarrow> nat \<Rightarrow> obj_bgp_peer \<Rightarrow> obj_path_attr \<Rightarrow> obj_ls_node list \<Rightarrow>
    ls_action_code \<Rightarrow> 'w msgBus_kafka \<Rightarrow> 'w msgBus_kafka result" where
  "kafka_update_LsNode env cfg fuel peer attr nodes code k =
     andThen (ls_context env peer attr k) (\<lambda>rc.
     andThen (ls_rows_loop (node_row env (world k) peer rc attr code) nodes (ls_node_seq k) '''' '''' (0, '''')) (\<lambda>(buf_len, buf).
       case peer_entry (rc_p_hash rc) (k\<lparr>ls_node_seq := ls_node_seq k + of_nat (length nodes)\<rparr>) of (g, k) \<Rightarrow>
         produce env cfg fuel MSGBUS_TOPIC_VAR_LS_NODE MSGBUS_WORKING_BUF_SIZE buf buf_len (length nodes) (rc_p_hash rc)
           (Some g) (peer_as peer) k))"

section \<open>Links\<close>

definition mem64 :: "u64 \<Rightarrow> bytes" where
  "mem64 v = rev (be_bytes 8 (unat v))"

definition link_hash_of :: "obj_ls_link \<Rightarrow> string \<Rightarrow> bytes" where
  "link_hash_of link peer_hash_str =
     hash_of [intf_addr link, nei_addr link, mem64 (link_id link), local_node_hash_id link, remote_node_hash_id link,
       mem32 (local_link_id link), mem32 (remote_link_id link), text_bytes peer_hash_str, mem32 (link_mt_id link)]"

text \<open>The two IGP routers, the two routers and the areas.\<close>

definition link_ids :: "(bytes \<Rightarrow> string) \<Rightarrow> obj_ls_link \<Rightarrow> string \<Rightarrow> string \<Rightarrow> string \<Rightarrow>
    (string \<times> string \<times> string \<times> string \<times> string \<times> string) result" where
  "link_ids f6 link protocol ospf isis =
     (let ro = print_ip f6 (link_isIPv4 link) (link_router_id link); rem = print_ip f6 (link_isIPv4 link) (remote_router_id link)
      in if isOspf protocol
         then Inr (ospf_router_text (link_igp_router_id link), ospf_router_text (remote_igp_router_id link), ro, rem,
                inet_ntop4 (link_ospf_area_Id link), '''')
         else if protocol = ''IS-IS_L1'' \<or> protocol = ''IS-IS_L2''
         then andThen (isis_area 33 (link_isis_area_id link) isis) (\<lambda>isis.
                Inr (isis_router_text (link_igp_router_id link), isis_router_text (remote_igp_router_id link), ro, rem, '''', isis))
         else Inr ('''', '''', inet_ntop4 (local_bgp_router_id link), inet_ntop4 (remote_bgp_router_id link), '''', ''''))"

definition link_row :: "(bytes \<Rightarrow> string) \<Rightarrow> obj_bgp_peer \<Rightarrow> row_context \<Rightarrow> obj_path_attr \<Rightarrow> ls_action_code \<Rightarrow> obj_ls_link \<Rightarrow> u64 \<Rightarrow>
    string \<Rightarrow> string \<Rightarrow> (string \<times> string \<times> string) result" where
  "link_row f6 peer rc attr code link seq ospf isis =
     andThen (hash_toStr (link_hash_of link (rc_p_hash rc))) (\<lambda>hash_str.
     andThen (hash_toStr (local_node_hash_id link)) (\<lambda>local_hash.
     andThen (hash_toStr (remote_node_hash_id link)) (\<lambda>remote_hash.
     andThen (read_cstr 32 (Some (link_protocol link))) (\<lambda>protocol.
     andThen (link_ids f6 link protocol ospf isis) (\<lambda>(igp_router_id, remote_igp, ro, rem, ospf, isis).
     andThen (ls_cols code seq hash_str rc peer) (\<lambda>cols.
     andThen (ls_path_cols attr) (\<lambda>path.
     andThen (array_text (unreserved_bw link)) (\<lambda>ubw.
     andThen (array_text (protection_type link)) (\<lambda>prot.
     andThen (array_text (mpls_proto_mask link)) (\<lambda>mpls.
     andThen (array_text (srlg link)) (\<lambda>sr.
     andThen (array_text (link_name link)) (\<lambda>name.
     andThen (array_text (peer_node_sid link)) (\<lambda>nsid.
     andThen (array_text (peer_adj_sid link)) (\<lambda>asid.
       Inr (row_text (cols @ [igp_router_id, ro, hex_col (link_id link), hex_col (link_bgp_ls_id link), ospf, isis, protocol] @ path @
              [hex_col (link_mt_id link), num_col (local_link_id link), num_col (remote_link_id link),
               print_ip f6 (link_isIPv4 link) (intf_addr link), print_ip f6 (link_isIPv4 link) (nei_addr link), num_col (igp_metric link),
               num_col (admin_group link), num_col (max_link_bw link), num_col (max_resv_bw link), ubw, num_col (te_def_metric link),
               prot, mpls, sr, name, remote_hash, local_hash, remote_igp, rem, num_col (local_node_asn link),
               num_col (remote_node_asn link), nsid, flag_col (isPrePolicy peer), flag_col (isAdjIn peer), asid]), ospf, isis)))))))))))))))"

definition kafka_update_LsLink :: "'w kafka_env \<Rightarrow> kafka_config \<Rightarrow> nat \<Rightarrow> obj_bgp_peer \<Rightarrow> obj_path_attr \<Rightarrow> obj_ls_link list \<Rightarrow>
    ls_action_code \<Rightarrow> 'w msgBus_kafka \<Rightarrow> 'w msgBus_kafka result" where
  "kafka_update_LsLink env cfg fuel peer attr lnks code k =
     andThen (ls_context env peer attr k) (\<lambda>rc.
     andThen (ls_rows_loop (link_row (inet_ntop6 env) peer rc attr code) lnks (ls_link_seq k) '''' '''' (0, '''')) (\<lambda>(_, buf).
       case peer_entry (rc_p_hash rc) (k\<lparr>ls_link_seq := ls_link_seq k + of_nat (length lnks)\<rparr>) of (g, k) \<Rightarrow>
         produce env cfg fuel MSGBUS_TOPIC_VAR_LS_LINK MSGBUS_WORKING_BUF_SIZE buf (length buf) (length lnks) (rc_p_hash rc)
           (Some g) (peer_as peer) k))"

section \<open>Prefixes\<close>

text \<open>The route type is hashed with the zeros behind its text.\<close>

definition lsp_hash_of :: "obj_ls_prefix \<Rightarrow> bytes" where
  "lsp_hash_of pfx =
     hash_of [lsp_prefix_bin pfx, [lsp_prefix_len pfx], mem64 (lsp_id pfx), lsp_local_node_hash_id pfx,
       text_bytes (lsp_ospf_route_type pfx) @ replicate (32 - length (lsp_ospf_route_type pfx)) 0, mem32 (lsp_mt_id pfx)]"

definition lsp_ids :: "obj_ls_prefix \<Rightarrow> string \<Rightarrow> string \<Rightarrow> string \<Rightarrow> (string \<times> string \<times> string) result" where
  "lsp_ids pfx protocol ospf isis =
     (if isOspf protocol then Inr (ospf_router_text (lsp_igp_router_id pfx), inet_ntop4 (lsp_ospf_area_Id pfx), '''')
      else andThen (isis_area 32 (lsp_isis_area_id pfx) isis) (\<lambda>isis.
             Inr (isis_router_text (lsp_igp_router_id pfx), '''', isis)))"

definition lsp_row :: "(bytes \<Rightarrow> string) \<Rightarrow> obj_bgp_peer \<Rightarrow> row_context \<Rightarrow> obj_path_attr \<Rightarrow> ls_action_code \<Rightarrow> obj_ls_prefix \<Rightarrow> u64 \<Rightarrow>
    string \<Rightarrow> string \<Rightarrow> (string \<times> string \<times> string) result" where
  "lsp_row f6 peer rc attr code pfx seq ospf isis =
     andThen (hash_toStr (lsp_hash_of pfx)) (\<lambda>hash_str.
     andThen (hash_toStr (lsp_local_node_hash_id pfx)) (\<lambda>local_hash.
     andThen (read_cstr 32 (Some (lsp_protocol pfx))) (\<lambda>protocol.
     andThen (lsp_ids pfx protocol ospf isis) (\<lambda>(igp_router_id, ospf, isis).
     andThen (ls_cols code seq hash_str rc peer) (\<lambda>cols.
     andThen (ls_path_cols attr) (\<lambda>path.
     andThen (read_cstr 32 (Some (lsp_ospf_route_type pfx))) (\<lambda>rtype.
     andThen (array_text (igp_flags pfx)) (\<lambda>flags.
     andThen (array_text (sid_tlv pfx)) (\<lambda>sid.
       Inr (row_text (cols @ [igp_router_id, print_ip f6 (lsp_isIPv4 pfx) (lsp_router_id pfx), hex_col (lsp_id pfx),
              hex_col (lsp_bgp_ls_id pfx), ospf, isis, protocol] @ path @
              [local_hash, hex_col (lsp_mt_id pfx), rtype, flags, num_col (route_tag pfx), hex_col (ext_route_tag pfx),
               print_ip f6 (lsp_isIPv4 pfx) (ospf_fwd_addr pfx), num_col (metric pfx), print_ip f6 (lsp_isIPv4 pfx) (lsp_prefix_bin pfx),
               num_col (lsp_prefix_len pfx), flag_col (isPrePolicy peer), flag_col (isAdjIn peer), sid]), ospf, isis))))))))))"

definition kafka_update_LsPrefix :: "'w kafka_env \<Rightarrow> kafka_config \<Rightarrow> nat \<Rightarrow> obj_bgp_peer \<Rightarrow> obj_path_attr \<Rightarrow> obj_ls_prefix list \<Rightarrow>
    ls_action_code \<Rightarrow> 'w msgBus_kafka \<Rightarrow> 'w msgBus_kafka result" where
  "kafka_update_LsPrefix env cfg fuel peer attr pfxs code k =
     andThen (ls_context env peer attr k) (\<lambda>rc.
     andThen (ls_rows_loop (lsp_row (inet_ntop6 env) peer rc attr code) pfxs (ls_prefix_seq k) '''' '''' (0, '''')) (\<lambda>(_, buf).
       case peer_entry (rc_p_hash rc) (k\<lparr>ls_prefix_seq := ls_prefix_seq k + of_nat (length pfxs)\<rparr>) of (g, k) \<Rightarrow>
         produce env cfg fuel MSGBUS_TOPIC_VAR_LS_PREFIX MSGBUS_WORKING_BUF_SIZE buf (length buf) (length pfxs) (rc_p_hash rc)
           (Some g) (peer_as peer) k))"

section \<open>The interface\<close>

definition kafka_bus :: "'w kafka_env \<Rightarrow> kafka_config \<Rightarrow> nat \<Rightarrow> 'w msgBus_kafka msg_bus" where
  "kafka_bus env cfg fuel = \<lparr>update_Collector = kafka_update_Collector env cfg fuel, update_Router = kafka_update_Router env cfg fuel,
     update_Peer = kafka_update_Peer env cfg fuel, update_baseAttribute = kafka_update_baseAttribute env cfg fuel,
     update_unicastPrefix = kafka_update_unicastPrefix env cfg fuel,
     update_L3Vpn = (\<lambda>peer v attr. kafka_update_L3Vpn env cfg fuel peer v (Some attr)),
     update_eVPN = (\<lambda>peer v attr. kafka_update_eVPN env cfg fuel peer v (Some attr)),
     update_LsNode = kafka_update_LsNode env cfg fuel, update_LsLink = kafka_update_LsLink env cfg fuel,
     update_LsPrefix = kafka_update_LsPrefix env cfg fuel, add_StatReport = kafka_add_StatReport env cfg fuel,
     send_bmp_raw = kafka_send_bmp_raw env cfg fuel, ribSeq = k_ribSeq\<rparr>"

section \<open>The connection invariant\<close>

text \<open>The calls of the interface, and a sequence of them on any bus.\<close>

datatype bus_call =
    CollectorCall obj_collector collector_action_code
  | RouterCall obj_router router_action_code
  | PeerCall obj_bgp_peer "obj_peer_up_event option" "obj_peer_down_event option" peer_action_code
  | BaseAttributeCall obj_bgp_peer obj_path_attr
  | UnicastPrefixCall obj_bgp_peer "obj_rib list" "obj_path_attr option" unicast_prefix_action_code
  | L3VpnCall obj_bgp_peer "obj_vpn list" obj_path_attr vpn_action_code
  | EVPNCall obj_bgp_peer "obj_evpn list" obj_path_attr vpn_action_code
  | LsNodeCall obj_bgp_peer obj_path_attr "obj_ls_node list" ls_action_code
  | LsLinkCall obj_bgp_peer obj_path_attr "obj_ls_link list" ls_action_code
  | LsPrefixCall obj_bgp_peer obj_path_attr "obj_ls_prefix list" ls_action_code
  | StatReportCall obj_bgp_peer obj_stats_report
  | BmpRawCall bytes obj_bgp_peer bytes

fun do_call :: "'b msg_bus \<Rightarrow> bus_call \<Rightarrow> 'b \<Rightarrow> 'b result" where
  "do_call bus (CollectorCall c code) b = update_Collector bus c code b"
| "do_call bus (RouterCall r code) b = andThen (update_Router bus r code b) (\<lambda>(_, b). Inr b)"
| "do_call bus (PeerCall p up down code) b = andThen (update_Peer bus p up down code b) (\<lambda>(_, b). Inr b)"
| "do_call bus (BaseAttributeCall p a) b = andThen (update_baseAttribute bus p a b) (\<lambda>(_, b). Inr b)"
| "do_call bus (UnicastPrefixCall p rib a code) b = update_unicastPrefix bus p rib a code b"
| "do_call bus (L3VpnCall p v a code) b = update_L3Vpn bus p v a code b"
| "do_call bus (EVPNCall p v a code) b = update_eVPN bus p v a code b"
| "do_call bus (LsNodeCall p a ns code) b = update_LsNode bus p a ns code b"
| "do_call bus (LsLinkCall p a lks code) b = update_LsLink bus p a lks code b"
| "do_call bus (LsPrefixCall p a ps code) b = update_LsPrefix bus p a ps code b"
| "do_call bus (StatReportCall p st) b = add_StatReport bus p st b"
| "do_call bus (BmpRawCall h p d) b = send_bmp_raw bus h p d b"

fun do_calls :: "'b msg_bus \<Rightarrow> bus_call list \<Rightarrow> 'b \<Rightarrow> 'b result" where
  "do_calls bus [] b = Inr b"
| "do_calls bus (c # cs) b = andThen (do_call bus c b) (do_calls bus cs)"

lemma ls_context_avoids [avoid]: "(\<And>s. P s) \<Longrightarrow> avoids NullDeref (ls_context env peer attr k) P"
  unfolding ls_context_def by (intro avoid) simp_all

lemma ls_rows_loop_avoids:
  assumes "\<And>e seq oa i. avoids NullDeref (row e seq oa i) (\<lambda>_. True)" "\<And>b. P b"
  shows "avoids NullDeref (ls_rows_loop row es seq oa i b) P"
proof (induction es arbitrary: seq oa i b)
  case (Cons e es)
  show ?case unfolding ls_rows_loop.simps
    by (intro avoids_andThen, rule avoids_mono [OF assms(1)]) (intro avoid Cons.IH assms(2); simp)
qed (simp add: assms(2))

lemma isis_area_avoids [avoid]:
  assumes "\<And>s. P s"
  shows "avoids NullDeref (isis_area cap area buf) P"
proof -
  have "avoids NullDeref (area_loop cap area is buf) P" for "is" buf
  proof (induction "is" arbitrary: buf)
    case (Cons i "is")
    show ?case unfolding area_loop.simps by (intro avoid Cons.IH)
  qed (simp add: assms)
  then show ?thesis by (simp add: isis_area_def assms)
qed

lemma ls_rows_avoid:
  "avoids NullDeref (node_row env w peer rc attr code nd seq oa i) (\<lambda>_. True)"
  "avoids NullDeref (link_row f6 peer rc attr code lnk seq oa i) (\<lambda>_. True)"
  "avoids NullDeref (lsp_row f6 peer rc attr code pfx seq oa i) (\<lambda>_. True)"
  unfolding node_row_def link_row_def lsp_row_def node_ids_def link_ids_def lsp_ids_def ls_cols_def ls_path_cols_def
  by (intro avoid; simp)+

lemma ls_methods_inv:
  assumes "kafka_inv k"
  shows "avoids NullDeref (kafka_update_LsNode env cfg fuel peer attr ns code k) kafka_inv"
    "avoids NullDeref (kafka_update_LsLink env cfg fuel peer attr lnks code k) kafka_inv"
    "avoids NullDeref (kafka_update_LsPrefix env cfg fuel peer attr pfxs code k) kafka_inv"
  unfolding kafka_update_LsNode_def kafka_update_LsLink_def kafka_update_LsPrefix_def
  by (intro avoid ls_rows_loop_avoids ls_rows_avoid; use assms in simp)+

lemma do_call_inv: "kafka_inv k \<Longrightarrow> avoids NullDeref (do_call (kafka_bus env cfg fuel) c k) kafka_inv"
  by (cases c)
    (simp_all add: kafka_bus_def Collector_inv route_methods_inv ls_methods_inv StatReport_inv send_bmp_raw_inv,
     (intro avoids_andThen, rule avoids_mono [OF Router_inv] avoids_mono [OF Peer_inv] avoids_mono [OF baseAttribute_inv]; auto)+)

lemma do_calls_inv: "kafka_inv k \<Longrightarrow> avoids NullDeref (do_calls (kafka_bus env cfg fuel) cs k) kafka_inv"
proof (induction cs arbitrary: k)
  case (Cons c cs)
  show ?case unfolding do_calls.simps
    by (intro avoids_andThen) (rule avoids_mono [OF do_call_inv [OF Cons.prems] Cons.IH])
qed simp

lemma new_bus_inv: "avoids NullDeref (new_msgBus_kafka env cfg seq0 h w) kafka_inv"
  unfolding new_msgBus_kafka_def disableDebug_def
  by (intro avoid, rule avoids_mono [OF connect_link]) (auto simp: kafka_inv_def link_step_def split: prod.split)


section \<open>The area of IS-IS entries\<close>

definition area_text :: "bytes \<Rightarrow> string" where
  "area_text area = concat (map (\<lambda>i. HEX2 (area ! i) @ (if i = 0 then ''.'' else '''')) [0..<unat (area ! 8)])"

lemma length_HEX2 [simp]: "length (HEX2 b) = 2"
  by (simp add: HEX2_def)

lemma area_loop_run:
  "0 \<notin> set is \<Longrightarrow> area_loop cap area is buf =
     (if is = [] \<or> length buf + 2 * length is < cap then Inr (buf @ concat (map (\<lambda>i. HEX2 (area ! i)) is)) else Inl BufferOverflow)"
  by (induction "is" arbitrary: buf) (auto simp: strcat_def)

lemma isis_area_run:
  assumes "0 < unat (area ! 8)" "unat (area ! 8) \<le> 9"
  shows "isis_area cap area buf =
    (if length buf + 2 * unat (area ! 8) + 1 < cap then Inr (buf @ area_text area) else Inl BufferOverflow)"
proof -
  have is0: "[0..<unat (area ! 8)] = 0 # [1..<unat (area ! 8)]" using assms(1) by (simp add: upt_rec)
  have "area_text area = HEX2 (area ! 0) @ ''.'' @ concat (map (\<lambda>i. HEX2 (area ! i)) [1..<unat (area ! 8)])"
    unfolding area_text_def is0 by (simp, rule arg_cong [of _ _ concat], auto)
  then show ?thesis using assms area_loop_run [of "[1..<unat (area ! 8)]" cap area]
    by (cases "unat (area ! 8) = 1") (auto simp: isis_area_def is0 strcat_def)
qed

text \<open>
  C40. The text of the area is never cleared between IS-IS nodes: the area of the second node is appended to that of the first one,
  and two areas with at least 15 bytes together leave the buffer of 32 characters.
\<close>

theorem kafka_isis_area_overflow:
  assumes "ls_context env peer attr k = Inr rc" "node_row env (world k) peer rc attr code n1 (ls_node_seq k) '''' '''' = Inr (r, ospf, isis)" "length r < 2 ^ 31"
      "\<not> isOspf (node_protocol n1)" "0 < unat (node_isis_area_id n1 ! 8)" "unat (node_isis_area_id n1 ! 8) \<le> 9"
      "\<not> isOspf (node_protocol n2)" "0 < unat (node_isis_area_id n2 ! 8)" "unat (node_isis_area_id n2 ! 8) \<le> 9"
      "length (node_hash n2) = 16" "length (node_protocol n2) < 32"
      "15 \<le> unat (node_isis_area_id n1 ! 8) + unat (node_isis_area_id n2 ! 8)"
  shows "kafka_update_LsNode env cfg fuel peer attr (n1 # n2 # ns) code k = Inl BufferOverflow"
proof -
  from assms(2,4,5,6) have isis: "isis = area_text (node_isis_area_id n1)"
    by (auto simp: node_row_def node_ids_def andThen_eq_Inr isis_area_run read_cstr_def split: if_splits)
  have "length (area_text area) = 2 * unat (area ! 8) + 1" if "0 < unat (area ! 8)" for area
  proof -
    have "length (concat (map (\<lambda>i. HEX2 (f i) @ (if i = 0 then ''.'' else '''')) [0..<n])) = 2 * n + (if n = 0 then 0 else 1)" for f :: "nat \<Rightarrow> u8" and n
      by (induction n) auto
    then show ?thesis using that by (simp add: area_text_def)
  qed
  from this [OF assms(5)] have "\<not> length isis + 2 * unat (node_isis_area_id n2 ! 8) + 1 < 32" using assms(12) isis by simp
  then have second: "node_row env (world k) peer rc attr code n2 (ls_node_seq k + 1) ospf isis = Inl BufferOverflow"
    using assms(7-11) by (simp add: node_row_def node_ids_def hash_toStr_run isis_area_run)
  obtain b where cat: "cat_row 8192 r (0, '''') = Inr b"
  proof -
    have "length (snprintf 8192 r) \<le> 8191" by (simp add: snprintf_def)
    then have "\<exists>b. cat_row 8192 r (0, '''') = Inr b" by (auto simp: cat_row_def strcat_def Let_def MSGBUS_WORKING_BUF_SIZE_def)
    then show thesis using that by blast
  qed
  show ?thesis using assms(1,2,3) second cat by (simp add: kafka_update_LsNode_def)
qed

definition isis_node :: obj_ls_node where
  "isis_node = zero_ls_node\<lparr>node_protocol := ''IS-IS_L2'', node_isis_area_id := [73, 0, 1, 2, 3, 4, 5, 6, 8]\<rparr>"

theorem kafka_isis_area_overflow_witness:
  "kafka_update_LsNode mem_kafka sample_kafka_cfg 0 kafka_peer kafka_attr [isis_node, isis_node] LS_ACTION_ADD connected_bus = Inl BufferOverflow"
proof -
  have zeros: "array_text (replicate n 0) = Inr ''''" if "0 < n" for n using array_text_padded [of n "[]"] that by (simp add: byte_text_def)
  let ?rc = "\<lparr>rc_r_hash = hex_text (replicate 16 0), rc_path_hash = hex_text (replicate 16 1), rc_p_hash = hex_text (replicate 16 0),
    rc_router_ip = ''192.0.2.1'', rc_ts = ''1970-01-01 00:16:45.000007''\<rparr>"
  have rc: "ls_context mem_kafka kafka_peer kafka_attr connected_bus = Inr ?rc"
    using kafka_peer_time [of mem_kafka]
    by (simp add: ls_context_def kafka_attr_def hash_toStr_run kafka_peer_def zero_peer_def connected_bus_def sample_bus_def)
  obtain r where r: "node_row mem_kafka (world connected_bus) kafka_peer ?rc kafka_attr LS_ACTION_ADD isis_node (ls_node_seq connected_bus) '''' '''' =
      Inr (r, '''', area_text (node_isis_area_id isis_node))" "length r < 2 ^ 31"
  proof
    show "node_row mem_kafka (world connected_bus) kafka_peer ?rc kafka_attr LS_ACTION_ADD isis_node (ls_node_seq connected_bus) '''' '''' =
      Inr (row_text ([''add'', ''0'', hex_text (replicate 16 0), hex_text (replicate 16 1), hex_text (replicate 16 0), ''192.0.2.1'', hex_text (replicate 16 0),
        ''192.0.2.7'', ''65001'', ''1970-01-01 00:16:45.000007'', isis_router_text (replicate 8 0), ''::'', ''0'', ''0'', '''', '''',
        area_text (node_isis_area_id isis_node), ''IS-IS_L2'', '''', '' 65001'', ''100'', ''0'', ''192.0.2.7'', '''', ''0'', ''1'', '''']),
        '''', area_text (node_isis_area_id isis_node))"
      by (simp add: node_row_def node_ids_def isis_node_def zero_ls_node_def isOspf_def hash_toStr_run zeros ls_cols_def ls_path_cols_def kafka_attr_def
          kafka_peer_def zero_peer_def connected_bus_def sample_bus_def ls_action_def print_ip_def mem_kafka_def isis_area_run flag_col_def del: map_replicate)
        (simp add: num_col_def hex_col_def dec_of_nat.simps hex_of_nat.simps)
  qed (simp add: row_text_def isis_router_text_def area_text_def isis_node_def upt_rec del: map_replicate)
  show ?thesis
    by (rule kafka_isis_area_overflow [OF rc r]) (simp_all add: isis_node_def zero_ls_node_def isOspf_def)
qed

end
