(* ===== verification/KafkaUpdate.thy ===== *)
theory KafkaUpdate
  imports KafkaLs LinkStateDb
begin

text \<open>
  The handler of UPDATE messages on the Kafka bus: from the bytes of a message to the two messages that librdkafka gets for it, the
  attributes and the routes, linked by the hash of the attributes.
\<close>

lemma timestamp_world: "1000 < secs \<Longrightarrow> getTimestamp env secs us w = getTimestamp env secs us w'"
  by (simp add: getTimestamp_def not_le [symmetric])

section \<open>A connection that stands\<close>

text \<open>No poll reports that the brokers are gone, every topic can be made and every message is taken.\<close>

definition calm :: "'w kafka_env \<Rightarrow> bool" where
  "calm env \<longleftrightarrow> (\<forall>ms w. EVENT_ERROR ERR__ALL_BROKERS_DOWN \<notin> set (fst (producer_poll env ms w))) \<and> (\<forall>w. topic_conf_set_cb env w) \<and>
     (\<forall>w n. topic_create env w n) \<and> (\<forall>t key p w. fst (producer_produce env t key p w))"

definition ready :: "'w msgBus_kafka \<Rightarrow> bool" where
  "ready k \<longleftrightarrow> kafka_inv k \<and> isConnected k \<and> plain (collector_hash k) \<and> length (collector_hash k) \<le> 32"

lemma calm_takes:
  assumes "calm env" "ready k" "topicEnabled (topic_cfg cfg) v" "v \<in> set topic_var_list"
  obtains name where "takes_message env cfg v key g a name k"
proof -
  obtain sel where sel: "topicSel k = Some sel" using assms(2) by (auto simp: ready_def kafka_inv_def)
  have "\<exists>name sel'. getTopic (topic_cfg cfg) (topic_conf_set_cb env (world k)) (topic_create env (world k)) v (Some (router_group_name k)) g a sel = Inr (name, sel')"
    using assms(1) by (auto simp: calm_def getTopic_def initTopic_def Let_def split: option.split)
  then show thesis using that assms sel by (auto simp: takes_message_def ready_def calm_def)
qed

lemma calm_poll: "calm env \<Longrightarrow> producer k \<Longrightarrow> isConnected k \<Longrightarrow> \<exists>k'. poll env ms k = Inr k' \<and> isConnected k' \<and> producer k'"
proof -
  assume calm: "calm env" "producer k" "isConnected k"
  obtain es w where p: "producer_poll env ms (world k) = (es, w)" by fastforce
  have "EVENT_ERROR ERR__ALL_BROKERS_DOWN \<notin> set es" using calm(1) p unfolding calm_def by (metis fst_conv)
  then have "foldl event_cb True es" by (induction es) (auto simp: event_cb_def split: kafka_event.split kafka_error.split)
  then show ?thesis using calm p by (simp add: poll_def)
qed

lemma calm_produce:
  assumes "calm env" "ready k" "produce env cfg fuel v cap msg n rows key g a k = Inr k'"
  shows "ready k'"
proof -
  have inv: "kafka_inv k" "isConnected k" using assms(2) by (simp_all add: ready_def)
  have link: "link_step k k'" by (rule avoids_ret [OF produce_link [OF inv(1)] assms(3)])
  have "isConnected k2" if "hand_over env cfg v key g a p sel k = Inr k2" for p sel k2
  proof -
    from inv have "producer k" by (simp add: kafka_inv_def)
    then have poll: "poll env 0 (k\<lparr>topicSel := Some s, world := w\<rparr>) = Inr k3 \<Longrightarrow> isConnected k3" for s w k3
      using calm_poll [OF assms(1), of "k\<lparr>topicSel := Some s, world := w\<rparr>" 0] inv(2) by auto
    from that obtain name sel' where t: "getTopic (topic_cfg cfg) (topic_conf_set_cb env (world k)) (topic_create env (world k)) v
        (Some (router_group_name k)) g a sel = Inr (name, sel')"
      by (auto simp: hand_over_def andThen_eq_Inr)
    obtain w where "producer_produce env name key p (world k) = (True, w)"
      using assms(1) unfolding calm_def by (metis (full_types) prod.collapse)
    with that t \<open>producer k\<close> have "poll env 0 (k\<lparr>topicSel := Some sel', world := w\<rparr>) = Inr k2" by (simp add: hand_over_def)
    then show ?thesis by (rule poll)
  qed
  then have "isConnected k'" using assms(3) inv
    by (auto simp: produce_def reconnect_connected andThen_eq_Inr Let_def split: option.splits if_splits)
  then show ?thesis using link assms(2) by (auto simp: ready_def link_step_def bus_data_def)
qed

section \<open>Attributes\<close>

text \<open>The attribute object that the handler fills from the decoded attributes, and its columns.\<close>

definition filled_attr :: "attrs_map \<Rightarrow> nat \<Rightarrow> nat \<Rightarrow> nat \<Rightarrow> nat \<Rightarrow> obj_path_attr \<Rightarrow> obj_path_attr" where
  "filled_attr m lp md cnt oas a = a\<lparr>
     as_path := attr_str m 2, cluster_list := attr_str m 10, community_list := attr_str m 8,
     ext_community_list := attr_str m 16, large_community_list := attr_str m 32, atomic_agg := Some (attr_str m 6 = ''1''),
     local_pref := Some (of_nat lp), med := Some (of_nat md), as_path_count := Some (of_nat cnt), origin_as := Some (of_nat oas),
     originator_id := Some (strncpy 16 (attr_str m 9)), nexthop_isIPv4 := Some (CHR '':'' \<notin> set (attr_str m 3)),
     aggregator := Some (strncpy 40 (attr_str m 7)), origin := Some (strncpy 16 (attr_str m 1)), attr_next_hop := Some (strncpy 40 (attr_str m 3))\<rparr>"

definition attr_columns :: "attrs_map \<Rightarrow> nat \<Rightarrow> nat \<Rightarrow> nat \<Rightarrow> nat \<Rightarrow> string list" where
  "attr_columns m lp md cnt oas =
     [attr_str m 1, attr_str m 2, num_col (of_nat cnt :: u16), num_col (of_nat oas :: u32), attr_str m 3, num_col (of_nat md :: u32),
      num_col (of_nat lp :: u32), attr_str m 7, attr_str m 8, attr_str m 16, attr_str m 10, flag_col (attr_str m 6 = ''1''),
      flag_col (CHR '':'' \<notin> set (attr_str m 3)), attr_str m 9]"

definition attrs_plain :: "attrs_map \<Rightarrow> bool" where
  "attrs_plain m \<longleftrightarrow> (\<forall>t. plain (attr_str m t) \<and> length (attr_str m t) < 2 ^ 32) \<and> length (attr_str m 1) < 16 \<and> length (attr_str m 3) < 40 \<and> length (attr_str m 7) < 40 \<and>
     length (attr_str m 9) < 16"

definition path_hash_input :: "attrs_map \<Rightarrow> nat \<Rightarrow> nat \<Rightarrow> string \<Rightarrow> bytes" where
  "path_hash_input m lp md p_hash = text_bytes (attr_str m 2 @ attr_str m 3 @ attr_str m 7 @ attr_str m 1) @ mem32 (of_nat md) @ mem32 (of_nat lp) @
     text_bytes (attr_str m 8 @ attr_str m 16 @ p_hash)"

lemma strncpy_attr: "attrs_plain m \<Longrightarrow> t \<in> {1, 3, 7, 9} \<Longrightarrow> strncpy (if t = 3 \<or> t = 7 then 40 else 16) (attr_str m t) = attr_str m t"
  by (rule strncpy_text) (auto simp: attrs_plain_def plain_def)

lemmas strncpy_attrs = strncpy_attr [of _ 1, simplified] strncpy_attr [of _ 3, simplified] strncpy_attr [of _ 7, simplified] strncpy_attr [of _ 9, simplified]

lemma attr_columns_run:
  assumes "attrs_plain m"
  shows "attr_cols (filled_attr m lp md cnt oas a) = Inr (attr_columns m lp md cnt oas)" "list_all plain (attr_columns m lp md cnt oas)"
  using assms strncpy_attrs [OF assms]
  by (simp_all add: attr_cols_def filled_attr_def attr_columns_def attrs_plain_def)

lemma attr_cols_hash: "attr_cols (a\<lparr>attr_hash_id := h\<rparr>) = attr_cols a"
  by (simp add: attr_cols_def)

lemma path_hash_run:
  assumes "attrs_plain m" "length p_hash = 32"
  shows "path_hash_of (filled_attr m lp md cnt oas a) p_hash = Inr (md5_spec (path_hash_input m lp md p_hash))"
proof -
  have "hash_of [text_bytes (attr_str m 2), text_bytes (attr_str m 3), text_bytes (attr_str m 7), text_bytes (attr_str m 1), mem32 (of_nat md), mem32 (of_nat lp),
      text_bytes (attr_str m 8), text_bytes (attr_str m 16), text_bytes p_hash] = md5_spec (path_hash_input m lp md p_hash)"
    using assms by (subst hash_of_spec) (auto simp: path_hash_input_def text_bytes_def mem32_def attrs_plain_def del: be_bytes_numeral)
  then show ?thesis using assms(1) strncpy_attrs [OF assms(1)] by (simp add: path_hash_of_def filled_attr_def attrs_plain_def)
qed

lemma UpdateDBAttrs_run:
  assumes "attr_num m 5 = Inr lp" "attr_num m 4 = Inr md" "attr_num m 9000 = Inr cnt" "attr_num m 9001 = Inr oas" "attr_str m 3 \<noteq> []"
  shows "UpdateDBAttrs bus m pb b = andThen (update_baseAttribute bus (p_entry pb) (filled_attr m lp md cnt oas (base_attr pb)) b) (\<lambda>(a, b).
    Inr (pb\<lparr>base_attr := a, path_hash_id := attr_hash_id a\<rparr>, b))"
  using assms by (simp add: UpdateDBAttrs_def filled_attr_def Let_def)

text \<open>The message of the attributes.\<close>

lemma base_attribute_message:
  assumes "kafka_log env sent" "calm env" "ready k" "topicEnabled (topic_cfg cfg) MSGBUS_TOPIC_VAR_BASE_ATTRIBUTE" "peer_plain peer" "plain (k_router_ip k)"
      "attrs_plain m" "p_hash = hex_text (peer_hash peer)" "ph = md5_spec (path_hash_input m lp md p_hash)"
      "ts = getTimestamp env (timestamp_secs peer) (timestamp_us peer) (world k)"
      "row = [''add'', num_col (base_attr_seq k), hex_text ph, hex_text (router_hash_id peer), k_router_ip k, p_hash, peer_addr peer, num_col (peer_as peer), ts] @
        attr_columns m lp md cnt oas @ [attr_str m 32]"
      "length (row_text row) + 150 \<le> MSGBUS_WORKING_BUF_SIZE"
  obtains k' name payload where
    "kafka_update_baseAttribute env cfg fuel peer (filled_attr m lp md cnt oas a) k = Inr ((filled_attr m lp md cnt oas a)\<lparr>attr_hash_id := Some ph\<rparr>, k')"
    "sent (world k') = sent (world k) @ [(name, p_hash, payload)]" "message_columns payload = [row]" "ready k'"
    "k_router_ip k' = k_router_ip k" "unicast_prefix_seq k' = unicast_prefix_seq k" "base_attr_seq k' = base_attr_seq k + 1"
proof -
  obtain g k1 where entry: "peer_entry p_hash k = (g, k1)" by fastforce
  then have k1: "ready k1" "world k1 = world k" "collector_hash k1 = collector_hash k" "k_router_ip k1 = k_router_ip k"
      "unicast_prefix_seq k1 = unicast_prefix_seq k" "base_attr_seq k1 = base_attr_seq k"
    using assms(3) by (auto simp: peer_entry_def ready_def split: option.splits)
  let ?v = MSGBUS_TOPIC_VAR_BASE_ATTRIBUTE and ?msg = "row_text row"
  have v: "?v \<in> set topic_var_list" by (simp add: topic_var_list_def)
  obtain name where takes: "takes_message env cfg ?v p_hash (Some g) (peer_as peer) name k1"
    by (rule calm_takes [OF assms(2) k1(1) assms(4) v])
  obtain k2 where k2: "produce env cfg fuel ?v MSGBUS_WORKING_BUF_SIZE ?msg (length ?msg) 1 p_hash (Some g) (peer_as peer) k1 = Inr k2" "bus_data k2 = bus_data k1"
      "sent (world k2) = sent (world k1) @ [(name, p_hash, produce_header (collector_hash k1) ?v (length ?msg) 1 @ ?msg)]"
    by (rule produce_taken [OF assms(1) takes, where msg = ?msg and cap = MSGBUS_WORKING_BUF_SIZE and rows = 1 and fuel = fuel])
      (use assms(12) in simp_all)
  have plain: "list_all plain row"
    using assms(5,6,7,8,10,11) attr_columns_run(2) [OF assms(7)] by (auto simp: peer_plain_def attrs_plain_def)
  have nul: "CHR 0x00 \<notin> set ?msg" using join_tab_lines [OF plain] by (simp add: row_text_def)
  have sn: "snprintf MSGBUS_WORKING_BUF_SIZE ?msg = ?msg" using nul assms(12) by (intro snprintf_text) simp_all
  have "length p_hash = 32" using assms(5,8) by (simp add: peer_plain_def)
  note hash = path_hash_run [OF assms(7) this, of lp md cnt oas a, folded assms(9)]
  have ph16: "length ph = 16" by (simp add: assms(9) length_md5_spec)
  have cols: "attr_cols ((filled_attr m lp md cnt oas a)\<lparr>attr_hash_id := Some ph\<rparr>) = Inr (attr_columns m lp md cnt oas)"
      "large_community_list (filled_attr m lp md cnt oas a) = attr_str m 32" "plain (attr_str m 32)"
    using attr_columns_run(1) [OF assms(7), of lp md cnt oas a] assms(7) by (simp_all add: attr_cols_hash filled_attr_def attrs_plain_def)
  have "kafka_update_baseAttribute env cfg fuel peer (filled_attr m lp md cnt oas a) k =
      Inr ((filled_attr m lp md cnt oas a)\<lparr>attr_hash_id := Some ph\<rparr>, k2\<lparr>base_attr_seq := base_attr_seq k2 + 1\<rparr>)"
    using assms(5,6) hash cols entry k2(1) [unfolded assms(11)] sn [unfolded assms(11)] ph16
    by (simp add: kafka_update_baseAttribute_def peer_plain_def hash_toStr_run assms(8) [symmetric] assms(10) [symmetric] Let_def)
  moreover have "ready k2" by (rule calm_produce [OF assms(2) k1(1) k2(1)])
  moreover have "message_columns (produce_header (collector_hash k1) ?v (length ?msg) 1 @ ?msg) = [row]"
    using message_read(1) [of "collector_hash k1" ?v "[row]" "length ?msg" 1] plain v k1(1) assms(11) by (simp add: ready_def)
  ultimately show thesis
    using that [of "k2\<lparr>base_attr_seq := base_attr_seq k2 + 1\<rparr>" name] k1 k2(2,3) by (simp add: ready_def bus_data_def)
qed

section \<open>The two messages of an UPDATE\<close>

lemma UpdateDB_routes:
  assumes "ls_part pd = no_ls_info" "withdrawn pd = []" "vpn pd = []" "vpn_withdrawn pd = []" "evpn pd = []" "evpn_withdrawn pd = []"
  shows "UpdateDB False (bgp_ls_db bus) bus pd pb b =
    andThen (UpdateDBAttrs bus (attrs pd) pb b) (\<lambda>(pb, b). andThen (UpdateDBAdvPrefixes bus (advertised pd) pb b) (\<lambda>b. Inr (pb, b)))"
  using assms by (simp add: UpdateDB_def bgp_ls_db_def no_ls_info_def UpdateDbBgpLs_empty UpdateDBL3Vpn_def UpdateDBeVPN_def
      UpdateDBWdrawnPrefixes_def andThen_assoc split_def)

lemma adv_ribs_plain: "list_all rib_plain (adv_ribs pb bcast (map (entry_tuple f6 True ap) adv))"
proof (induction adv arbitrary: bcast)
  case (Cons e adv)
  have "plain (inet_ntop4 raw)" for raw by (simp add: inet_ntop4_def)
  moreover have "strncpy 46 (inet_ntop4 raw) = inet_ntop4 raw" "length (inet_ntop4 raw) < 46" for raw
    using inet_ntop4_length [of raw] by (simp_all add: strncpy_text)
  ultimately have "rib_plain (rib_of pb (entry_tuple f6 True ap e) bc)" for bc
    by (simp add: rib_plain_def rib_of_def entry_tuple_def nlri_prefix_def print_ip_def snprintf_def)
  then show ?case using Cons by (simp add: Let_def)
qed simp

lemma linked_calls:
  assumes "kafka_log env sent" "calm env" "ready k" "topicEnabled (topic_cfg cfg) MSGBUS_TOPIC_VAR_BASE_ATTRIBUTE"
      "topicEnabled (topic_cfg cfg) MSGBUS_TOPIC_VAR_UNICAST_PREFIX" "peer_plain peer" "plain (k_router_ip k)" "1000 < timestamp_secs peer"
      "attr_num m 5 = Inr lp" "attr_num m 4 = Inr md" "attr_num m 9000 = Inr cnt" "attr_num m 9001 = Inr oas" "attr_str m 3 \<noteq> []" "attrs_plain m"
      "p_hash = hex_text (peer_hash peer)" "ph = md5_spec (path_hash_input m lp md p_hash)"
      "ts = getTimestamp env (timestamp_secs peer) (timestamp_us peer) (world k)"
      "arow = [''add'', num_col (base_attr_seq k), hex_text ph, hex_text (router_hash_id peer), k_router_ip k, p_hash, peer_addr peer, num_col (peer_as peer), ts] @
        attr_columns m lp md cnt oas @ [attr_str m 32]"
      "ribs = adv_ribs (pb\<lparr>path_hash_id := Some ph\<rparr>) (replicate 16 None) (map (entry_tuple f6 True ap) adv)"
      "rows = rib_rows k peer ribs ''add'' (hex_text ph) (attr_columns m lp md cnt oas) (attr_str m 32) ts"
      "p_entry pb = peer" "adv \<noteq> []" "bus = kafka_bus env cfg fuel"
    and fits: "length (row_text arow) + 150 \<le> MSGBUS_WORKING_BUF_SIZE" "\<forall>row\<in>set rows. length (row_text row) < 80000"
      "length (concat (map row_text rows)) + 150 \<le> MSGBUS_WORKING_BUF_SIZE"
  shows "\<exists>pb' k' t1 t2 p1 p2. andThen (UpdateDBAttrs bus m pb k) (\<lambda>(pb, k).
      andThen (UpdateDBAdvPrefixes bus (map (entry_tuple f6 True ap) adv) pb k) (\<lambda>k. Inr (pb, k))) = Inr (pb', k') \<and>
    sent (world k') = sent (world k) @ [(t1, p_hash, p1), (t2, p_hash, p2)] \<and> message_columns p1 = [arow] \<and> message_columns p2 = rows"
proof -
  let ?a = "filled_attr m lp md cnt oas (base_attr pb)"
  obtain k1 t1 p1 where k1: "kafka_update_baseAttribute env cfg fuel peer ?a k = Inr (?a\<lparr>attr_hash_id := Some ph\<rparr>, k1)"
      "sent (world k1) = sent (world k) @ [(t1, p_hash, p1)]" "message_columns p1 = [arow]" "ready k1" "k_router_ip k1 = k_router_ip k"
      "unicast_prefix_seq k1 = unicast_prefix_seq k"
    by (rule base_attribute_message [OF assms(1-4,6,7,14-18) fits(1), of fuel "base_attr pb"])
  let ?pb = "pb\<lparr>base_attr := ?a\<lparr>attr_hash_id := Some ph\<rparr>, path_hash_id := Some ph\<rparr>"
  have attrs: "UpdateDBAttrs bus m pb k = Inr (?pb, k1)"
    using UpdateDBAttrs_run [OF assms(9-13), of bus pb k] k1(1) assms(21,23) by (simp add: kafka_bus_def)
  have ribs: "adv_ribs ?pb (replicate 16 None) (map (entry_tuple f6 True ap) adv) = ribs"
    unfolding assms(19) by (rule adv_ribs_cong) simp_all
  have "length ph = 16" by (simp add: assms(16) length_md5_spec)
  moreover have large: "large_community_list ?a = attr_str m 32" by (simp add: filled_attr_def)
  ultimately have act: "action_texts UNICAST_PREFIX_ACTION_ADD (Some (?a\<lparr>attr_hash_id := Some ph\<rparr>)) ''add'' (hex_text ph) (attr_columns m lp md cnt oas) (attr_str m 32)"
    using action_texts.add [of "?a\<lparr>attr_hash_id := Some ph\<rparr>" ph "attr_columns m lp md cnt oas"] attr_columns_run(1) [OF assms(14), of lp md cnt oas "base_attr pb"]
      attr_columns_run(2) [OF assms(14), of lp md cnt oas] assms(14)
    by (simp add: attr_cols_hash attrs_plain_def large)
  have rows: "rows = rib_rows k1 peer ribs ''add'' (hex_text ph) (attr_columns m lp md cnt oas) (attr_str m 32) ts"
    using k1(5,6) by (simp add: assms(20) rib_rows_def)
  have ts: "ts = getTimestamp env (timestamp_secs peer) (timestamp_us peer) (world k1)" unfolding assms(17) by (rule timestamp_world [OF assms(8)])
  have plain: "list_all rib_plain ribs" unfolding assms(19) by (rule adv_ribs_plain)
  have var: "MSGBUS_TOPIC_VAR_UNICAST_PREFIX \<in> set topic_var_list" by (simp add: topic_var_list_def)
  obtain t2 where takes: "takes_message env cfg MSGBUS_TOPIC_VAR_UNICAST_PREFIX p_hash (Some (case peer_list k1 p_hash of None \<Rightarrow> '''' | Some g \<Rightarrow> g)) (peer_as peer) t2 k1"
    by (rule calm_takes [OF assms(2) k1(4) assms(5) var])
  obtain k2 p2 where k2: "kafka_update_unicastPrefix env cfg fuel peer ribs (Some (?a\<lparr>attr_hash_id := Some ph\<rparr>)) UNICAST_PREFIX_ACTION_ADD k1 = Inr k2"
      "sent (world k2) = sent (world k1) @ [(t2, p_hash, p2)]" "message_columns p2 = rows"
    using unicast_message [OF assms(1) takes act plain assms(6) _ assms(15) refl ts rows fits(2,3), of fuel] k1(5) assms(7) by auto
  have "ribs \<noteq> []" using assms(22) by (auto simp: assms(19) neq_Nil_conv Let_def)
  then have "UpdateDBAdvPrefixes bus (map (entry_tuple f6 True ap) adv) ?pb k1 = Inr k2"
    using k2(1) ribs assms(21) by (simp add: UpdateDBAdvPrefixes_def new_rib_def assms(23) kafka_bus_def Let_def)
  then show ?thesis
    using attrs k1(2,3) k2(2,3) by auto
qed


definition quiet_kafka :: "mem_broker kafka_env" where
  "quiet_kafka = mem_kafka\<lparr>producer_poll := (\<lambda>_ w. ([], w))\<rparr>"

interpretation quiet_kafka: kafka_log quiet_kafka mem_log
  by unfold_locales (auto simp: quiet_kafka_def mem_kafka_def)

lemma quiet_samples: "calm quiet_kafka" "ready connected_bus"
  by (simp_all add: calm_def quiet_kafka_def mem_kafka_def ready_def kafka_inv_def connected_bus_def sample_bus_def)

definition linked_entry :: nlri_entry where
  "linked_entry = Entry 0 8 [10]"

definition linked_body :: bytes where
  "linked_body = encode_update 4 False [] [(0x40, NextHop [192, 0, 2, 7])] [linked_entry]"


end
