(* ===== verification/Spec2Isabelle.thy ===== *)
theory Spec2Isabelle
  imports ClientBuffer SafeQueue RedisBus BmpReader LinkStateDb KafkaUpdate
begin

text \<open>
  Verification of the BMP collector of sonic-bmp (\<open>src/Server/src\<close>).

  \<^bold>\<open>The program.\<close> A router opens a connection and sends BMP messages. The thread of the connection
  (\<open>client_thread.cpp\<close>) moves the bytes from the socket through a circular buffer into a pipe. The reader of the
  router (\<open>bmp/BMPReader.cpp\<close>) takes one BMP message after the other from the pipe: the BMP parser
  (\<open>bmp/parseBMP.cpp\<close>) decodes the header, the peer and the BMP specific bodies, and the BGP handler
  (\<open>bgp/parseBGP.cpp\<close>) calls the parsers of the BGP messages inside (\<open>bgp/OpenMsg.cpp\<close>, \<open>bgp/UpdateMsg.cpp\<close> with
  \<open>MPReachAttr\<close>, \<open>MPUnReachAttr\<close>, \<open>EVPN\<close> and \<open>ExtCommunity\<close>, \<open>bgp/NotificationMsg.cpp\<close>) and turns what they decoded
  into calls of a message bus (\<open>MsgBusInterface.hpp\<close>). The bus of the SONiC build writes to the state database
  (\<open>redis/MsgBusImpl_redis.cpp\<close>, \<open>RedisManager.cpp\<close>).

  \<^bold>\<open>The memory model.\<close> A pointer is the list of the bytes from its target to the end of the object it
  points into; reading past that end is the fault \<open>OutOfBounds\<close>, writing past the end of an array is
  \<open>BufferOverflow\<close>, and a member without a value is \<open>None\<close>, the use of which is \<open>Uninit\<close>. A C++ exception that is
  a string literal is the fault \<open>Throw\<close>; an exception of the standard library is \<open>Uncaught\<close>. An operation that
  may fault has the type \<open>'a result\<close>; \<open>ret m P\<close> says that every value it returns satisfies \<open>P\<close>, \<open>tot m P\<close> that
  moreover it does not fault. Machine integers keep their width.

  \<^bold>\<open>The theories\<close>, in the order of their imports:
  \<^item> \<open>BmpPrelude\<close>: results, reading bytes, big-endian numbers, decimal texts, and the locales \<open>state_stream\<close> and
    \<open>record_stream\<close>: a loop that decodes one record per round decodes a sequence of encoded records.
    Interpreted for prefixes, labels, EVPN routes, path attributes and information TLVs.
  \<^item> \<open>ClientBuffer\<close> (\<open>client_thread.cpp\<close>): the circular buffer. It is a FIFO, never leaves its array, and drains.
  \<^item> \<open>SafeQueue\<close> (\<open>safeQueue.hpp\<close>): a step relation of producers and consumers; the FIFO property by rule induction
    through the locale \<open>fifo_queue\<close>, and the bound on its size.
  \<^item> \<open>Md5\<close> (\<open>md5.cpp\<close>): the streaming hash equals RFC 1321 on the concatenated input.
  \<^item> \<open>BgpCommon\<close>, \<open>AddPath\<close>, \<open>Notification\<close>, \<open>OpenMsg\<close>: \<open>bgp_common.h\<close>, the ADD-PATH table (locale \<open>code_store\<close>), and the
    NOTIFICATION and OPEN parsers.
  \<^item> \<open>ExtCommunity\<close>, \<open>UpdateData\<close>, \<open>Evpn\<close>, \<open>MpReach\<close>, \<open>UpdateMsg\<close>: the UPDATE parser with every attribute. Round trips
    from encoded messages, bounds on what is read on arbitrary bytes, and the places where these bounds are
    not the announced length.
  \<^item> \<open>MsgBus\<close> (\<open>MsgBusInterface.hpp\<close>): the objects and the record of operations a bus offers.
  \<^item> \<open>ParseBgp\<close> (\<open>bgp/parseBGP.cpp\<close>): the BGP header, the handlers of UPDATE, peer up and peer down, and the
    translation of decoded routes into bus objects, with the preprocessor option \<open>REDIS_ENABLED\<close> as an argument.
  \<^item> \<open>RedisBus\<close> (\<open>redis/\<close>, \<open>RedisManager.cpp\<close>): the bus over the swss library. The library is the record \<open>swss\<close>
    with the contract \<open>swss_store\<close>, interpreted by a store in memory. The bus refines an abstract table of
    routes, and the reachable databases satisfy an invariant on their keys.
  \<^item> \<open>ParseBmp\<close> (\<open>bmp/parseBMP.cpp\<close>): both header versions, the peer header, the TLV messages and the statistics
    report, over the list of bytes the pipe still delivers.
  \<^item> \<open>BmpReader\<close> (\<open>bmp/BMPReader.cpp\<close>): \<open>ReadIncomingMsg\<close> with every message type and the loop of the thread. The
    reader stays aligned with the stream and its loop ends.
  \<^item> This theory composes them: what a route monitoring message makes of the bus, and what the Redis bus makes
    of announcements and withdrawals.

  \<^bold>\<open>Bounds and fuel.\<close> The parsers' loops are functions with termination proofs: the number of bytes to be read
  decreases. The loop of the reader thread has no such measure in the source and takes the number of
  messages as fuel; \<open>reader_terminates\<close> shows that one more than the bytes of the stream is enough. The message
  lengths in the round trips are the ones the source admits: 65535 bytes for an UPDATE and a BMP message.

  \<^bold>\<open>Parameters.\<close> \<open>inet_ntop\<close> for IPv6 (with the documented length below 46 where it matters), the swss library,
  the time, the results of \<open>poll\<close>, \<open>read\<close> and \<open>write\<close>, and the parsers of link-state routes together with the
  routine that hands these to the bus.

  \<^bold>\<open>Not modelled.\<close> The link-state parsers (\<open>bgp/linkstate/\<close>, \<open>parseBGP::UpdateDbBgpLs\<close>), which are parameters.
  \<open>kafka/\<close>: it formats records for librdkafka and is not part of the build with Redis. \<open>Config.cpp\<close>, which walks
  a tree of the yaml-cpp library. \<open>openbmp.cpp\<close>, \<open>bmp/BMPListener.cpp\<close>, \<open>Logger.cpp\<close> and the set-up of the thread in
  \<open>client_thread.cpp\<close>: sockets, signals, threads and log files. Log output is left out everywhere.
\<close>

section \<open>From the socket to the bus\<close>

lemma entry_prefix_short: "length (prefix (entry_tuple f6 True ap en)) \<le> 15"
  using inet_ntop4_length by (simp add: entry_tuple_def nlri_prefix_def print_ip_def)

lemma redis_bus_fields [simp]:
  "update_Router (redis_bus sw q) = (\<lambda>r _ m. Inr (r, m))" "update_Peer (redis_bus sw q) = redis_update_Peer sw"
  "update_unicastPrefix (redis_bus sw q) = redis_update_unicastPrefix sw" "send_bmp_raw (redis_bus sw q) = (\<lambda>_ _ _. Inr)"
  by (simp_all add: redis_bus_def)

lemma redis_first_peer:
  assumes "peer_wf p" "separator m \<noteq> []"
  shows "\<exists>m'. redis_update_Peer sw p None None PEER_ACTION_FIRST m = Inr (p, m')"
  using assms by (auto simp: redis_update_Peer_def WriteBMPTable_def peer_wf_def Let_def)

lemma first_peer_wf: "\<forall>a. length (ntop6 (e_ext e) a) < 46 \<Longrightarrow> peer_wf (first_peer e now hdr r)"
  using peer_of_hdr_wf(1) [OF _ zero_peer_wf, of "ntop6 (e_ext e)" now hdr] by (simp add: first_peer_def peer_wf_def)

text \<open>The fields of an attribute object that was never assigned cannot be read.\<close>

lemma announce_uninit:
  assumes "length (peer_addr p) < 46" "ats \<noteq> []" "\<forall>t\<in>set ats. length (prefix t) < 46"
  shows "update_calls (redis_bus sw q) (new_parseBGP p pinfo) ats wts m = Inl Uninit"
proof (cases ats)
  case (Cons t ts)
  have "length (strncpy 46 (prefix t)) < 46"
    using assms(3) length_strncpy(1) [of 46 "prefix t"] by (auto simp: Cons intro: le_less_trans)
  then show ?thesis
    using assms(1) by (simp add: update_calls_def redis_update_unicastPrefix_def Cons Let_def rib_pfx_def rib_of_def
        announce_fields_def new_parseBGP_def new_path_attr_def)
qed (use assms(2) in simp)

lemma rib_view_neighbour:
  assumes "c \<notin> set n" "c \<notin> set t"
  shows "rib_view c (hset (t @ [c] @ n) fvs h) = rib_view c h"
proof (intro ext)
  fix t' p' n'
  have "t' @ [c] @ p' @ [c] @ n' \<noteq> t @ [c] @ n" if "c \<notin> set t'"
    using sep_split [OF that assms(2), of "p' @ [c] @ n'" n] assms(1) by auto
  then show "rib_view c (hset (t @ [c] @ n) fvs h) t' p' n' = rib_view c h t' p' n'"
    by (simp add: rib_view_def hset_def del: append_Cons append_Nil)
qed

lemma redis_peer_keeps_routes:
  assumes "swss_store sw view c" "key_sep c" "separator m = [c]" "c \<notin> set (peer_addr p)"
    "redis_update_Peer sw p None None PEER_ACTION_FIRST m = Inr (p', m')"
  shows "p' = p" "rib_view c (view (stateDb m')) = rib_view c (view (stateDb m))"
proof -
  show "p' = p" using assms(5) by (auto simp: redis_update_Peer_def andThen_eq_Inr)
  from assms(3,5) obtain fvs where f: "fvs \<noteq> []"
    "m' = m \<or> m' = m\<lparr>stateDb := table_set sw BMP_TABLE_NEI (butlast (peer_addr p @ [c])) fvs (stateDb m)\<rparr>"
    by (auto simp: redis_update_Peer_def WriteBMPTable_def read_cstr_def andThen_eq_Inr split: if_splits)
  have "c \<notin> set BMP_TABLE_NEI" using assms(2) by (simp add: key_sep_def)
  with f(2) rib_view_neighbour [OF assms(4)] swss_store.view_set [OF assms(1) f(1)]
  show "rib_view c (view (stateDb m')) = rib_view c (view (stateDb m))" by auto
qed

lemma redis_route_monitoring:
  assumes "rs_in st = bmp_bytes TYPE_ROUTE_MON hdr body @ rest" "length hdr = 42"
      "body = bgp_bytes mk BGP_MSG_UPDATE (encode_update octets ap wd fas adv)" "length body \<le> 65493" "length mk = 16"
      "e_bus e = redis_bus sw q" "e_redis e" "separator (rs_bus st) \<noteq> []" "\<forall>a. length (ntop6 (e_ext e) a) < 46"
      "p = first_peer e now hdr (first_router st)" "pinfo = known_peer st (peer_key p) p"
      "isAddPathEnabled (pi_add_path_capability pinfo) (int BGP_AFI_IPV4) (int BGP_SAFI_UNICAST) = Inr ap"
      "octets = (if using_2_octet_asn pinfo then 2 else 4)"
      "list_all (entry_ok True) wd" "list_all (attr_ok octets) fas" "list_all (entry_ok True) adv" "\<not> initRec (rs_client st)"
  shows "\<exists>m st' h. redis_update_Peer sw p None None PEER_ACTION_FIRST (rs_bus st) = Inr (p, m) \<and>
    ReadIncomingMsg e now st = catch_throw (update_calls (redis_bus sw q) (new_parseBGP p pinfo)
      (map (entry_tuple (ntop6 (e_ext e)) True ap) adv) (map (entry_tuple (ntop6 (e_ext e)) True ap) wd) m) h (\<lambda>b.
        Inr (Returned True (st'\<lparr>rs_bus := b\<rparr>))) \<and> rs_in st' = rest"
proof -
  have wf: "peer_wf p" unfolding assms(10) by (rule first_peer_wf [OF assms(9)])
  obtain m where m: "redis_update_Peer sw p None None PEER_ACTION_FIRST (rs_bus st) = Inr (p, m)"
    using redis_first_peer [OF wf assms(8)] by blast
  have k: "peer_key p = peer_key (first_peer e now hdr (first_router st))" by (simp add: assms(10))
  have bus: "update_Router (e_bus e) (first_router st) ROUTER_ACTION_FIRST (rs_bus st) = Inr (first_router st, rs_bus st)"
    "update_Peer (e_bus e) (first_peer e now hdr (first_router st)) None None PEER_ACTION_FIRST (rs_bus st) = Inr (p, m)"
    using m by (simp_all add: assms(6) flip: assms(10))
  from route_monitoring_run [OF assms(1-5) bus k assms(11-16) assms(7,17) refl refl] m show ?thesis
    by (auto simp: assms(6))
qed

section \<open>Properties\<close>


definition sample_update :: bytes where
  "sample_update = bgp_bytes ones16 BGP_MSG_UPDATE (encode_update 4 False sample_withdrawn sample_attrs sample_announced)"

lemma sample_update_length: "length sample_update \<le> 65493"
  by (simp add: sample_update_def length_bgp_bytes ones16_def sample_withdrawn_def sample_attrs_def sample_announced_def
      ATTR_FLAG_EXTENDED_def encode_segment_def encode_update_def encode_attr_def encode_entry_def)

lemma sample_known: "known_peer (new_session inp b) k (first_peer e now sample_peer_hdr r) = plain_peer"
  by (simp add: known_peer_def new_session_def new_BMPReader_def lookup_peer_def first_peer_def peer_of_hdr_def sample_peer_hdr_def
      parsePeerFlags_def set_timestamp_def zero_peer_def Let_def)



definition redis_env :: "(unit, mem_db RedisManager) env" where
  "redis_env = \<lparr>e_redis = True, e_ext = plain_ext, e_ls_db = (\<lambda>_ l _ b. Inr (l, b)), e_ls0 = (), e_bus = redis_bus (mem_redis CHR ''|'') 0\<rparr>"

lemma redis_env_fields:
  "e_bus redis_env = redis_bus (mem_redis CHR ''|'') 0" "e_redis redis_env" "\<forall>a. length (ntop6 (e_ext redis_env) a) < 46"
  by (simp_all add: redis_env_def plain_ext_def)

lemma redis_start:
  "rs_in (new_session inp b) = inp" "rs_bus (new_session inp b) = b" "\<not> initRec (rs_client (new_session inp b))"
  "length sample_peer_hdr = 42" "length ones16 = 16" "separator sample_mgr \<noteq> []"
  by (simp_all add: new_session_def sample_peer_hdr_def ones16_def sample_mgr_fields)

lemma plain_octets: "(4 :: nat) = (if using_2_octet_asn plain_peer then 2 else 4)"
  by (simp add: plain_peer_def)



definition sample_withdrawal :: bytes where
  "sample_withdrawal = bgp_bytes ones16 BGP_MSG_UPDATE (encode_update 4 False sample_withdrawn [] [])"

lemma sample_withdrawal_length: "length sample_withdrawal \<le> 65493"
  by (simp add: sample_withdrawal_def length_bgp_bytes ones16_def sample_withdrawn_def encode_update_def encode_entry_def)


end
